(* ===== verification/Prelude.thy ===== *)
theory Prelude
  imports Complex_Main "HOL-Library.Product_Lexorder" "HOL-Library.List_Lexorder"
    "HOL-Library.Char_ord" "HOL-Library.Multiset"
begin

text \<open>
  The shared vocabulary of the development.

  \<^item> \<open>exn\<close>: the exceptions the gateway raises or lets through, as values.
  \<^item> \<open>('s, 'a) act\<close>: a step of the program over a state \<open>'s\<close> that returns a value or
    raises, with its combinators \<open>returnE\<close>, \<open>raiseE\<close>, \<open>bindE\<close>, \<open>tryE\<close> and
    \<open>finallyE\<close>; \<open>act_sim\<close> says that one action simulates another through a view
    of its state, with one introduction rule per combinator (collection \<open>act_sims\<close>).
  \<^item> decimal text (\<open>show_nat\<close>, \<open>show_int\<close>, \<open>read_nat\<close>, \<open>read_int\<close>) as Python's
    \<open>str\<close> and \<open>int\<close> write and read it, and fixed-width hexadecimal text.
  \<^item> generic facts on lists and stable sorting.
\<close>

section \<open>Exceptions and actions\<close>

datatype exn =
    RateLimitExceeded
  | NoBackendsAvailable
  | AllBackendsUnavailable "exn option"
  | ConfigError string
  | ResponseError string
  | ScriptError string
  | TimeoutError
  | BackendError string
  | IndexError
  | KeyError
  | RuntimeError string
  | ValueError string
  | IntegrityError string
  | DataError string
  | HTTPException nat string "(string \<times> string) list"
  | CancelledError
  | Blocked

text \<open>
  What \<^verbatim>\<open>except Exception\<close> catches: not the cancellation of a task, which is a
  \<^verbatim>\<open>BaseException\<close>, and not \<open>Blocked\<close>, which stands for an await that is never
  resumed (the state is the one it waits in).
\<close>

definition is_Exception :: "exn \<Rightarrow> bool" where
  "is_Exception e \<longleftrightarrow> e \<noteq> CancelledError \<and> e \<noteq> Blocked"

type_synonym ('s, 'a) act = "'s \<Rightarrow> (exn + 'a) \<times> 's"

definition returnE :: "'a \<Rightarrow> ('s, 'a) act" where
  "returnE x s = (Inr x, s)"

definition raiseE :: "exn \<Rightarrow> ('s, 'a) act" where
  "raiseE e s = (Inl e, s)"

definition bindE :: "('s, 'a) act \<Rightarrow> ('a \<Rightarrow> ('s, 'b) act) \<Rightarrow> ('s, 'b) act" where
  "bindE m k s = (case m s of (Inl e, s') \<Rightarrow> (Inl e, s') | (Inr x, s') \<Rightarrow> k x s')"

definition tryE :: "('s, 'a) act \<Rightarrow> ('s, exn + 'a) act" where
  "tryE m s =
     (case m s of
        (Inl e, s') \<Rightarrow> if is_Exception e then (Inr (Inl e), s') else (Inl e, s')
      | (Inr x, s') \<Rightarrow> (Inr (Inr x), s'))"

definition liftE :: "exn + 'a \<Rightarrow> ('s, 'a) act" where
  "liftE r s = (r, s)"

definition is_blocked :: "exn + 'a \<Rightarrow> bool" where
  "is_blocked r = (case r of Inl e \<Rightarrow> e = Blocked | Inr _ \<Rightarrow> False)"

definition finallyE :: "('s, 'a) act \<Rightarrow> ('s, unit) act \<Rightarrow> ('s, 'a) act" where
  "finallyE m cleanup s =
     (case m s of (r, s') \<Rightarrow> if is_blocked r then (r, s') else bindE cleanup (\<lambda>_. liftE r) s')"

definition act_sim :: "('r \<Rightarrow> 's) \<Rightarrow> ('r, 'a) act \<Rightarrow> ('s, 'a) act \<Rightarrow> bool" where
  "act_sim v m n \<longleftrightarrow> (\<forall>r. fst (m r) = fst (n (v r)) \<and> v (snd (m r)) = snd (n (v r)))"

named_theorems act_simps "unfolding of the action combinators"
named_theorems act_sims "simulation rules of the action combinators"

lemma returnE_apply [act_simps, simp]: "returnE x s = (Inr x, s)"
  by (simp add: returnE_def)

lemma raiseE_apply [act_simps, simp]: "raiseE e s = (Inl e, s)"
  by (simp add: raiseE_def)

lemma liftE_apply [act_simps, simp]: "liftE r s = (r, s)"
  by (simp add: liftE_def)

lemma bindE_Inl [act_simps, simp]: "m s = (Inl e, s') \<Longrightarrow> bindE m k s = (Inl e, s')"
  by (simp add: bindE_def)

lemma bindE_Inr [act_simps, simp]: "m s = (Inr x, s') \<Longrightarrow> bindE m k s = k x s'"
  by (simp add: bindE_def)

lemma bindE_returnE [act_simps, simp]: "bindE (returnE x) k = k x"
  by (simp add: fun_eq_iff bindE_def)

lemma bindE_raiseE [act_simps, simp]: "bindE (raiseE e) k = raiseE e"
  by (simp add: fun_eq_iff bindE_def)

lemma bindE_tryE:
  "bindE (tryE m) k s = (x, t) \<Longrightarrow> m s = (r, s') \<Longrightarrow>
     (\<forall>e. r = Inl e \<longrightarrow> is_Exception e) \<and> k r s' = (x, t) \<or>
     (\<exists>e. r = Inl e \<and> \<not> is_Exception e \<and> x = Inl e \<and> t = s')"
  by (cases r) (auto simp: tryE_def bindE_def split: if_splits)

lemma is_Exception_Blocked [simp]: "\<not> is_Exception Blocked"
  by (simp add: is_Exception_def)

lemma bindE_split:
  "P (bindE m k s) \<longleftrightarrow>
     (\<forall>e s'. m s = (Inl e, s') \<longrightarrow> P (Inl e, s')) \<and> (\<forall>x s'. m s = (Inr x, s') \<longrightarrow> P (k x s'))"
  by (auto simp: bindE_def split: prod.splits sum.splits)

lemma bindE_eq_Inr:
  "bindE m k s = (Inr y, s'') \<longleftrightarrow> (\<exists>x s'. m s = (Inr x, s') \<and> k x s' = (Inr y, s''))"
  by (auto simp: bindE_def split: prod.splits sum.splits)

lemma bindE_eq_Inl:
  "bindE m k s = (Inl e, s'') \<longleftrightarrow>
     m s = (Inl e, s'') \<or> (\<exists>x s'. m s = (Inr x, s') \<and> k x s' = (Inl e, s''))"
  by (auto simp: bindE_def split: prod.splits sum.splits)

lemma bindE_cong [fundef_cong]:
  assumes "m = m'" and "s = s'" and "\<And>x t. m' s' = (Inr x, t) \<Longrightarrow> k x t = k' x t"
  shows "bindE m k s = bindE m' k' s'"
  using assms by (auto simp: bindE_def split: prod.splits sum.splits)

section \<open>Simulation of actions\<close>

lemma act_simI:
  assumes "\<And>r. fst (m r) = fst (n (v r))" and "\<And>r. v (snd (m r)) = snd (n (v r))"
  shows "act_sim v m n"
  using assms by (simp add: act_sim_def)

lemma act_simD:
  assumes "act_sim v m n"
  shows "fst (m r) = fst (n (v r))" and "v (snd (m r)) = snd (n (v r))"
  using assms by (simp_all add: act_sim_def)

lemma act_sim_return [act_sims]: "act_sim v (returnE x) (returnE x)"
  by (simp add: act_sim_def)

lemma act_sim_raise [act_sims]: "act_sim v (raiseE e) (raiseE e)"
  by (simp add: act_sim_def)

lemma act_sim_lift [act_sims]: "act_sim v (liftE r) (liftE r)"
  by (simp add: act_sim_def)

lemma act_sim_bind [act_sims]:
  assumes m: "act_sim v m n" and k: "\<And>x. act_sim v (k x) (l x)"
  shows "act_sim v (bindE m k) (bindE n l)"
proof (rule act_simI)
  fix r
  have step: "fst (m r) = fst (n (v r))" "v (snd (m r)) = snd (n (v r))"
    using m by (auto simp: act_sim_def)
  show "fst (bindE m k r) = fst (bindE n l (v r))"
    using step k by (auto simp: bindE_def act_sim_def split: prod.splits sum.splits)
  show "v (snd (bindE m k r)) = snd (bindE n l (v r))"
    using step k by (auto simp: bindE_def act_sim_def split: prod.splits sum.splits)
qed

lemma act_sim_if [act_sims]:
  assumes "b \<Longrightarrow> act_sim v m n" and "\<not> b \<Longrightarrow> act_sim v m' n'"
  shows "act_sim v (if b then m else m') (if b then n else n')"
  using assms by simp

lemma act_sim_option [act_sims]:
  assumes "x = None \<Longrightarrow> act_sim v m n" and "\<And>y. x = Some y \<Longrightarrow> act_sim v (k y) (l y)"
  shows "act_sim v (case x of None \<Rightarrow> m | Some y \<Rightarrow> k y) (case x of None \<Rightarrow> n | Some y \<Rightarrow> l y)"
  using assms by (cases x) auto

lemma act_sim_try [act_sims]: "act_sim v m n \<Longrightarrow> act_sim v (tryE m) (tryE n)"
  unfolding act_sim_def tryE_def by (auto split: prod.splits sum.splits) (metis fst_conv snd_conv Inl_inject Inr_inject sum.distinct(1))+

lemma act_sim_finally [act_sims]:
  assumes "act_sim v m n" and "act_sim v c d"
  shows "act_sim v (finallyE m c) (finallyE n d)"
proof (rule act_simI)
  fix r
  obtain x r' where m: "m r = (x, r')" by fastforce
  then have n: "n (v r) = (x, v r')" using act_simD [OF assms(1), of r] by (simp add: prod_eq_iff)
  have rest: "act_sim v (bindE c (\<lambda>_. liftE x)) (bindE d (\<lambda>_. liftE x))"
    using assms(2) by (intro act_sim_bind act_sim_lift)
  show "fst (finallyE m c r) = fst (finallyE n d (v r))" "v (snd (finallyE m c r)) = snd (finallyE n d (v r))"
    using act_simD [OF rest, of r'] by (simp_all add: finallyE_def m n)
qed

section \<open>Decimal and hexadecimal text\<close>

definition digit_char :: "nat \<Rightarrow> char" where
  "digit_char d = char_of (48 + d)"

definition digit_val :: "char \<Rightarrow> nat" where
  "digit_val c = of_char c - 48"

definition is_digit :: "char \<Rightarrow> bool" where
  "is_digit c \<longleftrightarrow> 48 \<le> (of_char c :: nat) \<and> (of_char c :: nat) \<le> 57"

fun show_nat :: "nat \<Rightarrow> string" where
  "show_nat n = (if n < 10 then [digit_char n] else show_nat (n div 10) @ [digit_char (n mod 10)])"

declare show_nat.simps [simp del]

definition show_int :: "int \<Rightarrow> string" where
  "show_int i = (if i < 0 then CHR ''-'' # show_nat (nat (- i)) else show_nat (nat i))"

definition read_nat :: "string \<Rightarrow> nat" where
  "read_nat cs = foldl (\<lambda>a c. 10 * a + digit_val c) 0 cs"

text \<open>The value of an optional minus sign followed by one or more digits.\<close>

definition read_int :: "string \<Rightarrow> int option" where
  "read_int cs =
     (case cs of
        [] \<Rightarrow> None
      | c # ds \<Rightarrow>
          if c = CHR ''-''
          then (if ds \<noteq> [] \<and> list_all is_digit ds then Some (- int (read_nat ds)) else None)
          else (if list_all is_digit cs then Some (int (read_nat cs)) else None))"

lemma digit_char_props:
  assumes "d < 10"
  shows "is_digit (digit_char d)" and "digit_val (digit_char d) = d"
  using assms by (simp_all add: is_digit_def digit_char_def digit_val_def)

lemma is_digit_not:
  assumes "is_digit c"
  shows "c \<noteq> CHR '':''" and "c \<noteq> CHR ''-''" and "c \<noteq> CHR ''e''" and "c \<noteq> CHR '',''"
    and "c \<noteq> CHR ''}''" and "c \<noteq> CHR '' ''"
  using assms by (auto simp: is_digit_def)

lemma show_nat_digits: "list_all is_digit (show_nat n)"
  by (induction n rule: show_nat.induct)
    (subst show_nat.simps, auto simp: digit_char_props)

lemma show_nat_nonempty [simp]: "show_nat n \<noteq> []"
  by (subst show_nat.simps) simp

lemma read_nat_snoc: "read_nat (cs @ [c]) = 10 * read_nat cs + digit_val c"
  by (simp add: read_nat_def)

lemma read_show_nat [simp]: "read_nat (show_nat n) = n"
proof (induction n rule: show_nat.induct)
  case (1 n)
  show ?case
  proof (cases "n < 10")
    case True
    then show ?thesis
      by (simp add: show_nat.simps [of n] read_nat_def digit_char_props)
  next
    case False
    with 1 have "read_nat (show_nat (n div 10)) = n div 10" by simp
    with False show ?thesis
      by (simp add: show_nat.simps [of n] read_nat_snoc digit_char_props)
  qed
qed

lemma show_nat_inject [simp]: "show_nat a = show_nat b \<longleftrightarrow> a = b"
  by (metis read_show_nat)

lemma hd_show_nat: "is_digit (hd (show_nat n))"
  using show_nat_digits [of n] show_nat_nonempty [of n] by (cases "show_nat n") auto

lemma read_show_int [simp]: "read_int (show_int i) = Some i"
proof (cases "i < 0")
  case True
  then show ?thesis
    using show_nat_digits by (simp add: show_int_def read_int_def)
next
  case False
  obtain c cs where cs: "show_nat (nat i) = c # cs"
    by (cases "show_nat (nat i)") auto
  with hd_show_nat [of "nat i"] have "is_digit c" by simp
  with False cs show ?thesis
    using show_nat_digits [of "nat i"] read_show_nat [of "nat i"] is_digit_not [of c]
    by (auto simp: show_int_def read_int_def)
qed

lemma show_int_nonempty [simp]: "show_int i \<noteq> []"
  by (simp add: show_int_def)

lemma show_int_inject: "show_int i = show_int j \<Longrightarrow> i = j"
  by (metis read_show_int option.inject)

lemma show_int_chars: "c \<in> set (show_int i) \<Longrightarrow> is_digit c \<or> c = CHR ''-''"
  using show_nat_digits by (auto simp: show_int_def list_all_iff split: if_splits)

definition hex_char :: "nat \<Rightarrow> char" where
  "hex_char d = (if d < 10 then char_of (48 + d) else char_of (87 + d))"

primrec hex_fixed :: "nat \<Rightarrow> nat \<Rightarrow> string" where
  "hex_fixed 0 n = []"
| "hex_fixed (Suc k) n = hex_fixed k (n div 16) @ [hex_char (n mod 16)]"

lemma length_hex_fixed [simp]: "length (hex_fixed k n) = k"
  by (induction k arbitrary: n) auto

lemma of_char_hex_char: "d < 16 \<Longrightarrow> of_char (hex_char d) = (if d < 10 then 48 + d else 87 + d)"
  by (simp add: hex_char_def)

lemma hex_char_inject: "a < 16 \<Longrightarrow> b < 16 \<Longrightarrow> hex_char a = hex_char b \<Longrightarrow> a = b"
proof -
  assume a: "a < 16" and b: "b < 16" and eq: "hex_char a = hex_char b"
  have "(if a < 10 then 48 + a else 87 + a) = (if b < 10 then 48 + b else 87 + b)"
    using of_char_hex_char [OF a] of_char_hex_char [OF b] by (simp only: eq)
  with a b show "a = b" by (simp split: if_splits)
qed

lemma hex_fixed_inject:
  "m < 16 ^ k \<Longrightarrow> n < 16 ^ k \<Longrightarrow> hex_fixed k m = hex_fixed k n \<Longrightarrow> m = n"
proof (induction k arbitrary: m n)
  case 0
  then show ?case by simp
next
  case (Suc k)
  from Suc.prems have "m div 16 < 16 ^ k" "n div 16 < 16 ^ k"
    by (auto simp: less_mult_imp_div_less mult.commute)
  moreover from Suc.prems have "hex_fixed k (m div 16) = hex_fixed k (n div 16)" by simp
  ultimately have d: "m div 16 = n div 16" by (rule Suc.IH)
  from Suc.prems have "m mod 16 = n mod 16" by (auto intro: hex_char_inject)
  with d show ?case by (metis div_mult_mod_eq)
qed

lemma hex_fixed_no_colon: "CHR '':'' \<notin> set (hex_fixed k n)"
proof (induction k arbitrary: n)
  case 0
  then show ?case by simp
next
  case (Suc k)
  have "of_char (hex_char (n mod 16)) \<noteq> (58 :: nat)"
    by (simp add: of_char_hex_char)
  then have "hex_char (n mod 16) \<noteq> CHR '':''" by auto
  with Suc show ?case by simp
qed

section \<open>Lists\<close>

definition join :: "string \<Rightarrow> string list \<Rightarrow> string" where
  "join sep xs = (case xs of [] \<Rightarrow> [] | y # ys \<Rightarrow> y @ concat (map (\<lambda>z. sep @ z) ys))"

text \<open>Python's \<open>xs[0]\<close> and \<open>xs[-1]\<close>: the first and the last element, raising on the empty list.\<close>

definition first_or_raise :: "'a list \<Rightarrow> exn + 'a" where
  "first_or_raise xs = (case xs of [] \<Rightarrow> Inl IndexError | x # _ \<Rightarrow> Inr x)"

definition last_or_raise :: "'a list \<Rightarrow> exn + 'a" where
  "last_or_raise xs = (if xs = [] then Inl IndexError else Inr (last xs))"

lemma hd_sort_key_least:
  assumes "xs \<noteq> []"
  shows "hd (sort_key f xs) \<in> set xs" and "\<forall>y \<in> set xs. f (hd (sort_key f xs)) \<le> f y"
proof -
  obtain z zs where z: "sort_key f xs = z # zs"
    using assms by (cases "sort_key f xs") (auto dest: arg_cong [where f = length])
  have "set (sort_key f xs) = set xs" by simp
  with z have set: "set xs = insert z (set zs)" by simp
  then show "hd (sort_key f xs) \<in> set xs" using z by simp
  have "sorted (map f (sort_key f xs))" by simp
  with z set show "\<forall>y \<in> set xs. f (hd (sort_key f xs)) \<le> f y" by auto
qed

lemma last_sort_key_greatest:
  assumes "xs \<noteq> []"
  shows "last (sort_key f xs) \<in> set xs" and "\<forall>y \<in> set xs. f y \<le> f (last (sort_key f xs))"
proof -
  let ?s = "sort_key f xs"
  have ne: "?s \<noteq> []" using assms by (auto dest: arg_cong [where f = length])
  then have "last ?s \<in> set ?s" by (rule last_in_set)
  then show "last ?s \<in> set xs" by simp
  have "sorted (map f (butlast ?s @ [last ?s]))" using ne by simp
  then have "\<forall>y \<in> set (butlast ?s @ [last ?s]). f y \<le> f (last ?s)"
    by (auto simp: sorted_append)
  then show "\<forall>y \<in> set xs. f y \<le> f (last ?s)" using ne by simp
qed

lemma length_filter_find:
  "find P xs = Some x \<Longrightarrow> length (filter (\<lambda>y. \<not> P y) xs) < length xs"
  by (induction xs) (auto split: if_splits intro: le_imp_less_Suc)

lemma find_SomeD: "find P xs = Some x \<Longrightarrow> x \<in> set xs \<and> P x"
  by (induction xs) (auto split: if_splits)

lemma find_ex: "y \<in> set xs \<Longrightarrow> P y \<Longrightarrow> \<exists>x. find P xs = Some x"
  by (induction xs) auto

end
