(* ===== verification/Domain.thy ===== *)
theory Domain
  imports Prelude "HOL-Library.Word"
begin

text \<open>
  The data of \<^verbatim>\<open>gateway/domain/__init__.py\<close>, \<^verbatim>\<open>gateway/cache/__init__.py\<close>,
  \<^verbatim>\<open>gateway/routing/base.py\<close> and the result type of the orchestrator, with the value
  types the source takes from \<^verbatim>\<open>aikit\<close> (\<open>ChatMessage\<close>, \<open>Completion\<close>, \<open>Usage\<close>,
  \<open>StreamEvent\<close>), field for field.

  Python strings are \<open>string\<close>, one \<open>char\<close> per code point (so code points below 256),
  Python integers are \<open>int\<close>, floats and numerics are exact rationals, a UUID is a 128-bit
  word whose canonical text \<open>uuid_str\<close> is what \<open>str(uuid)\<close> writes.
\<close>

section \<open>Identifiers and enumerations\<close>

type_synonym uuid = "128 word"
type_synonym datetime = rat
type_synonym embedding = "rat list"

definition uuid_str :: "uuid \<Rightarrow> string" where
  "uuid_str u =
     (let h = hex_fixed 32 (unat u) in
      take 8 h @ ''-'' @ take 4 (drop 8 h) @ ''-'' @ take 4 (drop 12 h) @ ''-'' @
      take 4 (drop 16 h) @ ''-'' @ drop 20 h)"

datatype BackendType = OLLAMA | HOSTED

datatype CacheTier = L1 | L2

fun backend_type_value :: "BackendType \<Rightarrow> string" where
  "backend_type_value OLLAMA = ''ollama''"
| "backend_type_value HOSTED = ''hosted''"

fun cache_tier_value :: "CacheTier \<Rightarrow> string" where
  "cache_tier_value L1 = ''l1''"
| "cache_tier_value L2 = ''l2''"

definition backend_type_of :: "string \<Rightarrow> exn + BackendType" where
  "backend_type_of s =
     (if s = ''ollama'' then Inr OLLAMA
      else if s = ''hosted'' then Inr HOSTED
      else Inl (ValueError ''BackendType''))"

section \<open>Records of the domain\<close>

record ApiKey =
  ak_id :: uuid
  ak_key_hash :: string
  ak_name :: string
  ak_token_budget :: int
  ak_window_seconds :: int
  ak_enabled :: bool
  ak_created_at :: datetime

record Backend =
  b_id :: uuid
  b_name :: string
  b_type :: BackendType
  b_endpoint :: string
  b_model :: string
  b_priority :: int
  b_enabled :: bool
  b_cost_per_1k_in :: rat
  b_cost_per_1k_out :: rat
  b_created_at :: datetime

record CacheEntry =
  ce_id :: uuid
  ce_model :: string
  ce_prompt_hash :: string
  ce_embedding :: embedding
  ce_response :: string
  ce_tokens_in :: int
  ce_tokens_out :: int
  ce_created_at :: datetime

record RequestLogEntry =
  rl_id :: uuid
  rl_api_key_id :: uuid
  rl_model :: string
  rl_tokens_in :: int
  rl_tokens_out :: int
  rl_cost :: rat
  rl_latency_ms :: int
  rl_status :: int
  rl_created_at :: datetime
  rl_backend_id :: "uuid option"
  rl_cache_tier :: "string option"
  rl_finish_reason :: "string option"

record CacheHit =
  ch_content :: string
  ch_tokens_in :: int
  ch_tokens_out :: int
  ch_tier :: CacheTier

record RequestFeatures =
  f_model :: string
  f_est_tokens_in :: int
  f_complexity :: rat

record CompletionResult =
  cr_content :: string
  cr_model :: string
  cr_tokens_in :: int
  cr_tokens_out :: int
  cr_finish_reason :: "string option"
  cr_cache_tier :: "CacheTier option"
  cr_backend_name :: "string option"

section \<open>Value types of the model clients\<close>

record ChatMessage =
  m_role :: string
  m_content :: string

record Completion =
  c_content :: string
  c_tokens_in :: int
  c_tokens_out :: int

record Usage =
  u_tokens_in :: int
  u_tokens_out :: int
  u_finish_reason :: string

datatype StreamEvent = Text string | UsageEvent Usage

section \<open>Facts on identifiers and enumerations\<close>

lemma length_uuid_str [simp]: "length (uuid_str u) = 36"
  by (simp add: uuid_str_def Let_def)

lemma uuid_str_no_colon: "CHR '':'' \<notin> set (uuid_str u)"
  using hex_fixed_no_colon [of 32 "unat u"]
  by (auto simp: uuid_str_def Let_def dest: in_set_takeD in_set_dropD)

lemma hex_groups:
  assumes "take 8 g @ x @ take 4 (drop 8 g) @ x @ take 4 (drop 12 g) @ x @ take 4 (drop 16 g) @ x @ drop 20 g =
           take 8 h @ x @ take 4 (drop 8 h) @ x @ take 4 (drop 12 h) @ x @ take 4 (drop 16 h) @ x @ drop 20 h"
    and "length g = 32" and "length h = 32"
  shows "g = h"
proof -
  have parts: "take 8 g = take 8 h" "take 4 (drop 8 g) = take 4 (drop 8 h)"
    "take 4 (drop 12 g) = take 4 (drop 12 h)" "take 4 (drop 16 g) = take 4 (drop 16 h)"
    "drop 20 g = drop 20 h"
    using assms by auto
  have split: "\<And>l :: 'a list. l = take 8 l @ take 4 (drop 8 l) @ take 4 (drop 12 l) @ take 4 (drop 16 l) @ drop 20 l"
  proof -
    fix l :: "'a list"
    have "drop 16 l = take 4 (drop 16 l) @ drop 20 l"
      using append_take_drop_id [of 4 "drop 16 l", symmetric] by simp
    moreover have "drop 12 l = take 4 (drop 12 l) @ drop 16 l"
      using append_take_drop_id [of 4 "drop 12 l", symmetric] by simp
    moreover have "drop 8 l = take 4 (drop 8 l) @ drop 12 l"
      using append_take_drop_id [of 4 "drop 8 l", symmetric] by simp
    ultimately show "l = take 8 l @ take 4 (drop 8 l) @ take 4 (drop 12 l) @ take 4 (drop 16 l) @ drop 20 l"
      by (metis append_take_drop_id)
  qed
  show ?thesis by (metis parts split)
qed

lemma uuid_str_inject [simp]: "uuid_str u = uuid_str v \<longleftrightarrow> u = v"
proof
  assume "uuid_str u = uuid_str v"
  then have "hex_fixed 32 (unat u) = hex_fixed 32 (unat v)"
    by (auto simp: uuid_str_def Let_def intro!: hex_groups [of "hex_fixed 32 (unat u)" "''-''"])
  moreover have "unat u < 16 ^ 32" "unat v < 16 ^ 32"
    using unsigned_less [of u, where 'a = nat] unsigned_less [of v, where 'a = nat] by simp_all
  ultimately have "unat u = unat v" by (rule hex_fixed_inject [rotated 2])
  then show "u = v" by (simp add: word_unat_eq_iff)
qed simp

lemma backend_type_of_value [simp]: "backend_type_of (backend_type_value t) = Inr t"
  by (cases t) (simp_all add: backend_type_of_def)

lemma cache_tier_value_inject: "cache_tier_value s = cache_tier_value t \<longleftrightarrow> s = t"
  by (cases s; cases t) simp_all

end
