(* ===== verification/Redis.thy ===== *)
theory Redis
  imports Domain
begin

text \<open>
  The Redis server the gateway talks to. It is not part of the repository, so it is a
  parameter: a record \<open>'r redis_api\<close> of the commands the sources issue, each an action
  on the server's state \<open>'r\<close>. What the sources rely on is the documented behaviour of
  these commands, written as the functions \<open>doc_hget\<close>, \<open>doc_hset\<close>, \<open>\<dots>\<close> on an
  explicit keyspace; the locale \<open>redis_service\<close> says that a server behaves so, through a
  view of its state as a keyspace. The documented commands are themselves such a server
  (\<open>doc_redis\<close>).

  Values of hash fields and list elements are \<open>rtext\<close>: plain text, or the text of a number
  that is read back as that number (the sources write numbers and read them with
  \<open>tonumber\<close> or \<open>float\<close>). A sorted set is kept in the order ZRANGE returns it, by score and
  then by member. A key carries an optional deadline on the server's clock.
\<close>

section \<open>The keyspace\<close>

datatype rtext = Txt string | Num rat

datatype rval =
    RStr string
  | RHash "string \<Rightarrow> rtext option"
  | RList "rtext list"
  | RZset "(rat \<times> string) list"

record keyspace =
  ks_data :: "string \<Rightarrow> (rval \<times> rat option) option"
  ks_now :: rat

definition empty_keyspace :: keyspace where
  "empty_keyspace = \<lparr>ks_data = (\<lambda>_. None), ks_now = 0\<rparr>"

definition wrongtype :: exn where
  "wrongtype = ResponseError ''WRONGTYPE''"

text \<open>Store a value under a key, keeping the key's deadline, as every write but SET does.\<close>

definition ks_put :: "string \<Rightarrow> rval \<Rightarrow> keyspace \<Rightarrow> keyspace" where
  "ks_put k v s =
     s\<lparr>ks_data := (ks_data s)(k \<mapsto> (v, case ks_data s k of None \<Rightarrow> None | Some (_, d) \<Rightarrow> d))\<rparr>"

definition ks_del :: "string \<Rightarrow> keyspace \<Rightarrow> keyspace" where
  "ks_del k s = s\<lparr>ks_data := (ks_data s)(k := None)\<rparr>"

text \<open>Inclusive index ranges, negative indices from the end (LRANGE, LTRIM, ZRANGE).\<close>

definition index_range :: "int \<Rightarrow> int \<Rightarrow> 'a list \<Rightarrow> 'a list" where
  "index_range start stop xs =
     (let n = int (length xs);
          i = (if start < 0 then max 0 (n + start) else start);
          j = (if stop < 0 then n + stop else stop)
      in if j < i then [] else take (nat (j - i + 1)) (drop (nat i) xs))"

definition zset_add :: "rat \<Rightarrow> string \<Rightarrow> (rat \<times> string) list \<Rightarrow> (rat \<times> string) list" where
  "zset_add sc m z = insort (sc, m) (filter (\<lambda>e. snd e \<noteq> m) z)"

section \<open>Documented commands\<close>

definition doc_hget :: "string \<Rightarrow> string \<Rightarrow> (keyspace, rtext option) act" where
  "doc_hget k f s =
     (case ks_data s k of
        None \<Rightarrow> (Inr None, s)
      | Some (RHash h, _) \<Rightarrow> (Inr (h f), s)
      | Some _ \<Rightarrow> (Inl wrongtype, s))"

definition doc_hset :: "string \<Rightarrow> (string \<times> rtext) list \<Rightarrow> (keyspace, unit) act" where
  "doc_hset k fvs s =
     (case ks_data s k of
        None \<Rightarrow> (Inr (), ks_put k (RHash (fold (\<lambda>(f, v) h. h(f \<mapsto> v)) fvs Map.empty)) s)
      | Some (RHash h, _) \<Rightarrow> (Inr (), ks_put k (RHash (fold (\<lambda>(f, v) h. h(f \<mapsto> v)) fvs h)) s)
      | Some _ \<Rightarrow> (Inl wrongtype, s))"

definition doc_get :: "string \<Rightarrow> (keyspace, string option) act" where
  "doc_get k s =
     (case ks_data s k of
        None \<Rightarrow> (Inr None, s)
      | Some (RStr v, _) \<Rightarrow> (Inr (Some v), s)
      | Some _ \<Rightarrow> (Inl wrongtype, s))"

definition doc_set_ex :: "string \<Rightarrow> string \<Rightarrow> int \<Rightarrow> (keyspace, unit) act" where
  "doc_set_ex k v ttl s =
     (if ttl \<le> 0 then (Inl (ResponseError ''invalid expire time''), s)
      else (Inr (), s\<lparr>ks_data := (ks_data s)(k \<mapsto> (RStr v, Some (ks_now s + of_int ttl)))\<rparr>))"

definition doc_lpush :: "string \<Rightarrow> rtext \<Rightarrow> (keyspace, unit) act" where
  "doc_lpush k x s =
     (case ks_data s k of
        None \<Rightarrow> (Inr (), ks_put k (RList [x]) s)
      | Some (RList xs, _) \<Rightarrow> (Inr (), ks_put k (RList (x # xs)) s)
      | Some _ \<Rightarrow> (Inl wrongtype, s))"

definition doc_ltrim :: "string \<Rightarrow> int \<Rightarrow> int \<Rightarrow> (keyspace, unit) act" where
  "doc_ltrim k i j s =
     (case ks_data s k of
        None \<Rightarrow> (Inr (), s)
      | Some (RList xs, _) \<Rightarrow>
          (Inr (), if index_range i j xs = [] then ks_del k s
                   else ks_put k (RList (index_range i j xs)) s)
      | Some _ \<Rightarrow> (Inl wrongtype, s))"

definition doc_lrange :: "string \<Rightarrow> int \<Rightarrow> int \<Rightarrow> (keyspace, rtext list) act" where
  "doc_lrange k i j s =
     (case ks_data s k of
        None \<Rightarrow> (Inr [], s)
      | Some (RList xs, _) \<Rightarrow> (Inr (index_range i j xs), s)
      | Some _ \<Rightarrow> (Inl wrongtype, s))"

definition doc_zadd :: "string \<Rightarrow> rat \<Rightarrow> string \<Rightarrow> (keyspace, unit) act" where
  "doc_zadd k sc m s =
     (case ks_data s k of
        None \<Rightarrow> (Inr (), ks_put k (RZset [(sc, m)]) s)
      | Some (RZset z, _) \<Rightarrow> (Inr (), ks_put k (RZset (zset_add sc m z)) s)
      | Some _ \<Rightarrow> (Inl wrongtype, s))"

text \<open>A sorted set that loses its last member is removed with its key and its deadline.\<close>

definition zset_store :: "string \<Rightarrow> (rat \<times> string) list \<Rightarrow> keyspace \<Rightarrow> keyspace" where
  "zset_store k z s = (if z = [] then ks_del k s else ks_put k (RZset z) s)"

definition doc_zrem :: "string \<Rightarrow> string \<Rightarrow> (keyspace, unit) act" where
  "doc_zrem k m s =
     (case ks_data s k of
        None \<Rightarrow> (Inr (), s)
      | Some (RZset z, _) \<Rightarrow> (Inr (), zset_store k (filter (\<lambda>e. snd e \<noteq> m) z) s)
      | Some _ \<Rightarrow> (Inl wrongtype, s))"

definition doc_zremrangebyscore :: "string \<Rightarrow> rat \<Rightarrow> (keyspace, unit) act" where
  "doc_zremrangebyscore k mx s =
     (case ks_data s k of
        None \<Rightarrow> (Inr (), s)
      | Some (RZset z, _) \<Rightarrow> (Inr (), zset_store k (filter (\<lambda>e. mx < fst e) z) s)
      | Some _ \<Rightarrow> (Inl wrongtype, s))"

definition doc_zrange :: "string \<Rightarrow> int \<Rightarrow> int \<Rightarrow> (keyspace, string list) act" where
  "doc_zrange k i j s =
     (case ks_data s k of
        None \<Rightarrow> (Inr [], s)
      | Some (RZset z, _) \<Rightarrow> (Inr (index_range i j (map snd z)), s)
      | Some _ \<Rightarrow> (Inl wrongtype, s))"

definition doc_expire :: "string \<Rightarrow> int \<Rightarrow> (keyspace, unit) act" where
  "doc_expire k ttl s =
     (case ks_data s k of
        None \<Rightarrow> (Inr (), s)
      | Some (v, _) \<Rightarrow>
          (Inr (), if ttl \<le> 0 then ks_del k s
                   else s\<lparr>ks_data := (ks_data s)(k \<mapsto> (v, Some (ks_now s + of_int ttl)))\<rparr>))"

text \<open>The server's clock reaches \<open>t\<close>: keys whose deadline has passed are gone.\<close>

definition doc_clock :: "rat \<Rightarrow> (keyspace, unit) act" where
  "doc_clock t s =
     (Inr (), s\<lparr>ks_now := t,
        ks_data := (\<lambda>k. case ks_data s k of
                          Some (v, Some d) \<Rightarrow> if d < t then None else Some (v, Some d)
                        | x \<Rightarrow> x)\<rparr>)"

section \<open>The service as a parameter\<close>

record 'r redis_api =
  rd_hget :: "string \<Rightarrow> string \<Rightarrow> ('r, rtext option) act"
  rd_hset :: "string \<Rightarrow> (string \<times> rtext) list \<Rightarrow> ('r, unit) act"
  rd_get :: "string \<Rightarrow> ('r, string option) act"
  rd_set_ex :: "string \<Rightarrow> string \<Rightarrow> int \<Rightarrow> ('r, unit) act"
  rd_lpush :: "string \<Rightarrow> rtext \<Rightarrow> ('r, unit) act"
  rd_ltrim :: "string \<Rightarrow> int \<Rightarrow> int \<Rightarrow> ('r, unit) act"
  rd_lrange :: "string \<Rightarrow> int \<Rightarrow> int \<Rightarrow> ('r, rtext list) act"
  rd_zadd :: "string \<Rightarrow> rat \<Rightarrow> string \<Rightarrow> ('r, unit) act"
  rd_zrem :: "string \<Rightarrow> string \<Rightarrow> ('r, unit) act"
  rd_zremrangebyscore :: "string \<Rightarrow> rat \<Rightarrow> ('r, unit) act"
  rd_zrange :: "string \<Rightarrow> int \<Rightarrow> int \<Rightarrow> ('r, string list) act"
  rd_expire :: "string \<Rightarrow> int \<Rightarrow> ('r, unit) act"
  rd_clock :: "rat \<Rightarrow> ('r, unit) act"

definition doc_redis :: "keyspace redis_api" where
  "doc_redis =
     \<lparr>rd_hget = doc_hget, rd_hset = doc_hset, rd_get = doc_get, rd_set_ex = doc_set_ex,
      rd_lpush = doc_lpush, rd_ltrim = doc_ltrim, rd_lrange = doc_lrange,
      rd_zadd = doc_zadd, rd_zrem = doc_zrem, rd_zremrangebyscore = doc_zremrangebyscore,
      rd_zrange = doc_zrange, rd_expire = doc_expire, rd_clock = doc_clock\<rparr>"

locale redis_service =
  fixes R :: "'r redis_api" and view :: "'r \<Rightarrow> keyspace"
  assumes hget_doc [act_sims]: "act_sim view (rd_hget R k f) (doc_hget k f)"
    and hset_doc [act_sims]: "act_sim view (rd_hset R k fvs) (doc_hset k fvs)"
    and get_doc [act_sims]: "act_sim view (rd_get R k) (doc_get k)"
    and set_ex_doc [act_sims]: "act_sim view (rd_set_ex R k v ttl) (doc_set_ex k v ttl)"
    and lpush_doc [act_sims]: "act_sim view (rd_lpush R k x) (doc_lpush k x)"
    and ltrim_doc [act_sims]: "act_sim view (rd_ltrim R k i j) (doc_ltrim k i j)"
    and lrange_doc [act_sims]: "act_sim view (rd_lrange R k i j) (doc_lrange k i j)"
    and zadd_doc [act_sims]: "act_sim view (rd_zadd R k sc m) (doc_zadd k sc m)"
    and zrem_doc [act_sims]: "act_sim view (rd_zrem R k m) (doc_zrem k m)"
    and zremrange_doc [act_sims]:
      "act_sim view (rd_zremrangebyscore R k mx) (doc_zremrangebyscore k mx)"
    and zrange_doc [act_sims]: "act_sim view (rd_zrange R k i j) (doc_zrange k i j)"
    and expire_doc [act_sims]: "act_sim view (rd_expire R k ttl) (doc_expire k ttl)"
    and clock_doc [act_sims]: "act_sim view (rd_clock R t) (doc_clock t)"

lemma doc_redis_sel [simp]:
  "rd_hget doc_redis = doc_hget" "rd_hset doc_redis = doc_hset" "rd_get doc_redis = doc_get"
  "rd_set_ex doc_redis = doc_set_ex" "rd_lpush doc_redis = doc_lpush"
  "rd_ltrim doc_redis = doc_ltrim" "rd_lrange doc_redis = doc_lrange"
  "rd_zadd doc_redis = doc_zadd" "rd_zrem doc_redis = doc_zrem"
  "rd_zremrangebyscore doc_redis = doc_zremrangebyscore" "rd_zrange doc_redis = doc_zrange"
  "rd_expire doc_redis = doc_expire" "rd_clock doc_redis = doc_clock"
  by (simp_all add: doc_redis_def)

interpretation docr: redis_service doc_redis "\<lambda>s. s"
  by unfold_locales (simp_all add: act_sim_def)

section \<open>Facts on the keyspace\<close>

lemma ks_put_get [simp]:
  "ks_data (ks_put k v s) j =
     (if j = k then Some (v, case ks_data s k of None \<Rightarrow> None | Some (_, d) \<Rightarrow> d) else ks_data s j)"
  "ks_now (ks_put k v s) = ks_now s"
  by (simp_all add: ks_put_def)

lemma ks_del_get [simp]:
  "ks_data (ks_del k s) j = (if j = k then None else ks_data s j)"
  "ks_now (ks_del k s) = ks_now s"
  by (simp_all add: ks_del_def)

lemma index_range_all [simp]: "index_range 0 (-1) xs = xs"
  by (cases xs) (simp_all add: index_range_def Let_def)

lemma index_range_prefix: "0 < n \<Longrightarrow> index_range 0 (n - 1) xs = take (nat n) xs"
  by (simp add: index_range_def Let_def)

lemma zset_add_set: "set (zset_add sc m z) = insert (sc, m) {e \<in> set z. snd e \<noteq> m}"
  by (auto simp: zset_add_def set_insort_key)

lemma zset_add_sorted: "sorted z \<Longrightarrow> sorted (zset_add sc m z)"
  by (simp add: zset_add_def sorted_insort sorted_filter [where f = "\<lambda>x. x", simplified])

lemma zset_add_nonempty [simp]: "zset_add sc m z \<noteq> []"
  using zset_add_set [of sc m z] by auto

lemma zset_add_distinct:
  "distinct (map snd z) \<Longrightarrow> distinct (map snd (zset_add sc m z))"
proof -
  assume d: "distinct (map snd z)"
  have "mset (map snd (zset_add sc m z)) = mset (m # map snd (filter (\<lambda>e. snd e \<noteq> m) z))"
    by (simp add: zset_add_def)
  moreover have "distinct (m # map snd (filter (\<lambda>e. snd e \<noteq> m) z))"
    using d by (auto simp: distinct_map intro: inj_on_subset)
  ultimately show ?thesis by (metis mset_eq_imp_distinct_iff)
qed

text \<open>Commands on one key leave the other keys alone.\<close>

lemmas doc_defs = doc_hget_def doc_hset_def doc_get_def doc_set_ex_def doc_lpush_def
  doc_ltrim_def doc_lrange_def doc_zadd_def doc_zrem_def doc_zremrangebyscore_def
  doc_zrange_def doc_expire_def zset_store_def

definition frames_key :: "string \<Rightarrow> (keyspace, 'a) act \<Rightarrow> bool" where
  "frames_key k m \<longleftrightarrow>
     (\<forall>s. (\<forall>j. j \<noteq> k \<longrightarrow> ks_data (snd (m s)) j = ks_data s j) \<and> ks_now (snd (m s)) = ks_now s)"

named_theorems frames "actions that touch one key only"

lemma frames_keyD:
  assumes "frames_key k m"
  shows "j \<noteq> k \<Longrightarrow> ks_data (snd (m s)) j = ks_data s j" and "ks_now (snd (m s)) = ks_now s"
  using assms by (auto simp: frames_key_def)

lemma frames_doc [frames]:
  "frames_key k (doc_hget k f)" "frames_key k (doc_hset k fvs)" "frames_key k (doc_get k)"
  "frames_key k (doc_set_ex k v ttl)" "frames_key k (doc_lpush k x)"
  "frames_key k (doc_ltrim k i j)" "frames_key k (doc_lrange k i j)"
  "frames_key k (doc_zadd k sc m)" "frames_key k (doc_zrem k m)"
  "frames_key k (doc_zremrangebyscore k mx)" "frames_key k (doc_zrange k i j)"
  "frames_key k (doc_expire k ttl)"
  by (simp_all add: frames_key_def doc_defs split: option.splits rval.splits)

lemma frames_comb [frames]:
  "frames_key k (returnE x)" "frames_key k (raiseE e)" "frames_key k (liftE y)"
  by (simp_all add: frames_key_def)

lemma frames_bind [frames]:
  assumes m: "frames_key k m" and f: "\<And>x. frames_key k (f x)"
  shows "frames_key k (bindE m f)"
  unfolding frames_key_def
proof (rule allI)
  fix s
  obtain r s' where ms: "m s = (r, s')" by (cases "m s")
  have 1: "\<forall>j. j \<noteq> k \<longrightarrow> ks_data s' j = ks_data s j" "ks_now s' = ks_now s"
    using m ms by (auto simp: frames_key_def dest: spec [of _ s])
  show "(\<forall>j. j \<noteq> k \<longrightarrow> ks_data (snd (bindE m f s)) j = ks_data s j) \<and>
        ks_now (snd (bindE m f s)) = ks_now s"
  proof (cases r)
    case (Inl e)
    with ms 1 show ?thesis by simp
  next
    case (Inr x)
    with ms 1 f [of x] show ?thesis by (simp add: frames_key_def)
  qed
qed

lemma frames_if [frames]:
  "frames_key k m \<Longrightarrow> frames_key k n \<Longrightarrow> frames_key k (if b then m else n)"
  by simp

lemma frames_option [frames]:
  "frames_key k m \<Longrightarrow> (\<And>y. frames_key k (n y)) \<Longrightarrow>
     frames_key k (case x of None \<Rightarrow> m | Some y \<Rightarrow> n y)"
  by (cases x) simp_all

end
