(* ===== verification/Persistence.thy ===== *)
theory Persistence
  imports Domain
begin

text \<open>
  The tables of \<^verbatim>\<open>gateway/persistence/models.py\<close> (and of the migration
  \<^verbatim>\<open>versions/0001_baseline.py\<close>, which creates the same schema) and the repositories of
  \<^verbatim>\<open>gateway/persistence/repositories.py\<close>.

  A table is the list of its rows; \<open>insert_\<dots>\<close> checks the column types and the constraints the
  schema declares (integer range, \<open>numeric(p,6)\<close> rounding and range, text without NUL,
  \<open>char(64)\<close>, vector dimension, CHECK, UNIQUE, FOREIGN KEY) and raises without changing the
  table, as a failed flush that is rolled back does. What Postgres leaves open is a parameter:
  \<open>scan\<close>, the order in which an unordered SELECT returns rows; \<open>plan\<close>, the rows an ORDER BY
  distance query yields in its order (an approximate index may skip some); and \<open>cosd\<close>, the
  cosine distance of pgvector, with \<open>None\<close> for NaN. The identifier \<open>u\<close> drawn by \<open>uuid4\<close> and
  the server's \<open>now()\<close> are arguments.
\<close>

section \<open>Rows and tables\<close>

definition EMBEDDING_DIM :: nat where
  "EMBEDDING_DIM = 384"

record ApiKeyModel =
  akm_id :: uuid
  akm_key_hash :: string
  akm_name :: string
  akm_token_budget :: int
  akm_window_seconds :: int
  akm_enabled :: bool
  akm_created_at :: datetime

record BackendModel =
  bm_id :: uuid
  bm_name :: string
  bm_type :: string
  bm_endpoint :: string
  bm_model :: string
  bm_priority :: int
  bm_enabled :: bool
  bm_cost_per_1k_in :: rat
  bm_cost_per_1k_out :: rat
  bm_created_at :: datetime

record CacheEntryModel =
  cem_id :: uuid
  cem_model :: string
  cem_prompt_hash :: string
  cem_embedding :: embedding
  cem_response :: string
  cem_tokens_in :: int
  cem_tokens_out :: int
  cem_created_at :: datetime

record RequestLogModel =
  rlm_id :: uuid
  rlm_api_key_id :: uuid
  rlm_backend_id :: "uuid option"
  rlm_cache_tier :: "string option"
  rlm_model :: string
  rlm_tokens_in :: int
  rlm_tokens_out :: int
  rlm_cost :: rat
  rlm_latency_ms :: int
  rlm_status :: int
  rlm_finish_reason :: "string option"
  rlm_ts :: datetime

record db =
  db_api_key :: "ApiKeyModel list"
  db_backend :: "BackendModel list"
  db_cache_entry :: "CacheEntryModel list"
  db_request_log :: "RequestLogModel list"

definition empty_db :: db where
  "empty_db = \<lparr>db_api_key = [], db_backend = [], db_cache_entry = [], db_request_log = []\<rparr>"

section \<open>Column types\<close>

definition int4_ok :: "int \<Rightarrow> bool" where
  "int4_ok i \<longleftrightarrow> - (2 ^ 31) \<le> i \<and> i < 2 ^ 31"

definition text_ok :: "string \<Rightarrow> bool" where
  "text_ok s \<longleftrightarrow> CHR 0x00 \<notin> set s"

definition char64_ok :: "string \<Rightarrow> bool" where
  "char64_ok s \<longleftrightarrow> text_ok s \<and> length s \<le> 64"

text \<open>\<open>numeric(p,6)\<close>: rounded half away from zero to six places, below \<open>10^(p-6)\<close> in size.\<close>

definition numeric6 :: "rat \<Rightarrow> rat" where
  "numeric6 x = (if x < 0 then - (of_int \<lfloor>- x * 10 ^ 6 + 1 / 2\<rfloor> / 10 ^ 6)
                 else of_int \<lfloor>x * 10 ^ 6 + 1 / 2\<rfloor> / 10 ^ 6)"

definition numeric_ok :: "nat \<Rightarrow> rat \<Rightarrow> bool" where
  "numeric_ok p x \<longleftrightarrow> \<bar>numeric6 x\<bar> < 10 ^ (p - 6)"

section \<open>Inserting rows\<close>

definition insert_api_key :: "ApiKeyModel \<Rightarrow> (db, unit) act" where
  "insert_api_key row d =
     (if \<not> (char64_ok (akm_key_hash row) \<and> text_ok (akm_name row) \<and>
            int4_ok (akm_token_budget row) \<and> int4_ok (akm_window_seconds row))
      then (Inl (DataError ''api_key''), d)
      else if \<not> 0 < akm_token_budget row then (Inl (IntegrityError ''ck_api_key_budget_positive''), d)
      else if \<not> 0 < akm_window_seconds row then (Inl (IntegrityError ''ck_api_key_window_positive''), d)
      else if akm_id row \<in> set (map akm_id (db_api_key d)) then (Inl (IntegrityError ''api_key_pkey''), d)
      else if akm_key_hash row \<in> set (map akm_key_hash (db_api_key d))
      then (Inl (IntegrityError ''api_key_key_hash_key''), d)
      else (Inr (), d\<lparr>db_api_key := db_api_key d @ [row]\<rparr>))"

text \<open>The row as \<^verbatim>\<open>numeric(10,6)\<close> columns store it.\<close>

definition stored_backend :: "BackendModel \<Rightarrow> BackendModel" where
  "stored_backend row =
     row\<lparr>bm_cost_per_1k_in := numeric6 (bm_cost_per_1k_in row),
         bm_cost_per_1k_out := numeric6 (bm_cost_per_1k_out row)\<rparr>"

definition backend_row_ok :: "BackendModel \<Rightarrow> bool" where
  "backend_row_ok row \<longleftrightarrow>
     text_ok (bm_name row) \<and> text_ok (bm_endpoint row) \<and> text_ok (bm_model row) \<and>
     int4_ok (bm_priority row) \<and> numeric_ok 10 (bm_cost_per_1k_in row) \<and>
     numeric_ok 10 (bm_cost_per_1k_out row)"

definition insert_backend :: "BackendModel \<Rightarrow> (db, unit) act" where
  "insert_backend row d =
     (if \<not> backend_row_ok row then (Inl (DataError ''backend''), d)
      else if bm_type row \<notin> {''ollama'', ''hosted''} then (Inl (IntegrityError ''backend_type_check''), d)
      else if bm_id row \<in> set (map bm_id (db_backend d)) then (Inl (IntegrityError ''backend_pkey''), d)
      else if bm_name row \<in> set (map bm_name (db_backend d)) then (Inl (IntegrityError ''backend_name_key''), d)
      else (Inr (), d\<lparr>db_backend := db_backend d @ [stored_backend row]\<rparr>))"

text \<open>Flushing the changed row with the given primary key.\<close>

definition update_backend :: "BackendModel \<Rightarrow> (db, unit) act" where
  "update_backend row d =
     (if \<not> backend_row_ok row then (Inl (DataError ''backend''), d)
      else if bm_type row \<notin> {''ollama'', ''hosted''} then (Inl (IntegrityError ''backend_type_check''), d)
      else (Inr (), d\<lparr>db_backend :=
              map (\<lambda>x. if bm_id x = bm_id row then stored_backend row else x) (db_backend d)\<rparr>))"

definition insert_cache_entry :: "CacheEntryModel \<Rightarrow> (db, unit) act" where
  "insert_cache_entry row d =
     (if length (cem_embedding row) \<noteq> EMBEDDING_DIM then (Inl (ValueError ''expected 384 dimensions''), d)
      else if \<not> (text_ok (cem_model row) \<and> char64_ok (cem_prompt_hash row) \<and> text_ok (cem_response row) \<and>
            int4_ok (cem_tokens_in row) \<and> int4_ok (cem_tokens_out row))
      then (Inl (DataError ''cache_entry''), d)
      else if cem_id row \<in> set (map cem_id (db_cache_entry d)) then (Inl (IntegrityError ''cache_entry_pkey''), d)
      else (Inr (), d\<lparr>db_cache_entry := db_cache_entry d @ [row]\<rparr>))"

definition insert_request_log :: "RequestLogModel \<Rightarrow> (db, unit) act" where
  "insert_request_log row d =
     (if \<not> (text_ok (rlm_model row) \<and> int4_ok (rlm_tokens_in row) \<and> int4_ok (rlm_tokens_out row) \<and>
            numeric_ok 12 (rlm_cost row) \<and> int4_ok (rlm_latency_ms row) \<and> int4_ok (rlm_status row) \<and>
            (\<forall>t \<in> set_option (rlm_finish_reason row). text_ok t) \<and>
            (\<forall>t \<in> set_option (rlm_cache_tier row). text_ok t))
      then (Inl (DataError ''request_log''), d)
      else if \<not> (\<forall>t \<in> set_option (rlm_cache_tier row). t \<in> {''l1'', ''l2''})
      then (Inl (IntegrityError ''ck_log_cache_tier''), d)
      else if rlm_id row \<in> set (map rlm_id (db_request_log d)) then (Inl (IntegrityError ''request_log_pkey''), d)
      else if rlm_api_key_id row \<notin> set (map akm_id (db_api_key d))
      then (Inl (IntegrityError ''request_log_api_key_id_fkey''), d)
      else if \<not> (\<forall>b \<in> set_option (rlm_backend_id row). b \<in> set (map bm_id (db_backend d)))
      then (Inl (IntegrityError ''request_log_backend_id_fkey''), d)
      else (Inr (), d\<lparr>db_request_log := db_request_log d @ [row\<lparr>rlm_cost := numeric6 (rlm_cost row)\<rparr>]\<rparr>))"

section \<open>Repositories\<close>

definition api_key_to_domain :: "ApiKeyModel \<Rightarrow> ApiKey" where
  "api_key_to_domain row =
     \<lparr>ak_id = akm_id row, ak_key_hash = akm_key_hash row, ak_name = akm_name row,
      ak_token_budget = akm_token_budget row, ak_window_seconds = akm_window_seconds row,
      ak_enabled = akm_enabled row, ak_created_at = akm_created_at row\<rparr>"

definition backend_to_domain :: "BackendModel \<Rightarrow> exn + Backend" where
  "backend_to_domain row =
     (case backend_type_of (bm_type row) of
        Inl e \<Rightarrow> Inl e
      | Inr t \<Rightarrow> Inr
          \<lparr>b_id = bm_id row, b_name = bm_name row, b_type = t, b_endpoint = bm_endpoint row,
           b_model = bm_model row, b_priority = bm_priority row, b_enabled = bm_enabled row,
           b_cost_per_1k_in = bm_cost_per_1k_in row, b_cost_per_1k_out = bm_cost_per_1k_out row,
           b_created_at = bm_created_at row\<rparr>)"

fun backends_to_domain :: "BackendModel list \<Rightarrow> exn + Backend list" where
  "backends_to_domain [] = Inr []"
| "backends_to_domain (row # rows) =
     (case backend_to_domain row of
        Inl e \<Rightarrow> Inl e
      | Inr b \<Rightarrow> (case backends_to_domain rows of Inl e \<Rightarrow> Inl e | Inr bs \<Rightarrow> Inr (b # bs)))"

definition get_by_hash :: "string \<Rightarrow> (db, ApiKey option) act" where
  "get_by_hash key_hash d =
     (Inr (map_option api_key_to_domain
             (find (\<lambda>row. akm_key_hash row = key_hash \<and> akm_enabled row) (db_api_key d))), d)"

definition api_key_create ::
  "uuid \<Rightarrow> datetime \<Rightarrow> string \<Rightarrow> string \<Rightarrow> int \<Rightarrow> int \<Rightarrow> (db, ApiKey) act" where
  "api_key_create u ts name key_hash token_budget window_seconds =
     (let row = \<lparr>akm_id = u, akm_key_hash = key_hash, akm_name = name, akm_token_budget = token_budget,
                 akm_window_seconds = window_seconds, akm_enabled = True, akm_created_at = ts\<rparr> in
      bindE (insert_api_key row) (\<lambda>_. returnE (api_key_to_domain row)))"

definition list_enabled_for_model ::
  "(BackendModel list \<Rightarrow> BackendModel list) \<Rightarrow> string \<Rightarrow> (db, Backend list) act" where
  "list_enabled_for_model scan model d =
     (backends_to_domain
        (sort_key bm_priority (filter (\<lambda>row. bm_model row = model \<and> bm_enabled row) (scan (db_backend d)))), d)"

definition list_all :: "(BackendModel list \<Rightarrow> BackendModel list) \<Rightarrow> (db, Backend list) act" where
  "list_all scan d = (backends_to_domain (scan (db_backend d)), d)"

definition upsert ::
  "uuid \<Rightarrow> datetime \<Rightarrow> string \<Rightarrow> BackendType \<Rightarrow> string \<Rightarrow> string \<Rightarrow> int \<Rightarrow> rat \<Rightarrow> rat \<Rightarrow> (db, Backend) act" where
  "upsert u ts name type endpoint model priority cost_in cost_out d =
     (case find (\<lambda>row. bm_name row = name) (db_backend d) of
        Some existing \<Rightarrow>
          (let row = existing\<lparr>bm_type := backend_type_value type, bm_endpoint := endpoint, bm_model := model,
                       bm_priority := priority, bm_cost_per_1k_in := cost_in, bm_cost_per_1k_out := cost_out\<rparr>
           in bindE (update_backend row) (\<lambda>_. liftE (backend_to_domain row)) d)
      | None \<Rightarrow>
          (let row = \<lparr>bm_id = u, bm_name = name, bm_type = backend_type_value type, bm_endpoint = endpoint,
                      bm_model = model, bm_priority = priority, bm_enabled = True,
                      bm_cost_per_1k_in = cost_in, bm_cost_per_1k_out = cost_out, bm_created_at = ts\<rparr>
           in bindE (insert_backend row) (\<lambda>_. liftE (backend_to_domain row)) d))"

text \<open>The similarity of a stored entry, \<open>1 - distance\<close>; \<open>NaN < threshold\<close> is false in Python.\<close>

definition below_threshold :: "rat option \<Rightarrow> rat \<Rightarrow> bool" where
  "below_threshold distance threshold =
     (case distance of None \<Rightarrow> False | Some q \<Rightarrow> 1 - q < threshold)"

definition find_similar ::
  "(embedding \<Rightarrow> CacheEntryModel list \<Rightarrow> CacheEntryModel list) \<Rightarrow> (embedding \<Rightarrow> embedding \<Rightarrow> rat option) \<Rightarrow>
   string \<Rightarrow> embedding \<Rightarrow> rat \<Rightarrow> (db, CacheEntry option) act" where
  "find_similar plan cosd model embedding threshold d =
     (if length embedding \<noteq> EMBEDDING_DIM then (Inl (ValueError ''expected 384 dimensions''), d)
      else case plan embedding (filter (\<lambda>row. cem_model row = model) (db_cache_entry d)) of
        [] \<Rightarrow> (Inr None, d)
      | entry # _ \<Rightarrow>
          if below_threshold (cosd (cem_embedding entry) embedding) threshold then (Inr None, d)
          else (Inr (Some \<lparr>ce_id = cem_id entry, ce_model = cem_model entry,
                           ce_prompt_hash = cem_prompt_hash entry, ce_embedding = cem_embedding entry,
                           ce_response = cem_response entry, ce_tokens_in = cem_tokens_in entry,
                           ce_tokens_out = cem_tokens_out entry, ce_created_at = cem_created_at entry\<rparr>), d))"

definition cache_entry_insert ::
  "uuid \<Rightarrow> datetime \<Rightarrow> string \<Rightarrow> string \<Rightarrow> embedding \<Rightarrow> string \<Rightarrow> int \<Rightarrow> int \<Rightarrow> (db, unit) act" where
  "cache_entry_insert u ts model prompt_hash embedding response tokens_in tokens_out =
     insert_cache_entry
       \<lparr>cem_id = u, cem_model = model, cem_prompt_hash = prompt_hash, cem_embedding = embedding,
        cem_response = response, cem_tokens_in = tokens_in, cem_tokens_out = tokens_out, cem_created_at = ts\<rparr>"

definition request_log_insert ::
  "uuid \<Rightarrow> datetime \<Rightarrow> uuid \<Rightarrow> string \<Rightarrow> int \<Rightarrow> int \<Rightarrow> uuid option \<Rightarrow> string option \<Rightarrow> int \<Rightarrow> int \<Rightarrow> rat \<Rightarrow>
   string option \<Rightarrow> (db, RequestLogEntry) act" where
  "request_log_insert u ts api_key_id model latency_ms status backend_id cache_tier tokens_in tokens_out cost
     finish_reason =
     (let row = \<lparr>rlm_id = u, rlm_api_key_id = api_key_id, rlm_backend_id = backend_id,
                 rlm_cache_tier = cache_tier, rlm_model = model, rlm_tokens_in = tokens_in,
                 rlm_tokens_out = tokens_out, rlm_cost = cost, rlm_latency_ms = latency_ms,
                 rlm_status = status, rlm_finish_reason = finish_reason, rlm_ts = ts\<rparr> in
      bindE (insert_request_log row) (\<lambda>_. returnE
        \<lparr>rl_id = rlm_id row, rl_api_key_id = rlm_api_key_id row, rl_model = rlm_model row,
         rl_tokens_in = rlm_tokens_in row, rl_tokens_out = rlm_tokens_out row, rl_cost = rlm_cost row,
         rl_latency_ms = rlm_latency_ms row, rl_status = rlm_status row, rl_created_at = rlm_ts row,
         rl_backend_id = rlm_backend_id row, rl_cache_tier = rlm_cache_tier row,
         rl_finish_reason = rlm_finish_reason row\<rparr>))"

section \<open>The schema's constraints as an invariant\<close>

definition api_key_row_ok :: "ApiKeyModel \<Rightarrow> bool" where
  "api_key_row_ok row \<longleftrightarrow>
     0 < akm_token_budget row \<and> 0 < akm_window_seconds row \<and>
     akm_token_budget row < 2 ^ 31 \<and> akm_window_seconds row < 2 ^ 31"

definition db_ok :: "db \<Rightarrow> bool" where
  "db_ok d \<longleftrightarrow>
     distinct (map akm_id (db_api_key d)) \<and> distinct (map akm_key_hash (db_api_key d)) \<and>
     (\<forall>row \<in> set (db_api_key d). api_key_row_ok row) \<and>
     distinct (map bm_id (db_backend d)) \<and> distinct (map bm_name (db_backend d)) \<and>
     (\<forall>row \<in> set (db_backend d). bm_type row \<in> {''ollama'', ''hosted''}) \<and>
     distinct (map cem_id (db_cache_entry d)) \<and>
     (\<forall>row \<in> set (db_cache_entry d). length (cem_embedding row) = EMBEDDING_DIM) \<and>
     distinct (map rlm_id (db_request_log d)) \<and>
     (\<forall>row \<in> set (db_request_log d).
        rlm_api_key_id row \<in> set (map akm_id (db_api_key d)) \<and>
        (\<forall>b \<in> set_option (rlm_backend_id row). b \<in> set (map bm_id (db_backend d))) \<and>
        (\<forall>t \<in> set_option (rlm_cache_tier row). t \<in> {''l1'', ''l2''}))"

lemma insert_api_key_ok: "db_ok d \<Longrightarrow> db_ok (snd (insert_api_key row d))"
  by (auto simp: db_ok_def insert_api_key_def api_key_row_ok_def int4_ok_def)

lemma stored_backend_sel [simp]:
  "bm_id (stored_backend row) = bm_id row" "bm_name (stored_backend row) = bm_name row"
  "bm_type (stored_backend row) = bm_type row" "bm_model (stored_backend row) = bm_model row"
  "bm_enabled (stored_backend row) = bm_enabled row" "bm_priority (stored_backend row) = bm_priority row"
  "bm_created_at (stored_backend row) = bm_created_at row"
  by (simp_all add: stored_backend_def)

lemma insert_backend_ok: "db_ok d \<Longrightarrow> db_ok (snd (insert_backend row d))"
  by (auto simp: db_ok_def insert_backend_def)

lemma update_backend_rows:
  assumes "distinct (map bm_id rows)" and "old \<in> set rows"
    and "bm_id row = bm_id old" and "bm_name row = bm_name old"
  shows "map bm_id (map (\<lambda>x. if bm_id x = bm_id row then stored_backend row else x) rows) = map bm_id rows"
    and "map bm_name (map (\<lambda>x. if bm_id x = bm_id row then stored_backend row else x) rows) = map bm_name rows"
  using assms by (auto dest: eq_key_imp_eq_value simp: distinct_map inj_on_def)

lemma db_ok_backends:
  assumes "db_ok d" and "map bm_id rows = map bm_id (db_backend d)"
    and "map bm_name rows = map bm_name (db_backend d)"
    and "\<forall>row \<in> set rows. bm_type row \<in> {''ollama'', ''hosted''}"
  shows "db_ok (d\<lparr>db_backend := rows\<rparr>)"
  using assms by (simp add: db_ok_def del: set_map)

lemma update_backend_ok:
  assumes "db_ok d" and "old \<in> set (db_backend d)" and "bm_id row = bm_id old" and "bm_name row = bm_name old"
  shows "db_ok (snd (update_backend row d))"
proof -
  have "distinct (map bm_id (db_backend d))" using assms(1) by (simp add: db_ok_def)
  note rows = update_backend_rows [OF this assms(2-4)]
  let ?rows = "map (\<lambda>x. if bm_id x = bm_id row then stored_backend row else x) (db_backend d)"
  have "bm_type row \<in> {''ollama'', ''hosted''} \<Longrightarrow> db_ok (d\<lparr>db_backend := ?rows\<rparr>)"
    using assms(1) rows by (intro db_ok_backends) (auto simp: db_ok_def)
  with assms(1) show ?thesis by (simp add: update_backend_def)
qed

lemma insert_cache_entry_ok: "db_ok d \<Longrightarrow> db_ok (snd (insert_cache_entry row d))"
  by (auto simp: db_ok_def insert_cache_entry_def)

lemma insert_request_log_ok: "db_ok d \<Longrightarrow> db_ok (snd (insert_request_log row d))"
  by (auto simp: db_ok_def insert_request_log_def)

lemma snd_bindE_return: "snd (bindE m (\<lambda>_. returnE x) s) = snd (m s)"
  by (auto simp: bindE_def split: prod.splits sum.splits)

lemma snd_bindE_lift: "snd (bindE m (\<lambda>_. liftE x) s) = snd (m s)"
  by (auto simp: bindE_def split: prod.splits sum.splits)

lemma upsert_ok:
  assumes "db_ok d"
  shows "db_ok (snd (upsert u ts name type endpoint model priority cost_in cost_out d))"
proof (cases "find (\<lambda>row. bm_name row = name) (db_backend d)")
  case None
  with assms show ?thesis by (simp add: upsert_def Let_def snd_bindE_lift insert_backend_ok)
next
  case (Some old)
  then have "old \<in> set (db_backend d)" using find_SomeD by fastforce
  with Some assms show ?thesis
    by (auto simp: upsert_def Let_def snd_bindE_lift intro!: update_backend_ok)
qed

lemma backends_to_domain_ok:
  assumes "\<forall>row \<in> set rows. bm_type row \<in> {''ollama'', ''hosted''}"
  shows "\<exists>bs. backends_to_domain rows = Inr bs \<and> map b_id bs = map bm_id rows \<and>
           map b_model bs = map bm_model rows \<and> map b_enabled bs = map bm_enabled rows \<and>
           map b_priority bs = map bm_priority rows \<and> map b_name bs = map bm_name rows"
  using assms
proof (induction rows)
  case Nil
  then show ?case by simp
next
  case (Cons row rows)
  then obtain bs where bs: "backends_to_domain rows = Inr bs" "map b_id bs = map bm_id rows"
    "map b_model bs = map bm_model rows" "map b_enabled bs = map bm_enabled rows"
    "map b_priority bs = map bm_priority rows" "map b_name bs = map bm_name rows"
    by auto
  have "bm_type row = ''ollama'' \<or> bm_type row = ''hosted''" using Cons.prems by simp
  then obtain b where "backend_to_domain row = Inr b" "b_id b = bm_id row" "b_model b = bm_model row"
    "b_enabled b = bm_enabled row" "b_priority b = bm_priority row" "b_name b = bm_name row"
    by (auto simp: backend_to_domain_def backend_type_of_def)
  with bs show ?case by auto
qed

section \<open>Properties\<close>

text \<open>
  Every repository operation keeps the constraints of the schema (unique identifiers, names
  and key hashes, positive budgets and windows, known backend types, vectors of the declared
  dimension, log rows that refer to existing keys and backends and to a known cache tier),
  whether it succeeds or raises.
\<close>

lemma repositories_keep_schema:
  assumes "db_ok d"
  shows "db_ok (snd (api_key_create u ts name key_hash budget window d)) \<and>
         db_ok (snd (get_by_hash key_hash d)) \<and>
         db_ok (snd (upsert u ts name type endpoint model priority cost_in cost_out d)) \<and>
         db_ok (snd (list_all scan d)) \<and> db_ok (snd (list_enabled_for_model scan model d)) \<and>
         db_ok (snd (find_similar plan cosd model e threshold d)) \<and>
         db_ok (snd (cache_entry_insert u ts model p_hash e response tokens_in tokens_out d)) \<and>
         db_ok (snd (request_log_insert u ts key_id model latency status backend_id tier tokens_in tokens_out
                       cost reason d))"
proof -
  have "snd (find_similar plan cosd model e threshold d) = d"
    by (simp add: find_similar_def split: list.splits)
  with assms show ?thesis
    by (simp add: api_key_create_def get_by_hash_def list_all_def list_enabled_for_model_def
        cache_entry_insert_def request_log_insert_def Let_def snd_bindE_return
        insert_api_key_ok upsert_ok insert_cache_entry_ok insert_request_log_ok)
qed

lemma repositories_keep_schema_example:
  "db_ok (snd (api_key_create 1 0 ''k'' ''h'' 100 60 empty_db))"
  using repositories_keep_schema [of empty_db 1 0 "''k''" "''h''" 100 60]
  by (simp add: db_ok_def empty_db_def)

lemma filter_name_update:
  assumes "distinct (map bm_id rows)" and "distinct (map bm_name rows)" and "old \<in> set rows"
    and "bm_id row = bm_id old" and "bm_name row = bm_name old"
  shows "filter (\<lambda>x. bm_name x \<noteq> bm_name old)
           (map (\<lambda>x. if bm_id x = bm_id row then row else x) rows) = filter (\<lambda>x. bm_name x \<noteq> bm_name old) rows"
    and "filter (\<lambda>x. bm_name x = bm_name old)
           (map (\<lambda>x. if bm_id x = bm_id row then row else x) rows) = [row]"
proof -
  obtain xs ys where rows: "rows = xs @ old # ys" using assms(3) by (meson split_list)
  have "bm_id old \<notin> bm_id ` (set xs \<union> set ys)" "bm_name old \<notin> bm_name ` (set xs \<union> set ys)"
    using assms(1,2) by (simp_all add: rows image_Un)
  then have other: "\<forall>x \<in> set xs \<union> set ys. bm_id x \<noteq> bm_id old \<and> bm_name x \<noteq> bm_name old"
    by (metis image_eqI)
  then have same: "map (\<lambda>x. if bm_id x = bm_id old then row else x) xs = xs"
    "map (\<lambda>x. if bm_id x = bm_id old then row else x) ys = ys"
    by (auto intro: map_idI)
  show "filter (\<lambda>x. bm_name x \<noteq> bm_name old)
      (map (\<lambda>x. if bm_id x = bm_id row then row else x) rows) = filter (\<lambda>x. bm_name x \<noteq> bm_name old) rows"
    using assms(4,5) by (simp add: rows same)
  show "filter (\<lambda>x. bm_name x = bm_name old) (map (\<lambda>x. if bm_id x = bm_id row then row else x) rows) = [row]"
    using assms(4,5) other by (simp add: rows same filter_empty_conv)
qed

lemma upsert_success:
  assumes "db_ok d" and "upsert u ts name type endpoint model priority cost_in cost_out d = (Inr b, d')"
  shows "filter (\<lambda>x. bm_name x \<noteq> name) (db_backend d') = filter (\<lambda>x. bm_name x \<noteq> name) (db_backend d) \<and>
         (\<exists>row. filter (\<lambda>x. bm_name x = name) (db_backend d') = [row] \<and>
            bm_id row = b_id b \<and> bm_type row = backend_type_value type \<and> bm_endpoint row = endpoint \<and>
            bm_model row = model \<and> bm_priority row = priority \<and>
            bm_cost_per_1k_in row = numeric6 cost_in \<and> bm_cost_per_1k_out row = numeric6 cost_out \<and>
            (case find (\<lambda>x. bm_name x = name) (db_backend d) of
               None \<Rightarrow> bm_id row = u \<and> bm_enabled row
             | Some old \<Rightarrow> bm_id row = bm_id old \<and> bm_enabled row = bm_enabled old \<and>
                           bm_created_at row = bm_created_at old))"
proof (cases "find (\<lambda>x. bm_name x = name) (db_backend d)")
  case None
  then have "filter (\<lambda>x. bm_name x = name) (db_backend d) = []"
    by (simp add: find_None_iff filter_empty_conv)
  with None assms(2) show ?thesis
    by (auto simp: upsert_def Let_def bindE_eq_Inr insert_backend_def backend_to_domain_def stored_backend_def
        split: if_splits)
next
  case (Some old)
  let ?row = "old\<lparr>bm_type := backend_type_value type, bm_endpoint := endpoint, bm_model := model,
    bm_priority := priority, bm_cost_per_1k_in := cost_in, bm_cost_per_1k_out := cost_out\<rparr>"
  have old: "old \<in> set (db_backend d)" "bm_name old = name" using find_SomeD [OF Some] by auto
  have d': "db_backend d' = map (\<lambda>x. if bm_id x = bm_id (stored_backend ?row) then stored_backend ?row else x) (db_backend d)"
    and b: "b_id b = bm_id old"
    using assms(2) Some
    by (auto simp: upsert_def Let_def bindE_eq_Inr update_backend_def backend_to_domain_def split: if_splits)
  have "distinct (map bm_id (db_backend d))" "distinct (map bm_name (db_backend d))"
    using assms(1) by (simp_all add: db_ok_def)
  note upd = filter_name_update [OF this old(1), of "stored_backend ?row", simplified]
  show ?thesis
    unfolding d' using upd old(2) b Some by (simp add: stored_backend_def)
qed

text \<open>
  C31. \<open>upsert\<close> creates or updates exactly the backend of the given name: afterwards one row has
  the name and it carries the given type, endpoint, model and priority with the costs rounded to
  six places; an existing backend keeps its identifier, its enabled flag and its creation time;
  rows of other names are untouched.
\<close>

theorem upsert_writes_one_row:
  assumes "db_ok d" and "upsert u ts name type endpoint model priority cost_in cost_out d = (Inr b, d')"
  shows "filter (\<lambda>x. bm_name x \<noteq> name) (db_backend d') = filter (\<lambda>x. bm_name x \<noteq> name) (db_backend d) \<and>
         (\<exists>row. filter (\<lambda>x. bm_name x = name) (db_backend d') = [row] \<and>
            bm_id row = b_id b \<and> bm_type row = backend_type_value type \<and> bm_endpoint row = endpoint \<and>
            bm_model row = model \<and> bm_priority row = priority \<and>
            bm_cost_per_1k_in row = numeric6 cost_in \<and> bm_cost_per_1k_out row = numeric6 cost_out \<and>
            (case find (\<lambda>x. bm_name x = name) (db_backend d) of
               None \<Rightarrow> bm_id row = u \<and> bm_enabled row
             | Some old \<Rightarrow> bm_id row = bm_id old \<and> bm_enabled row = bm_enabled old \<and>
                           bm_created_at row = bm_created_at old))"
  by (rule upsert_success [OF assms])

theorem upsert_writes_one_row_witness:
  "\<exists>b d'. upsert 7 0 ''n'' OLLAMA ''e'' ''m'' 100 0 0 empty_db = (Inr b, d') \<and>
          (\<exists>row. filter (\<lambda>x. bm_name x = ''n'') (db_backend d') = [row] \<and> bm_id row = 7)"
proof -
  have "\<exists>b d'. upsert 7 0 ''n'' OLLAMA ''e'' ''m'' 100 0 0 empty_db = (Inr b, d')"
    by (simp add: upsert_def Let_def insert_backend_def backend_row_ok_def text_ok_def int4_ok_def
        numeric_ok_def numeric6_def empty_db_def backend_to_domain_def backend_type_of_def bindE_def)
  then obtain b d' where u: "upsert 7 0 ''n'' OLLAMA ''e'' ''m'' 100 0 0 empty_db = (Inr b, d')" by blast
  have "db_ok empty_db" by (simp add: db_ok_def empty_db_def)
  from upsert_writes_one_row [OF this u] u show ?thesis by (auto simp: empty_db_def)
qed

end
