(* ===== verification/Node.thy ===== *)
theory Node
  imports Redis Persistence
begin

text \<open>
  One gateway process and what surrounds it. \<open>'r node\<close> is the mutable state the request path
  reads and writes: the Redis server, the Postgres tables and the lazily resolved embedding
  service of the semantic cache. \<open>'r services\<close> bundles what is not code of the repository, as
  parameters: the Redis commands, the readings of the clocks, the identifiers \<open>uuid4\<close> draws,
  the hash function, the embedding factory and what Postgres leaves open. Each reading of such a
  source takes the next position of \<open>nd_ticks\<close>, so two readings are unrelated unless a theorem
  says how they are related. Before each exchange with Redis the server's clock moves to its
  own reading, which expires keys.
\<close>

section \<open>State and parameters\<close>

type_synonym embedder = "string list \<Rightarrow> exn + embedding list"

record 'r node =
  nd_redis :: 'r
  nd_db :: db
  nd_ticks :: nat
  nd_embeddings :: "embedder option"
  nd_embeddings_resolved :: bool

record 'r services =
  sv_redis :: "'r redis_api"
  sv_server_clock :: "nat \<Rightarrow> rat"
  sv_time :: "nat \<Rightarrow> rat"
  sv_perf_counter :: "nat \<Rightarrow> rat"
  sv_db_now :: "nat \<Rightarrow> datetime"
  sv_uuid4 :: "nat \<Rightarrow> uuid"
  sv_sha256_hex :: "string \<Rightarrow> string"
  sv_embedder :: "nat \<Rightarrow> exn + embedder"
  sv_scan :: "BackendModel list \<Rightarrow> BackendModel list"
  sv_plan :: "embedding \<Rightarrow> CacheEntryModel list \<Rightarrow> CacheEntryModel list"
  sv_cosine_distance :: "embedding \<Rightarrow> embedding \<Rightarrow> rat option"

section \<open>Primitive actions\<close>

definition tick :: "(('r, 'z) node_scheme, nat) act" where
  "tick w = (Inr (nd_ticks w), w\<lparr>nd_ticks := Suc (nd_ticks w)\<rparr>)"

definition reading :: "(nat \<Rightarrow> 'a) \<Rightarrow> (('r, 'z) node_scheme, 'a) act" where
  "reading source = bindE tick (\<lambda>n. returnE (source n))"

definition on_redis :: "('r, 'a) act \<Rightarrow> (('r, 'z) node_scheme, 'a) act" where
  "on_redis m w = (case m (nd_redis w) of (x, r) \<Rightarrow> (x, w\<lparr>nd_redis := r\<rparr>))"

definition on_db :: "(db, 'a) act \<Rightarrow> (('r, 'z) node_scheme, 'a) act" where
  "on_db m w = (case m (nd_db w) of (x, d) \<Rightarrow> (x, w\<lparr>nd_db := d\<rparr>))"

text \<open>One exchange with the Redis server, at the time its clock shows then.\<close>

definition redis_call ::
  "('r, 's) services_scheme \<Rightarrow> ('r, 'a) act \<Rightarrow> (('r, 'z) node_scheme, 'a) act" where
  "redis_call S m =
     bindE (reading (sv_server_clock S)) (\<lambda>t.
     bindE (on_redis (rd_clock (sv_redis S) t)) (\<lambda>_. on_redis m))"

definition state_read :: "('w \<Rightarrow> 'a) \<Rightarrow> ('w, 'a) act" where
  "state_read f w = (Inr (f w), w)"

definition state_write :: "('w \<Rightarrow> 'w) \<Rightarrow> ('w, unit) act" where
  "state_write f w = (Inr (), f w)"

section \<open>Simulation of a node by one with the documented Redis\<close>

definition node_view :: "('r \<Rightarrow> keyspace) \<Rightarrow> ('r, 'z) node_scheme \<Rightarrow> (keyspace, 'z) node_scheme" where
  "node_view v w =
     \<lparr>nd_redis = v (nd_redis w), nd_db = nd_db w, nd_ticks = nd_ticks w,
      nd_embeddings = nd_embeddings w, nd_embeddings_resolved = nd_embeddings_resolved w,
      \<dots> = node.more w\<rparr>"

definition doc_services :: "('r, 's) services_scheme \<Rightarrow> (keyspace, 's) services_scheme" where
  "doc_services S =
     \<lparr>sv_redis = doc_redis, sv_server_clock = sv_server_clock S, sv_time = sv_time S,
      sv_perf_counter = sv_perf_counter S, sv_db_now = sv_db_now S, sv_uuid4 = sv_uuid4 S,
      sv_sha256_hex = sv_sha256_hex S, sv_embedder = sv_embedder S, sv_scan = sv_scan S,
      sv_plan = sv_plan S, sv_cosine_distance = sv_cosine_distance S, \<dots> = services.more S\<rparr>"

lemma doc_services_sel [simp]:
  "sv_redis (doc_services S) = doc_redis" "sv_server_clock (doc_services S) = sv_server_clock S"
  "sv_time (doc_services S) = sv_time S" "sv_perf_counter (doc_services S) = sv_perf_counter S"
  "sv_db_now (doc_services S) = sv_db_now S" "sv_uuid4 (doc_services S) = sv_uuid4 S"
  "sv_sha256_hex (doc_services S) = sv_sha256_hex S" "sv_embedder (doc_services S) = sv_embedder S"
  "sv_scan (doc_services S) = sv_scan S" "sv_plan (doc_services S) = sv_plan S"
  "sv_cosine_distance (doc_services S) = sv_cosine_distance S"
  by (simp_all add: doc_services_def)

lemma node_view_sel [simp]:
  "nd_redis (node_view v w) = v (nd_redis w)" "nd_db (node_view v w) = nd_db w"
  "nd_ticks (node_view v w) = nd_ticks w" "nd_embeddings (node_view v w) = nd_embeddings w"
  "nd_embeddings_resolved (node_view v w) = nd_embeddings_resolved w"
  by (simp_all add: node_view_def)

lemma node_view_upd [simp]:
  "node_view v (w\<lparr>nd_redis := r\<rparr>) = (node_view v w)\<lparr>nd_redis := v r\<rparr>"
  "node_view v (w\<lparr>nd_db := d\<rparr>) = (node_view v w)\<lparr>nd_db := d\<rparr>"
  "node_view v (w\<lparr>nd_ticks := n\<rparr>) = (node_view v w)\<lparr>nd_ticks := n\<rparr>"
  "node_view v (w\<lparr>nd_embeddings := e\<rparr>) = (node_view v w)\<lparr>nd_embeddings := e\<rparr>"
  "node_view v (w\<lparr>nd_embeddings_resolved := b\<rparr>) = (node_view v w)\<lparr>nd_embeddings_resolved := b\<rparr>"
  by (simp_all add: node_view_def)

lemma node_view_id [simp]: "node_view (\<lambda>s. s) w = w"
  by (simp add: node_view_def)

lemma tick_sim [act_sims]: "act_sim (node_view v) tick tick"
  by (simp add: act_sim_def tick_def)

lemma reading_sim [act_sims]: "act_sim (node_view v) (reading f) (reading f)"
  unfolding reading_def by (intro act_sims)

lemma on_db_sim [act_sims]: "act_sim (node_view v) (on_db m) (on_db m)"
  by (simp add: act_sim_def on_db_def split: prod.splits)

lemma on_redis_sim [act_sims]: "act_sim v m n \<Longrightarrow> act_sim (node_view v) (on_redis m) (on_redis n)"
  by (auto simp: act_sim_def on_redis_def split: prod.splits) (metis fst_conv snd_conv)+

lemma state_read_sim:
  "(\<And>w. f w = g (node_view v w)) \<Longrightarrow> act_sim (node_view v) (state_read f) (state_read g)"
  by (simp add: act_sim_def state_read_def)

lemma state_write_sim:
  "(\<And>w. node_view v (f w) = g (node_view v w)) \<Longrightarrow> act_sim (node_view v) (state_write f) (state_write g)"
  by (simp add: act_sim_def state_write_def)

locale redis_node = redis_service "sv_redis S" view
  for S :: "('r, 's) services_scheme" and view :: "'r \<Rightarrow> keyspace"
begin

lemma redis_call_sim [act_sims]:
  "act_sim view m n \<Longrightarrow> act_sim (node_view view) (redis_call S m) (redis_call (doc_services S) n)"
  unfolding redis_call_def doc_services_sel doc_redis_sel by (intro act_sims)

end

section \<open>What the primitives do\<close>

lemma state_read_apply [simp]: "state_read f w = (Inr (f w), w)"
  by (simp add: state_read_def)

lemma state_write_apply [simp]: "state_write f w = (Inr (), f w)"
  by (simp add: state_write_def)

lemma reading_apply [simp]:
  "reading f w = (Inr (f (nd_ticks w)), w\<lparr>nd_ticks := Suc (nd_ticks w)\<rparr>)"
  by (simp add: reading_def tick_def bindE_def)

text \<open>The keyspace as the next exchange with the server finds it.\<close>

definition keyspace_at :: "rat \<Rightarrow> keyspace \<Rightarrow> keyspace" where
  "keyspace_at t s = snd (doc_clock t s)"

lemma redis_call_doc:
  assumes "sv_redis S = doc_redis"
  shows "redis_call S m w =
    (case m (keyspace_at (sv_server_clock S (nd_ticks w)) (nd_redis w)) of
       (x, r) \<Rightarrow> (x, w\<lparr>nd_ticks := Suc (nd_ticks w), nd_redis := r\<rparr>))"
  using assms
  by (simp add: redis_call_def bindE_def on_redis_def keyspace_at_def doc_clock_def split: prod.splits)

section \<open>Actions that keep a part of the state\<close>

definition keeps :: "('w \<Rightarrow> 'x) \<Rightarrow> ('w, 'a) act \<Rightarrow> bool" where
  "keeps f m \<longleftrightarrow> (\<forall>w. f (snd (m w)) = f w)"

named_theorems keeps_rules "actions that keep a part of the state"

lemma keepsD: "keeps f m \<Longrightarrow> m w = (x, w') \<Longrightarrow> f w' = f w"
  by (metis keeps_def snd_conv)

lemma keeps_comb [keeps_rules]:
  "keeps f (returnE x)" "keeps f (raiseE e)" "keeps f (liftE y)" "keeps f (state_read g)"
  by (simp_all add: keeps_def)

lemma keeps_bind [keeps_rules]:
  "keeps f m \<Longrightarrow> (\<And>x. keeps f (k x)) \<Longrightarrow> keeps f (bindE m k)"
  unfolding keeps_def bindE_def by (auto split: prod.splits sum.splits) (metis snd_conv)+

lemma keeps_if [keeps_rules]: "keeps f m \<Longrightarrow> keeps f n \<Longrightarrow> keeps f (if b then m else n)"
  by simp

lemma keeps_option [keeps_rules]:
  "keeps f m \<Longrightarrow> (\<And>y. keeps f (n y)) \<Longrightarrow> keeps f (case x of None \<Rightarrow> m | Some y \<Rightarrow> n y)"
  by (cases x) simp_all

lemma keeps_write [keeps_rules]: "(\<And>w. f (g w) = f w) \<Longrightarrow> keeps f (state_write g)"
  by (simp add: keeps_def)

lemma keeps_reading [keeps_rules]:
  "(\<And>w n. f (w\<lparr>nd_ticks := n\<rparr>) = f w) \<Longrightarrow> keeps f (reading source)"
  by (simp add: keeps_def)

lemma keeps_on_db [keeps_rules]:
  "(\<And>w d. f (w\<lparr>nd_db := d\<rparr>) = f w) \<Longrightarrow> keeps f (on_db m)"
  by (simp add: keeps_def on_db_def split: prod.splits)

lemma keeps_on_redis [keeps_rules]:
  "(\<And>w r. f (w\<lparr>nd_redis := r\<rparr>) = f w) \<Longrightarrow> keeps f (on_redis m)"
  by (simp add: keeps_def on_redis_def split: prod.splits)

lemma keeps_redis_call [keeps_rules]:
  "(\<And>w r. f (w\<lparr>nd_redis := r\<rparr>) = f w) \<Longrightarrow> (\<And>w n. f (w\<lparr>nd_ticks := n\<rparr>) = f w) \<Longrightarrow>
     keeps f (redis_call S m)"
  unfolding redis_call_def by (intro keeps_rules) auto

lemma keeps_on_db_part:
  "(\<And>d. g (snd (m d)) = g d) \<Longrightarrow> (\<And>w d. f (w\<lparr>nd_db := d\<rparr>) = g d) \<Longrightarrow> (\<And>w. f w = g (nd_db w)) \<Longrightarrow>
     keeps f (on_db m)"
  by (auto simp: keeps_def on_db_def split: prod.splits) (metis snd_conv)

section \<open>A concrete environment\<close>

text \<open>
  One choice of the parameters, to run the definitions on: the documented Redis, clocks that
  advance ten milliseconds a reading, fresh identifiers, a checksum in place of the hash, an
  embedding service that embeds the length of a text, and a sequential scan by distance.
\<close>

definition example_distance :: "embedding \<Rightarrow> embedding \<Rightarrow> rat option" where
  "example_distance a b = Some (if a = b then 0 else 1)"

definition example_plan :: "embedding \<Rightarrow> CacheEntryModel list \<Rightarrow> CacheEntryModel list" where
  "example_plan e rows =
     take 1 (filter (\<lambda>row. cem_embedding row = e) rows @ filter (\<lambda>row. cem_embedding row \<noteq> e) rows)"

definition example_embedder :: embedder where
  "example_embedder texts = Inr (map (\<lambda>t. replicate 384 (of_nat (length t))) texts)"

definition example_services_on :: "'r redis_api \<Rightarrow> 's \<Rightarrow> ('r, 's) services_scheme" where
  "example_services_on R ext =
     \<lparr>sv_redis = R, sv_server_clock = (\<lambda>n. of_nat n / 100), sv_time = (\<lambda>n. of_nat n / 100),
      sv_perf_counter = (\<lambda>n. of_nat n / 100), sv_db_now = (\<lambda>n. of_nat n / 100),
      sv_uuid4 = (\<lambda>n. of_nat n), sv_sha256_hex = (\<lambda>cs. hex_fixed 64 (sum_list (map of_char cs))),
      sv_embedder = (\<lambda>_. Inr example_embedder), sv_scan = (\<lambda>rows. rows), sv_plan = example_plan,
      sv_cosine_distance = example_distance, \<dots> = ext\<rparr>"

abbreviation example_services :: "'s \<Rightarrow> (keyspace, 's) services_scheme" where
  "example_services \<equiv> example_services_on doc_redis"

definition example_node_on :: "'r \<Rightarrow> 'z \<Rightarrow> ('r, 'z) node_scheme" where
  "example_node_on r ext =
     \<lparr>nd_redis = r, nd_db = empty_db, nd_ticks = 0, nd_embeddings = None,
      nd_embeddings_resolved = False, \<dots> = ext\<rparr>"

abbreviation example_node :: "'z \<Rightarrow> (keyspace, 'z) node_scheme" where
  "example_node \<equiv> example_node_on empty_keyspace"

lemma example_sel [simp]:
  "sv_redis (example_services_on R x) = R" "sv_server_clock (example_services_on R x) n = of_nat n / 100"
  "sv_plan (example_services_on R x) = example_plan" "sv_cosine_distance (example_services_on R x) = example_distance"
  "sv_embedder (example_services_on R x) = (\<lambda>_. Inr example_embedder)"
  "sv_uuid4 (example_services_on R x) n = of_nat n" "sv_db_now (example_services_on R x) n = of_nat n / 100"
  "nd_redis (example_node_on r z) = r" "nd_db (example_node_on r z) = empty_db"
  "nd_ticks (example_node_on r z) = 0" "nd_embeddings_resolved (example_node_on r z) = False"
  by (simp_all add: example_services_on_def example_node_on_def)

end
