(* ===== verification/Config.thy ===== *)
theory Config
  imports Domain
begin

text \<open>
  \<^verbatim>\<open>gateway/config.py\<close>: the settings of a deployment with their defaults. The administrator's
  key is the one field without a default. (The fields of the base class of the settings, the
  URLs of the stores and the log level, belong to another package.)
\<close>

record GatewaySettings =
  gs_admin_key :: string
  gs_ollama_host :: string
  gs_hosted_api_base :: "string option"
  gs_hosted_api_key :: "string option"
  gs_cache_similarity_threshold :: rat
  gs_cache_ttl_seconds :: int
  gs_breaker_failure_threshold :: int
  gs_breaker_cooldown_seconds :: int
  gs_request_timeout_seconds :: rat
  gs_per_backend_concurrency :: int
  gs_default_policy :: string
  gs_db_pool_size :: int
  gs_db_max_overflow :: int

definition default_settings :: "string \<Rightarrow> GatewaySettings" where
  "default_settings admin_key =
     \<lparr>gs_admin_key = admin_key, gs_ollama_host = ''http://localhost:11434'', gs_hosted_api_base = None,
      gs_hosted_api_key = None, gs_cache_similarity_threshold = 97 / 100, gs_cache_ttl_seconds = 3600,
      gs_breaker_failure_threshold = 5, gs_breaker_cooldown_seconds = 30, gs_request_timeout_seconds = 30,
      gs_per_backend_concurrency = 16, gs_default_policy = ''latency'', gs_db_pool_size = 20,
      gs_db_max_overflow = 30\<rparr>"

end
