(* ===== verification/Registry.thy ===== *)
theory Registry
  imports Node Config "HOL-Library.AList"
begin

text \<open>
  The backend registry, \<^verbatim>\<open>gateway/backends/registry.py\<close>: the pool of live model clients, one for
  each enabled row of the backend table, and the candidate lists by model. A client is an object
  of another package; here it is the arguments it was built with and the number of its
  allocation, which is its identity. \<open>gw_closed\<close> lists the clients whose \<open>aclose\<close> was
  awaited, in order. The dictionary of clients is an association list because \<open>values()\<close> is
  iterated in insertion order.
\<close>

section \<open>State and parameters\<close>

datatype ModelClient =
    OllamaClient string string string
  | HostedClient string string string string

type_synonym live_client = "nat \<times> ModelClient"

record 'r gateway = "'r node" +
  gw_clients :: "(uuid \<times> live_client) list"
  gw_by_model :: "string \<rightharpoonup> Backend list"
  gw_next_client :: nat
  gw_closed :: "nat list"

text \<open>
  What a model client does when it is called: how long it takes and how it ends. A stream
  delivers events at times counted from its start.
\<close>

record 'r gateway_services = "'r services" +
  gv_complete :: "nat \<Rightarrow> live_client \<Rightarrow> ChatMessage list \<Rightarrow> string \<Rightarrow> rat \<times> (exn + Completion)"
  gv_stream :: "nat \<Rightarrow> live_client \<Rightarrow> ChatMessage list \<Rightarrow> string \<Rightarrow> (rat \<times> StreamEvent) list \<times> rat \<times> exn option"
  gv_aclose :: "nat \<Rightarrow> live_client \<Rightarrow> exn + unit"

section \<open>Operations\<close>

definition default_client_factory :: "string \<Rightarrow> string option \<Rightarrow> Backend \<Rightarrow> exn + ModelClient" where
  "default_client_factory ollama_host hosted_api_key backend =
     (case b_type backend of
        OLLAMA \<Rightarrow> Inr (OllamaClient (if b_endpoint backend = [] then ollama_host else b_endpoint backend)
                          (b_model backend) (b_name backend))
      | HOSTED \<Rightarrow>
          (case hosted_api_key of
             None \<Rightarrow> Inl (ConfigError (b_name backend))
           | Some key \<Rightarrow>
               if key = [] then Inl (ConfigError (b_name backend))
               else Inr (HostedClient (b_endpoint backend) key (b_model backend) (b_name backend))))"

text \<open>Calling the factory allocates the client it returns.\<close>

definition make_client ::
  "(Backend \<Rightarrow> exn + ModelClient) \<Rightarrow> Backend \<Rightarrow> (('r, 'z) gateway_scheme, live_client) act" where
  "make_client client_factory backend =
     bindE (liftE (client_factory backend)) (\<lambda>client.
     bindE (state_read gw_next_client) (\<lambda>n.
     bindE (state_write (\<lambda>w. w\<lparr>gw_next_client := Suc n\<rparr>)) (\<lambda>_. returnE (n, client))))"

definition at_model :: "(string \<rightharpoonup> Backend list) \<Rightarrow> string \<Rightarrow> Backend list" where
  "at_model by_model model = (case by_model model of None \<Rightarrow> [] | Some bs \<Rightarrow> bs)"

primrec reload_loop ::
  "(Backend \<Rightarrow> exn + ModelClient) \<Rightarrow> Backend list \<Rightarrow> (uuid \<times> live_client) list \<Rightarrow> (string \<rightharpoonup> Backend list) \<Rightarrow>
   (('r, 'z) gateway_scheme, (uuid \<times> live_client) list \<times> (string \<rightharpoonup> Backend list)) act" where
  "reload_loop client_factory [] new_clients by_model = returnE (new_clients, by_model)"
| "reload_loop client_factory (backend # backends) new_clients by_model =
     (if \<not> b_enabled backend then reload_loop client_factory backends new_clients by_model
      else bindE (make_client client_factory backend) (\<lambda>client.
        reload_loop client_factory backends
          (AList.update (b_id backend) client new_clients)
          (by_model(b_model backend \<mapsto> at_model by_model (b_model backend) @ [backend]))))"

definition client_aclose ::
  "('r, 's) gateway_services_scheme \<Rightarrow> live_client \<Rightarrow> (('r, 'z) gateway_scheme, unit) act" where
  "client_aclose S client =
     bindE (reading (gv_aclose S)) (\<lambda>closing.
     bindE (state_write (\<lambda>w. w\<lparr>gw_closed := gw_closed w @ [fst client]\<rparr>)) (\<lambda>_. liftE (closing client)))"

primrec close_all ::
  "('r, 's) gateway_services_scheme \<Rightarrow> live_client list \<Rightarrow> (('r, 'z) gateway_scheme, unit) act" where
  "close_all S [] = returnE ()"
| "close_all S (client # clients) = bindE (client_aclose S client) (\<lambda>_. close_all S clients)"

definition reload ::
  "('r, 's) gateway_services_scheme \<Rightarrow> (Backend \<Rightarrow> exn + ModelClient) \<Rightarrow> (('r, 'z) gateway_scheme, unit) act" where
  "reload S client_factory =
     bindE (on_db (list_all (sv_scan S))) (\<lambda>backends.
     bindE (state_read (\<lambda>w. map snd (gw_clients w))) (\<lambda>old_clients.
     bindE (reload_loop client_factory backends [] Map.empty) (\<lambda>pool.
     bindE (state_write (\<lambda>w. w\<lparr>gw_clients := fst pool,
                               gw_by_model := (\<lambda>m. map_option (sort_key b_priority) (snd pool m))\<rparr>)) (\<lambda>_.
     close_all S old_clients))))"

primrec with_clients :: "(uuid \<times> live_client) list \<Rightarrow> Backend list \<Rightarrow> exn + (Backend \<times> live_client) list" where
  "with_clients clients [] = Inr []"
| "with_clients clients (b # bs) =
     (case map_of clients (b_id b) of
        None \<Rightarrow> Inl KeyError
      | Some client \<Rightarrow>
          (case with_clients clients bs of Inl e \<Rightarrow> Inl e | Inr rest \<Rightarrow> Inr ((b, client) # rest)))"

definition candidates :: "string \<Rightarrow> (('r, 'z) gateway_scheme, (Backend \<times> live_client) list) act" where
  "candidates model w = (with_clients (gw_clients w) (at_model (gw_by_model w) model), w)"

definition registry_aclose :: "('r, 's) gateway_services_scheme \<Rightarrow> (('r, 'z) gateway_scheme, unit) act" where
  "registry_aclose S =
     bindE (state_read (\<lambda>w. map snd (gw_clients w))) (\<lambda>clients.
     bindE (close_all S clients) (\<lambda>_.
     state_write (\<lambda>w. w\<lparr>gw_clients := [], gw_by_model := Map.empty\<rparr>)))"

section \<open>The invariant of the pool\<close>

text \<open>
  The candidate lists hold enabled backends of their model in priority order, each with a client;
  client objects are distinct, allocated, and none that is live has been closed.
\<close>

definition handles :: "(uuid \<times> live_client) list \<Rightarrow> nat list" where
  "handles clients = map (fst \<circ> snd) clients"

definition registry_ok :: "('r, 'z) gateway_scheme \<Rightarrow> bool" where
  "registry_ok w \<longleftrightarrow>
     (\<forall>m. sorted (map b_priority (at_model (gw_by_model w) m)) \<and>
          (\<forall>b \<in> set (at_model (gw_by_model w) m).
             b_enabled b \<and> b_model b = m \<and> b_id b \<in> set (map fst (gw_clients w)))) \<and>
     distinct (handles (gw_clients w)) \<and>
     (\<forall>k \<in> set (handles (gw_clients w)) \<union> set (gw_closed w). k < gw_next_client w) \<and>
     set (handles (gw_clients w)) \<inter> set (gw_closed w) = {}"

lemma at_model_upd:
  "at_model (f(m \<mapsto> xs)) m' = (if m' = m then xs else at_model f m')"
  by (simp add: at_model_def)

lemma at_model_sort: "at_model (\<lambda>m. map_option (sort_key k) (f m)) m = sort_key k (at_model f m)"
  by (simp add: at_model_def split: option.splits)

lemma handles_update:
  assumes "distinct (handles al)" and "n \<notin> set (handles al)"
  shows "distinct (handles (AList.update k (n, c) al)) \<and>
    set (handles (AList.update k (n, c) al)) \<subseteq> insert n (set (handles al))"
  using assms by (induction al) (auto simp: handles_def)

lemma make_client_eq:
  "make_client F b w =
     (case F b of Inl e \<Rightarrow> (Inl e, w) | Inr c \<Rightarrow> (Inr (gw_next_client w, c), w\<lparr>gw_next_client := Suc (gw_next_client w)\<rparr>))"
  by (simp add: make_client_def bindE_def split: sum.splits)

text \<open>What the loop over the rows builds.\<close>

lemma reload_loop_result:
  assumes "reload_loop F bs al bm w = (Inr (al', bm'), w')"
    and "distinct (handles al)" and "\<forall>k \<in> set (handles al). k < gw_next_client w"
  shows "gw_next_client w \<le> gw_next_client w' \<and> w' = w\<lparr>gw_next_client := gw_next_client w'\<rparr> \<and>
    distinct (handles al') \<and> (\<forall>k \<in> set (handles al'). k < gw_next_client w') \<and>
    set (handles al') \<subseteq> set (handles al) \<union> {gw_next_client w ..< gw_next_client w'} \<and>
    fst ` set al' = fst ` set al \<union> b_id ` set (filter b_enabled bs) \<and>
    (\<forall>m. at_model bm' m = at_model bm m @ filter (\<lambda>b. b_enabled b \<and> b_model b = m) bs) \<and>
    (\<forall>u k c. map_of al' u = Some (k, c) \<longrightarrow> map_of al u = Some (k, c) \<or>
       (\<exists>b \<in> set bs. b_enabled b \<and> b_id b = u \<and> F b = Inr c))"
  using assms
proof (induction bs arbitrary: al bm w)
  case Nil
  then show ?case by auto
next
  case (Cons b bs)
  show ?case
  proof (cases "b_enabled b")
    case False
    with Cons.prems(1) have "reload_loop F bs al bm w = (Inr (al', bm'), w')" by simp
    from Cons.IH [OF this Cons.prems(2,3)] False show ?thesis by simp
  next
    case True
    let ?n = "gw_next_client w"
    obtain c where c: "F b = Inr c"
      and rest: "reload_loop F bs (AList.update (b_id b) (?n, c) al)
          (bm(b_model b \<mapsto> at_model bm (b_model b) @ [b])) (w\<lparr>gw_next_client := Suc ?n\<rparr>) = (Inr (al', bm'), w')"
      using Cons.prems(1) True by (auto simp: bindE_def make_client_eq split: sum.splits)
    have n: "?n \<notin> set (handles al)" using Cons.prems(3) by auto
    note upd = handles_update [OF Cons.prems(2) n, of "b_id b" c]
    have "\<forall>k \<in> set (handles (AList.update (b_id b) (?n, c) al)). k < Suc ?n"
      using upd Cons.prems(3) by (metis insert_iff less_Suc_eq subset_eq)
    with Cons.IH [OF rest] upd have IH: "Suc ?n \<le> gw_next_client w'"
      "w' = w\<lparr>gw_next_client := gw_next_client w'\<rparr>" "distinct (handles al')"
      "\<forall>k \<in> set (handles al'). k < gw_next_client w'"
      "set (handles al') \<subseteq> set (handles (AList.update (b_id b) (?n, c) al)) \<union> {Suc ?n ..< gw_next_client w'}"
      "fst ` set al' = fst ` set (AList.update (b_id b) (?n, c) al) \<union> b_id ` set (filter b_enabled bs)"
      "\<forall>m. at_model bm' m = at_model (bm(b_model b \<mapsto> at_model bm (b_model b) @ [b])) m @
        filter (\<lambda>b. b_enabled b \<and> b_model b = m) bs"
      "\<forall>u k d. map_of al' u = Some (k, d) \<longrightarrow> map_of (AList.update (b_id b) (?n, c) al) u = Some (k, d) \<or>
         (\<exists>b \<in> set bs. b_enabled b \<and> b_id b = u \<and> F b = Inr d)"
      by (simp_all add: fun_upd_def)
    have "set (handles al') \<subseteq> set (handles al) \<union> {?n ..< gw_next_client w'}"
      using IH(1,5) upd by fastforce
    moreover have "fst ` set (AList.update (b_id b) (?n, c) al) = insert (b_id b) (fst ` set al)"
      using dom_map_of_conv_image_fst [of al] dom_map_of_conv_image_fst [of "AList.update (b_id b) (?n, c) al"]
      by (simp add: update_conv')
    moreover have "map_of al u = Some (k, d) \<or> (\<exists>b \<in> set (b # bs). b_enabled b \<and> b_id b = u \<and> F b = Inr d)"
      if "map_of al' u = Some (k, d)" for u k d
      using IH(8) [rule_format, OF that] True c by (auto simp: update_conv' split: if_splits)
    ultimately show ?thesis using IH(1-4,6,7) True by (simp add: at_model_upd)
  qed
qed

lemma reload_loop_state:
  "reload_loop F bs al bm w = (x, w') \<Longrightarrow>
     w' = w\<lparr>gw_next_client := gw_next_client w'\<rparr> \<and> gw_next_client w \<le> gw_next_client w'"
proof (induction bs arbitrary: al bm w)
  case Nil
  then show ?case by simp
next
  case (Cons b bs)
  show ?case
  proof (cases "b_enabled b")
    case False
    with Cons show ?thesis by simp
  next
    case True
    show ?thesis
    proof (cases "F b")
      case (Inl e)
      with Cons.prems True show ?thesis by (auto simp: bindE_def make_client_eq)
    next
      case (Inr c)
      with Cons.prems True Cons.IH [of _ _ "w\<lparr>gw_next_client := Suc (gw_next_client w)\<rparr>"] show ?thesis
        by (fastforce simp: bindE_def make_client_eq)
    qed
  qed
qed

lemma reload_loop_error:
  "reload_loop F bs al bm w = (Inl e, w') \<Longrightarrow> \<exists>b \<in> set bs. b_enabled b \<and> F b = Inl e"
  by (induction bs arbitrary: al bm w)
    (auto simp: bindE_def make_client_eq split: if_splits sum.splits)

lemma reload_loop_raises:
  "\<exists>b \<in> set bs. b_enabled b \<and> (\<exists>e. F b = Inl e) \<Longrightarrow> \<exists>e w'. reload_loop F bs al bm w = (Inl e, w')"
  by (induction bs arbitrary: al bm w)
    (auto simp: bindE_def make_client_eq split: if_splits sum.splits, blast+)

lemma close_all_result:
  "close_all S cs w = (x, w') \<Longrightarrow>
     \<exists>k \<le> length cs. w' = w\<lparr>nd_ticks := nd_ticks w', gw_closed := gw_closed w @ take k (map fst cs)\<rparr> \<and>
       (x = Inr () \<longrightarrow> k = length cs)"
proof (induction cs arbitrary: w)
  case Nil
  then show ?case by simp
next
  case (Cons c cs)
  let ?w = "w\<lparr>nd_ticks := Suc (nd_ticks w), gw_closed := gw_closed w @ [fst c]\<rparr>"
  show ?case
  proof (cases "gv_aclose S (nd_ticks w) c")
    case (Inl e)
    with Cons.prems have "x = Inl e" "w' = ?w" by (simp_all add: client_aclose_def bindE_def)
    then show ?thesis by (intro exI [of _ 1]) simp
  next
    case (Inr u)
    with Cons.prems have "close_all S cs ?w = (x, w')" by (simp add: client_aclose_def bindE_def)
    from Cons.IH [OF this] obtain k where "k \<le> length cs"
      "w' = ?w\<lparr>nd_ticks := nd_ticks w', gw_closed := gw_closed ?w @ take k (map fst cs)\<rparr>"
      "x = Inr () \<longrightarrow> k = length cs" by blast
    then show ?thesis by (intro exI [of _ "Suc k"]) simp
  qed
qed

lemma list_all_apply: "on_db (list_all scan) w = (backends_to_domain (scan (db_backend (nd_db w))), w)"
  by (simp add: on_db_def list_all_def)

lemma backends_to_domain_error: "backends_to_domain rows = Inl e \<Longrightarrow> \<exists>v. e = ValueError v"
  by (induction rows)
    (auto simp: backend_to_domain_def backend_type_of_def split: sum.splits if_splits)

text \<open>The two ways a reload can end: before the pool is exchanged, or after.\<close>

lemma reload_cases:
  assumes "reload S F w = (x, w')"
  obtains (kept) e n where "x = Inl e" "w' = w\<lparr>gw_next_client := n\<rparr>" "gw_next_client w \<le> n"
      "(\<exists>v. e = ValueError v) \<or> (\<exists>b. F b = Inl e)"
  | (exchanged) bs al bm w1 k where
      "backends_to_domain (sv_scan S (db_backend (nd_db w))) = Inr bs"
      "reload_loop F bs [] Map.empty w = (Inr (al, bm), w1)"
      "w' = w1\<lparr>gw_clients := al, gw_by_model := (\<lambda>m. map_option (sort_key b_priority) (bm m)),
              nd_ticks := nd_ticks w', gw_closed := gw_closed w @ take k (handles (gw_clients w))\<rparr>"
      "x = Inr () \<longrightarrow> k = length (gw_clients w)" "gw_clients w = [] \<longrightarrow> x = Inr ()"
proof (cases "backends_to_domain (sv_scan S (db_backend (nd_db w)))")
  case (Inl e)
  with assms have "x = Inl e" "w' = w\<lparr>gw_next_client := gw_next_client w\<rparr>"
    by (simp_all add: reload_def bindE_def list_all_apply)
  then show ?thesis using backends_to_domain_error [OF Inl] by (intro kept) auto
next
  case (Inr bs)
  obtain r w1 where loop: "reload_loop F bs [] Map.empty w = (r, w1)" by fastforce
  note st = reload_loop_state [OF loop]
  show ?thesis
  proof (cases r)
    case (Inl e)
    with assms loop Inr have "x = Inl e" "w' = w1" by (simp_all add: reload_def bindE_def list_all_apply)
    with st reload_loop_error [OF loop [unfolded Inl]] show ?thesis by (metis kept)
  next
    case r: (Inr pool)
    obtain al bm where pool: "pool = (al, bm)" by fastforce
    let ?w = "w1\<lparr>gw_clients := al, gw_by_model := (\<lambda>m. map_option (sort_key b_priority) (bm m))\<rparr>"
    have "close_all S (map snd (gw_clients w)) ?w = (x, w')"
      using assms loop Inr r pool by (simp add: reload_def bindE_def list_all_apply)
    note close = this
    from close_all_result [OF this] obtain k where
      "w' = ?w\<lparr>nd_ticks := nd_ticks w', gw_closed := gw_closed ?w @ take k (map fst (map snd (gw_clients w)))\<rparr>"
      "x = Inr () \<longrightarrow> k = length (gw_clients w)" by auto
    moreover have "gw_closed w1 = gw_closed w"
    proof -
      from st obtain n where "w1 = w\<lparr>gw_next_client := n\<rparr>" by blast
      then show ?thesis by simp
    qed
    moreover have "gw_clients w = [] \<longrightarrow> x = Inr ()" using close by auto
    ultimately show ?thesis
      using exchanged [OF Inr] loop r pool by (simp add: handles_def)
  qed
qed

lemma reload_registry_ok:
  assumes "registry_ok w" and "reload S F w = (x, w')"
  shows "registry_ok w'"
  using assms(2)
proof (cases rule: reload_cases)
  case (kept e n)
  have "\<forall>j \<in> set (handles (gw_clients w)) \<union> set (gw_closed w). j < gw_next_client w"
    using assms(1) by (simp add: registry_ok_def)
  then have "\<forall>j \<in> set (handles (gw_clients w)) \<union> set (gw_closed w). j < n"
    using kept(3) by (meson order_less_le_trans)
  with assms(1) kept(2) show ?thesis by (simp add: registry_ok_def)
next
  case (exchanged bs al bm w1 k)
  have R: "gw_next_client w \<le> gw_next_client w1" "distinct (handles al)" "\<forall>k \<in> set (handles al). k < gw_next_client w1"
    "set (handles al) \<subseteq> {gw_next_client w ..< gw_next_client w1}"
    "fst ` set al = b_id ` set (filter b_enabled bs)"
    "\<And>m. at_model bm m = filter (\<lambda>b. b_enabled b \<and> b_model b = m) bs"
    using reload_loop_result [OF exchanged(2)] by (simp_all add: handles_def at_model_def)
  have closed: "\<forall>j \<in> set (gw_closed w @ take k (handles (gw_clients w))). j < gw_next_client w"
    using assms(1) by (auto simp: registry_ok_def dest: in_set_takeD)
  have sel: "gw_clients w' = al" "gw_next_client w' = gw_next_client w1"
    "gw_closed w' = gw_closed w @ take k (handles (gw_clients w))"
    "\<And>m. at_model (gw_by_model w') m = sort_key b_priority (filter (\<lambda>b. b_enabled b \<and> b_model b = m) bs)"
    by (subst exchanged(3), simp add: at_model_sort R(6))+
  have "set (handles al) \<inter> set (gw_closed w @ take k (handles (gw_clients w))) = {}"
    using R(4) closed by (meson atLeastLessThan_iff disjoint_iff leD subset_eq)
  moreover have "\<forall>j \<in> set (handles al) \<union> set (gw_closed w @ take k (handles (gw_clients w))). j < gw_next_client w1"
    using R(1,3) closed by (metis UnE order_less_le_trans)
  ultimately show ?thesis
    using R(2,5) by (simp add: registry_ok_def sel image_iff) blast
qed

section \<open>What the candidates are\<close>

lemma with_clients_ok:
  "\<forall>b \<in> set bs. b_id b \<in> fst ` set al \<Longrightarrow>
     \<exists>ps. with_clients al bs = Inr ps \<and> map fst ps = bs \<and> (\<forall>(b, c) \<in> set ps. map_of al (b_id b) = Some c)"
proof (induction bs)
  case Nil
  then show ?case by simp
next
  case (Cons b bs)
  then obtain ps where ps: "with_clients al bs = Inr ps" "map fst ps = bs"
    "\<forall>(b, c) \<in> set ps. map_of al (b_id b) = Some c" by auto
  from Cons.prems have "b_id b \<in> dom (map_of al)" by (simp add: dom_map_of_conv_image_fst)
  then obtain c where "map_of al (b_id b) = Some c" by blast
  with ps show ?case by (intro exI [of _ "(b, c) # ps"]) simp
qed

lemma map_of_handles: "map_of al u = Some (k, c) \<Longrightarrow> k \<in> set (handles al)"
  by (force simp: handles_def dest: map_of_SomeD)

lemma candidates_ok:
  assumes "registry_ok w"
  shows "\<exists>ps. candidates m w = (Inr ps, w) \<and> map fst ps = at_model (gw_by_model w) m \<and>
    (\<forall>(b, c) \<in> set ps. map_of (gw_clients w) (b_id b) = Some c \<and> fst c \<notin> set (gw_closed w))"
proof -
  have "\<forall>b \<in> set (at_model (gw_by_model w) m). b_id b \<in> fst ` set (gw_clients w)"
    using assms by (simp add: registry_ok_def)
  from with_clients_ok [OF this] obtain ps where ps: "candidates m w = (Inr ps, w)"
    "map fst ps = at_model (gw_by_model w) m" "\<forall>(b, c) \<in> set ps. map_of (gw_clients w) (b_id b) = Some c"
    by (auto simp: candidates_def)
  moreover have "fst c \<notin> set (gw_closed w)" if "map_of (gw_clients w) u = Some c" for u c
    using assms that map_of_handles [of "gw_clients w" u "fst c" "snd c"] by (auto simp: registry_ok_def)
  ultimately show ?thesis by (intro exI [of _ ps]) auto
qed

lemma registry_aclose_ok:
  assumes "registry_ok w" and "registry_aclose S w = (Inr (), w')"
  shows "registry_ok w' \<and> gw_clients w' = [] \<and> gw_closed w' = gw_closed w @ handles (gw_clients w)"
proof -
  from assms(2) obtain w1 where close: "close_all S (map snd (gw_clients w)) w = (Inr (), w1)"
    and w': "w' = w1\<lparr>gw_clients := [], gw_by_model := Map.empty\<rparr>"
    by (auto simp: registry_aclose_def bindE_eq_Inr)
  from close_all_result [OF close]
  obtain t where "w1 = w\<lparr>nd_ticks := t, gw_closed := gw_closed w @ handles (gw_clients w)\<rparr>"
    by (auto simp: handles_def)
  with assms(1) w' show ?thesis by (auto simp: registry_ok_def at_model_def handles_def)
qed

lemma backends_to_domain_rows:
  "backends_to_domain rows = Inr bs \<Longrightarrow> list_all2 (\<lambda>row b. backend_to_domain row = Inr b) rows bs"
  by (induction rows arbitrary: bs) (auto split: sum.splits)

lemma backend_to_domain_sel:
  "backend_to_domain row = Inr b \<Longrightarrow>
     b_id b = bm_id row \<and> b_model b = bm_model row \<and> b_enabled b = bm_enabled row \<and> b_name b = bm_name row \<and>
     backend_type_of (bm_type row) = Inr (b_type b)"
  by (auto simp: backend_to_domain_def split: sum.splits)

lemma backends_to_domain_set:
  assumes "backends_to_domain rows = Inr bs"
  shows "set bs = {b. \<exists>row \<in> set rows. backend_to_domain row = Inr b} \<and> map b_id bs = map bm_id rows"
  using backends_to_domain_rows [OF assms]
  by (induction rows bs rule: list_all2_induct) (auto dest: backend_to_domain_sel)

lemma default_client_factory_error:
  "default_client_factory host key b = Inl e \<Longrightarrow> e = ConfigError (b_name b)"
  by (cases "b_type b") (auto simp: default_client_factory_def split: option.splits if_splits)

section \<open>Properties\<close>

text \<open>
  The registry keeps its pool consistent: from a consistent state every reload (successful,
  stopped by the factory, or stopped by a client that fails to close) and a completed shutdown
  lead to a consistent state, in which candidates are enabled backends of their model in
  priority order and no live client object has been closed or is shared by two backends.
\<close>

lemma registry_keeps_pool_consistent:
  assumes "registry_ok w"
  shows "registry_ok (snd (reload S F w)) \<and> registry_ok (snd (candidates m w)) \<and>
         (fst (registry_aclose S w) = Inr () \<longrightarrow>
            registry_ok (snd (registry_aclose S w)) \<and>
            gw_closed (snd (registry_aclose S w)) = gw_closed w @ handles (gw_clients w)) \<and>
         (\<exists>ps. candidates m w = (Inr ps, w) \<and> sorted (map (b_priority \<circ> fst) ps) \<and>
            (\<forall>(b, c) \<in> set ps. b_enabled b \<and> b_model b = m \<and> fst c \<notin> set (gw_closed w)))"
proof -
  obtain ps where ps: "candidates m w = (Inr ps, w)" "map fst ps = at_model (gw_by_model w) m"
    "\<forall>(b, c) \<in> set ps. map_of (gw_clients w) (b_id b) = Some c \<and> fst c \<notin> set (gw_closed w)"
    using candidates_ok [OF assms] by blast
  have "sorted (map b_priority (map fst ps))" "\<forall>b \<in> set (map fst ps). b_enabled b \<and> b_model b = m"
    unfolding ps(2) using assms by (simp_all add: registry_ok_def)
  with ps(1,3) have "\<exists>ps. candidates m w = (Inr ps, w) \<and> sorted (map (b_priority \<circ> fst) ps) \<and>
      (\<forall>(b, c) \<in> set ps. b_enabled b \<and> b_model b = m \<and> fst c \<notin> set (gw_closed w))"
    by (intro exI [of _ ps]) (auto simp: comp_def)
  moreover have "registry_ok (snd (reload S F w))"
    using reload_registry_ok [OF assms, of S F] by (metis prod.collapse)
  moreover have "fst (registry_aclose S w) = Inr () \<longrightarrow> registry_ok (snd (registry_aclose S w)) \<and>
      gw_closed (snd (registry_aclose S w)) = gw_closed w @ handles (gw_clients w)"
    using registry_aclose_ok [OF assms, of S "snd (registry_aclose S w)"] by (metis prod.collapse)
  ultimately show ?thesis using assms ps(1) by simp
qed

definition example_row :: "uuid \<Rightarrow> string \<Rightarrow> string \<Rightarrow> int \<Rightarrow> BackendModel" where
  "example_row u name type priority =
     \<lparr>bm_id = u, bm_name = name, bm_type = type, bm_endpoint = ''http://x'', bm_model = ''m'',
      bm_priority = priority, bm_enabled = True, bm_cost_per_1k_in = 1, bm_cost_per_1k_out = 2, bm_created_at = 0\<rparr>"

definition example_calls_on ::
  "'r redis_api \<Rightarrow> 's \<Rightarrow> ('r, 's) gateway_services_scheme" where
  "example_calls_on R ext = example_services_on R
     \<lparr>gv_complete = (\<lambda>_ _ _ _. (1, Inr \<lparr>c_content = ''hello'', c_tokens_in = 3, c_tokens_out = 5\<rparr>)),
      gv_stream = (\<lambda>_ _ _ _. ([(1, Text ''hel''), (2, Text ''lo''),
         (2, UsageEvent \<lparr>u_tokens_in = 3, u_tokens_out = 5, u_finish_reason = ''stop''\<rparr>)], 3, None)),
      gv_aclose = (\<lambda>_ _. Inr ()), \<dots> = ext\<rparr>"

abbreviation example_calls :: "'s \<Rightarrow> (keyspace, 's) gateway_services_scheme" where
  "example_calls \<equiv> example_calls_on doc_redis"

definition example_gateway_on :: "'r \<Rightarrow> BackendModel list \<Rightarrow> 'z \<Rightarrow> ('r, 'z) gateway_scheme" where
  "example_gateway_on r rows ext =
     (example_node_on r \<lparr>gw_clients = [], gw_by_model = Map.empty, gw_next_client = 0, gw_closed = [], \<dots> = ext\<rparr>)
       \<lparr>nd_db := empty_db\<lparr>db_backend := rows\<rparr>\<rparr>"

abbreviation example_gateway :: "BackendModel list \<Rightarrow> 'z \<Rightarrow> (keyspace, 'z) gateway_scheme" where
  "example_gateway \<equiv> example_gateway_on empty_keyspace"

lemma example_gateway_sel [simp]:
  "gw_clients (example_gateway_on r rows z) = []" "gw_by_model (example_gateway_on r rows z) = Map.empty"
  "gw_next_client (example_gateway_on r rows z) = 0" "gw_closed (example_gateway_on r rows z) = []"
  "nd_db (example_gateway_on r rows z) = empty_db\<lparr>db_backend := rows\<rparr>"
  "nd_ticks (example_gateway_on r rows z) = 0" "nd_redis (example_gateway_on r rows z) = r"
  by (simp_all add: example_gateway_on_def example_node_on_def)

lemma example_gateway_ok: "registry_ok (example_gateway_on r rows z)"
  by (simp add: registry_ok_def at_model_def handles_def)

lemma registry_keeps_pool_consistent_example:
  "registry_ok (snd (reload (example_calls ()) (default_client_factory ''h'' None)
     (example_gateway [example_row 1 ''a'' ''ollama'' 10] ())))"
  using registry_keeps_pool_consistent
    [OF example_gateway_ok, of "example_calls ()" "default_client_factory ''h'' None"
      empty_keyspace "[example_row 1 ''a'' ''ollama'' 10]" "()"]
  by simp

lemma reload_success:
  assumes "registry_ok w" and "db_ok (nd_db w)" and "\<And>rows. mset (sv_scan S rows) = mset rows"
    and "reload S F w = (Inr (), w')"
  shows "gw_closed w' = gw_closed w @ handles (gw_clients w) \<and>
    (\<exists>ps. candidates m w' = (Inr ps, w') \<and> sorted (map (b_priority \<circ> fst) ps) \<and>
       distinct (map (b_id \<circ> fst) ps) \<and>
       set (map fst ps) = {b. \<exists>row \<in> set (db_backend (nd_db w)).
          bm_enabled row \<and> bm_model row = m \<and> backend_to_domain row = Inr b} \<and>
       (\<forall>(b, k, c) \<in> set ps. F b = Inr c \<and> k \<notin> set (gw_closed w')))"
  using assms(4)
proof (cases rule: reload_cases)
  case (kept e n)
  then show ?thesis by simp
next
  case (exchanged bs al bm w1 k)
  have R: "\<And>m. at_model bm m = filter (\<lambda>b. b_enabled b \<and> b_model b = m) bs"
    "\<And>u k c. map_of al u = Some (k, c) \<Longrightarrow> \<exists>b \<in> set bs. b_enabled b \<and> b_id b = u \<and> F b = Inr c"
    using reload_loop_result [OF exchanged(2)] by (simp_all add: handles_def at_model_def)
  let ?rows = "sv_scan S (db_backend (nd_db w))" and ?P = "\<lambda>b. b_enabled b \<and> b_model b = m"
  have rows: "set ?rows = set (db_backend (nd_db w))" using assms(3) by (metis set_mset_mset)
  have bs: "set bs = {b. \<exists>row \<in> set (db_backend (nd_db w)). backend_to_domain row = Inr b}"
    "map b_id bs = map bm_id ?rows"
    using backends_to_domain_set [OF exchanged(1)] rows by simp_all
  have "mset (map bm_id ?rows) = mset (map bm_id (db_backend (nd_db w)))" using assms(3) by simp
  then have dist: "distinct (map b_id bs)"
    using assms(2) bs(2) by (metis db_ok_def mset_eq_imp_distinct_iff)
  have sel: "gw_clients w' = al" "gw_closed w' = gw_closed w @ handles (gw_clients w)"
    "at_model (gw_by_model w') m = sort_key b_priority (filter ?P bs)"
    using exchanged(4) by (subst exchanged(3), simp add: at_model_sort R(1) handles_def)+
  obtain ps where ps: "candidates m w' = (Inr ps, w')" "map fst ps = sort_key b_priority (filter ?P bs)"
    "\<forall>(b, c) \<in> set ps. map_of al (b_id b) = Some c \<and> fst c \<notin> set (gw_closed w')"
    using candidates_ok [OF reload_registry_ok [OF assms(1,4)], of m] sel by auto
  have ids: "b = b'" if "b \<in> set bs" "b' \<in> set bs" "b_id b = b_id b'" for b b'
    using dist that by (meson distinct_map inj_onD)
  have built: "F b = Inr c \<and> k \<notin> set (gw_closed w')" if "(b, k, c) \<in> set ps" for b k c
  proof -
    have "b \<in> set (map fst ps)" using that by force
    then have "b \<in> set bs" unfolding ps(2) by simp
    moreover have here: "map_of al (b_id b) = Some (k, c)" "k \<notin> set (gw_closed w')" using ps(3) that by auto
    moreover obtain b' where "b' \<in> set bs" "b_id b' = b_id b" "F b' = Inr c"
      using R(2) [OF here(1)] by auto
    ultimately show ?thesis using ids by blast
  qed
  have "mset (map b_id (map fst ps)) = mset (map b_id (filter ?P bs))" unfolding ps(2) by simp
  then have "distinct (map b_id (map fst ps))"
    using distinct_map_filter [OF dist, of ?P] by (metis mset_eq_imp_distinct_iff)
  moreover have "sorted (map b_priority (map fst ps))" unfolding ps(2) by simp
  moreover have "set (map fst ps) = {b. \<exists>row \<in> set (db_backend (nd_db w)).
      bm_enabled row \<and> bm_model row = m \<and> backend_to_domain row = Inr b}"
    unfolding ps(2) using bs(1) backend_to_domain_sel by auto
  ultimately show ?thesis using ps(1) built sel(2)
    by (intro conjI exI [of _ ps]) (auto simp: comp_def)
qed

text \<open>
  C12. A successful reload publishes the backend table: the candidates of a model are exactly the
  enabled rows of that model, each once, in priority order, each with a client that the factory
  built for it and that is not closed; and every client of the previous pool is closed exactly
  once, also one that a request still holds from an earlier call of \<open>candidates\<close>.
\<close>

theorem reload_publishes_enabled_rows:
  assumes "registry_ok w" and "db_ok (nd_db w)" and "\<And>rows. mset (sv_scan S rows) = mset rows"
    and "reload S F w = (Inr (), w')"
  shows "gw_closed w' = gw_closed w @ handles (gw_clients w) \<and>
    (\<exists>ps. candidates m w' = (Inr ps, w') \<and> sorted (map (b_priority \<circ> fst) ps) \<and>
       distinct (map (b_id \<circ> fst) ps) \<and>
       set (map fst ps) = {b. \<exists>row \<in> set (db_backend (nd_db w)).
          bm_enabled row \<and> bm_model row = m \<and> backend_to_domain row = Inr b} \<and>
       (\<forall>(b, k, c) \<in> set ps. F b = Inr c \<and> k \<notin> set (gw_closed w')))"
  by (rule reload_success [OF assms])

lemma example_calls_sel [simp]:
  "sv_scan (example_calls_on R x) = (\<lambda>rows. rows)" "sv_redis (example_calls_on R x) = R"
  "sv_server_clock (example_calls_on R x) n = of_nat n / 100" "sv_time (example_calls_on R x) n = of_nat n / 100"
  "sv_perf_counter (example_calls_on R x) n = of_nat n / 100" "gv_aclose (example_calls_on R x) n c = Inr ()"
  by (simp_all add: example_calls_on_def example_services_on_def)

lemma example_rows_ok:
  "db_ok (empty_db\<lparr>db_backend := [example_row 1 ''a'' ''ollama'' 20, example_row 2 ''b'' ''hosted'' 10]\<rparr>)"
  by (simp add: db_ok_def empty_db_def example_row_def)

theorem reload_publishes_enabled_rows_witness:
  "\<exists>w' ps. reload (example_calls ()) (default_client_factory ''h'' (Some ''key''))
      (example_gateway [example_row 1 ''a'' ''ollama'' 20, example_row 2 ''b'' ''hosted'' 10] ()) = (Inr (), w') \<and>
    candidates ''m'' w' = (Inr ps, w') \<and> sorted (map (b_priority \<circ> fst) ps)"
proof -
  let ?w = "example_gateway [example_row 1 ''a'' ''ollama'' 20, example_row 2 ''b'' ''hosted'' 10] ()"
  let ?F = "default_client_factory ''h'' (Some ''key'')"
  have "\<exists>w'. reload (example_calls ()) ?F ?w = (Inr (), w')"
    by (simp add: reload_def bindE_def list_all_apply backend_to_domain_def example_row_def
        backend_type_of_def make_client_eq default_client_factory_def)
  then obtain w' where w': "reload (example_calls ()) ?F ?w = (Inr (), w')" by blast
  have "db_ok (nd_db ?w)" using example_rows_ok by simp
  from reload_publishes_enabled_rows [OF example_gateway_ok this _ w', of "''m''"] w' show ?thesis by auto
qed

text \<open>
  C37. A reload that cannot build a client changes nothing: as long as one enabled row is of the
  hosted type and no API key is configured, every reload raises a configuration error, whatever
  the other rows are, the published pool stays as it was and no client is closed.
\<close>

theorem reload_failure_keeps_pool:
  assumes "db_ok (nd_db w)" and "\<And>rows. mset (sv_scan S rows) = mset rows"
    and "row \<in> set (db_backend (nd_db w))" and "bm_enabled row" and "bm_type row = ''hosted''"
  shows "\<exists>name n. reload S (default_client_factory host None) w = (Inl (ConfigError name), w\<lparr>gw_next_client := n\<rparr>)"
proof -
  let ?F = "default_client_factory host None" and ?rows = "sv_scan S (db_backend (nd_db w))"
  have rows: "set ?rows = set (db_backend (nd_db w))" using assms(2) by (metis set_mset_mset)
  then have "\<forall>row \<in> set ?rows. bm_type row \<in> {''ollama'', ''hosted''}"
    using assms(1) by (simp add: db_ok_def)
  from backends_to_domain_ok [OF this] obtain bs where bs: "backends_to_domain ?rows = Inr bs" by blast
  have "\<exists>b. backend_to_domain row = Inr b \<and> b_enabled b \<and> b_type b = HOSTED"
    using assms(4,5) by (simp add: backend_to_domain_def backend_type_of_def)
  then obtain b where "b \<in> set bs" "b_enabled b" "b_type b = HOSTED"
    using backends_to_domain_set [OF bs] rows assms(3) by auto
  then have "\<exists>b \<in> set bs. b_enabled b \<and> (\<exists>e. ?F b = Inl e)" by (force simp: default_client_factory_def)
  from reload_loop_raises [OF this] obtain e w' where
    loop: "reload_loop ?F bs [] Map.empty w = (Inl e, w')" by blast
  from reload_loop_error [OF loop] obtain name where "e = ConfigError name"
    using default_client_factory_error by blast
  with loop bs reload_loop_state [OF loop] show ?thesis
    by (auto simp: reload_def bindE_def list_all_apply)
qed

theorem reload_failure_keeps_pool_witness:
  "\<exists>name n. reload (example_calls ()) (default_client_factory ''h'' None)
      (example_gateway [example_row 1 ''a'' ''ollama'' 20, example_row 2 ''b'' ''hosted'' 10] ()) =
    (Inl (ConfigError name),
     (example_gateway [example_row 1 ''a'' ''ollama'' 20, example_row 2 ''b'' ''hosted'' 10] ())\<lparr>gw_next_client := n\<rparr>)"
  using reload_failure_keeps_pool
    [of "example_gateway [example_row 1 ''a'' ''ollama'' 20, example_row 2 ''b'' ''hosted'' 10] ()"
      "example_calls ()" "example_row 2 ''b'' ''hosted'' 10" "''h''"] example_rows_ok
  by (simp add: example_row_def)

end
