(* ===== verification/Json.thy ===== *)
theory Json
  imports Domain
begin

text \<open>
  The part of Python's \<open>json\<close> module the gateway uses: \<open>json_dumps\<close> with its default
  separators and ASCII escapes, \<open>json_loads\<close> on texts made of strings, integers, null and
  objects (the gateway reads back only what it wrote). Arrays, floats and booleans are not
  produced by the sources and are not read here. \<open>json_loads_dumps\<close> is the round trip the
  exact cache rests on.
\<close>

section \<open>Writing\<close>

datatype json = JStr string | JInt int | JNull | JObj "(string \<times> json) list"

definition json_escape :: "char \<Rightarrow> string" where
  "json_escape c =
     (if c = CHR 0x22 then [CHR 0x5C, CHR 0x22]
      else if c = CHR 0x5C then [CHR 0x5C, CHR 0x5C]
      else if c = CHR 0x0A then [CHR 0x5C, CHR ''n'']
      else if c = CHR 0x0D then [CHR 0x5C, CHR ''r'']
      else if c = CHR 0x09 then [CHR 0x5C, CHR ''t'']
      else if c = CHR 0x0C then [CHR 0x5C, CHR ''f'']
      else if c = CHR 0x08 then [CHR 0x5C, CHR ''b'']
      else if 32 \<le> (of_char c :: nat) \<and> (of_char c :: nat) \<le> 126 then [c]
      else [CHR 0x5C, CHR ''u''] @ hex_fixed 4 (of_char c))"

definition dump_string :: "string \<Rightarrow> string" where
  "dump_string s = CHR 0x22 # concat (map json_escape s) @ [CHR 0x22]"

function (sequential) json_dumps :: "json \<Rightarrow> string"
  and dump_members :: "(string \<times> json) list \<Rightarrow> string" where
  "json_dumps (JStr s) = dump_string s"
| "json_dumps (JInt i) = show_int i"
| "json_dumps JNull = ''null''"
| "json_dumps (JObj kvs) = CHR ''{'' # dump_members kvs @ ''}''"
| "dump_members [] = []"
| "dump_members [(k, v)] = dump_string k @ '': '' @ json_dumps v"
| "dump_members ((k, v) # kv # kvs) = dump_string k @ '': '' @ json_dumps v @ '', '' @ dump_members (kv # kvs)"
  by pat_completeness auto
termination
  by (relation "measure (\<lambda>x. case x of Inl j \<Rightarrow> size j
                                    | Inr kvs \<Rightarrow> size_list (size_prod (\<lambda>_. 0) size) kvs)") auto

section \<open>Reading\<close>

definition hex_value :: "char \<Rightarrow> nat option" where
  "hex_value c =
     (let n = of_char c in
      if 48 \<le> n \<and> n \<le> 57 then Some (n - 48)
      else if 97 \<le> n \<and> n \<le> 102 then Some (n - 87)
      else if 65 \<le> n \<and> n \<le> 70 then Some (n - 55)
      else None)"

definition hex4_value :: "char \<Rightarrow> char \<Rightarrow> char \<Rightarrow> char \<Rightarrow> nat option" where
  "hex4_value a b c d =
     (case (hex_value a, hex_value b, hex_value c, hex_value d) of
        (Some w, Some x, Some y, Some z) \<Rightarrow> Some (4096 * w + 256 * x + 16 * y + z)
      | _ \<Rightarrow> None)"

definition unescape :: "char \<Rightarrow> char option" where
  "unescape e =
     (if e = CHR 0x22 \<or> e = CHR 0x5C \<or> e = CHR ''/'' then Some e
      else if e = CHR ''n'' then Some (CHR 0x0A)
      else if e = CHR ''r'' then Some (CHR 0x0D)
      else if e = CHR ''t'' then Some (CHR 0x09)
      else if e = CHR ''f'' then Some (CHR 0x0C)
      else if e = CHR ''b'' then Some (CHR 0x08)
      else None)"

definition cons_fst :: "'a \<Rightarrow> ('a list \<times> 'b) option \<Rightarrow> ('a list \<times> 'b) option" where
  "cons_fst x r = map_option (\<lambda>(xs, y). (x # xs, y)) r"

text \<open>The scanner of a string, after its opening quote: the text and what follows the closing quote.\<close>

fun scan_string :: "string \<Rightarrow> (string \<times> string) option" where
  "scan_string [] = None"
| "scan_string (c # cs) =
     (if c = CHR 0x22 then Some ([], cs)
      else if c = CHR 0x5C then
        (case cs of
           [] \<Rightarrow> None
         | e # ds \<Rightarrow>
             if e = CHR ''u'' then
               (case ds of
                  w # x # y # z # rest \<Rightarrow>
                    (case hex4_value w x y z of
                       Some n \<Rightarrow> if n < 256 then cons_fst (char_of n) (scan_string rest) else None
                     | None \<Rightarrow> None)
                | _ \<Rightarrow> None)
             else (case unescape e of None \<Rightarrow> None | Some x \<Rightarrow> cons_fst x (scan_string ds)))
      else if (of_char c :: nat) < 32 then None
      else cons_fst c (scan_string cs))"

definition scan_nat :: "string \<Rightarrow> (nat \<times> string) option" where
  "scan_nat cs =
     (let ds = takeWhile is_digit cs; rest = dropWhile is_digit cs in
      if ds = [] then None
      else if hd ds = CHR ''0'' then Some (0, tl cs)
      else Some (read_nat ds, rest))"

definition scan_int :: "string \<Rightarrow> (int \<times> string) option" where
  "scan_int cs =
     (let r = (case cs of
                 c # ds \<Rightarrow> if c = CHR ''-'' then map_option (\<lambda>(n, t). (- int n, t)) (scan_nat ds)
                           else map_option (\<lambda>(n, t). (int n, t)) (scan_nat cs)
               | [] \<Rightarrow> None)
      in case r of
           Some (i, t) \<Rightarrow> if t \<noteq> [] \<and> hd t \<in> {CHR ''.'', CHR ''e'', CHR ''E''} then None else Some (i, t)
         | None \<Rightarrow> None)"

definition skip_ws :: "string \<Rightarrow> string" where
  "skip_ws cs = dropWhile (\<lambda>c. c = CHR '' '' \<or> c = CHR 0x09 \<or> c = CHR 0x0A \<or> c = CHR 0x0D) cs"

fun parse_value :: "nat \<Rightarrow> string \<Rightarrow> (json \<times> string) option"
  and parse_members :: "nat \<Rightarrow> string \<Rightarrow> ((string \<times> json) list \<times> string) option" where
  "parse_value 0 cs = None"
| "parse_value (Suc n) cs =
     (case cs of
        [] \<Rightarrow> None
      | c # ds \<Rightarrow>
          if c = CHR 0x22 then map_option (\<lambda>(s, t). (JStr s, t)) (scan_string ds)
          else if c = CHR ''{'' then
            (case skip_ws ds of
               [] \<Rightarrow> None
             | e # es \<Rightarrow> if e = CHR ''}'' then Some (JObj [], es)
                        else map_option (\<lambda>(kvs, t). (JObj kvs, t)) (parse_members n (e # es)))
          else if take 4 cs = ''null'' then Some (JNull, drop 4 cs)
          else map_option (\<lambda>(i, t). (JInt i, t)) (scan_int cs))"
| "parse_members 0 cs = None"
| "parse_members (Suc n) cs =
     (case cs of
        [] \<Rightarrow> None
      | c # ds \<Rightarrow>
          if c \<noteq> CHR 0x22 then None
          else (case scan_string ds of
                  None \<Rightarrow> None
                | Some (k, t) \<Rightarrow>
                    (case skip_ws t of
                       [] \<Rightarrow> None
                     | e # es \<Rightarrow>
                         if e \<noteq> CHR '':'' then None
                         else (case parse_value n (skip_ws es) of
                                 None \<Rightarrow> None
                               | Some (v, u) \<Rightarrow>
                                   (case skip_ws u of
                                      [] \<Rightarrow> None
                                    | f # fs \<Rightarrow>
                                        if f = CHR ''}'' then Some ([(k, v)], fs)
                                        else if f = CHR '','' then cons_fst (k, v) (parse_members n (skip_ws fs))
                                        else None)))))"

definition json_loads :: "string \<Rightarrow> exn + json" where
  "json_loads cs =
     (case parse_value (Suc (length cs)) (skip_ws cs) of
        Some (j, rest) \<Rightarrow> if skip_ws rest = [] then Inr j else Inl (ValueError ''Extra data'')
      | None \<Rightarrow> Inl (ValueError ''JSONDecodeError''))"

text \<open>Subscripting a decoded object: of repeated keys the last one counts.\<close>

definition json_item :: "json \<Rightarrow> string \<Rightarrow> exn + json" where
  "json_item j k =
     (case j of
        JObj kvs \<Rightarrow> (case map_of (rev kvs) k of None \<Rightarrow> Inl KeyError | Some v \<Rightarrow> Inr v)
      | _ \<Rightarrow> Inl (ValueError ''TypeError''))"

section \<open>The round trip\<close>

lemma hex_value_hex_char [simp]: "d < 16 \<Longrightarrow> hex_value (hex_char d) = Some d"
  by (simp add: hex_value_def Let_def of_char_hex_char)

lemma hex_fixed_4:
  "hex_fixed 4 n = [hex_char (n div 4096 mod 16), hex_char (n div 256 mod 16), hex_char (n div 16 mod 16), hex_char (n mod 16)]"
proof -
  have four: "(4 :: nat) = Suc (Suc (Suc (Suc 0)))" by simp
  have "n div 16 div 16 = n div 256" "n div 16 div 16 div 16 = n div 4096"
    by (simp_all flip: div_mult2_eq)
  then show ?thesis by (simp only: four hex_fixed.simps) simp
qed

lemma hex4_value_hex:
  assumes "(n :: nat) < 256"
  shows "hex4_value (hex_char (n div 4096 mod 16)) (hex_char (n div 256 mod 16))
           (hex_char (n div 16 mod 16)) (hex_char (n mod 16)) = Some n"
proof -
  have "n div 4096 = 0" "n div 256 = 0" "n div 16 < 16" using assms by auto
  then show ?thesis by (simp add: hex4_value_def)
qed

lemma scan_string_escape:
  "scan_string (json_escape c @ cs) = cons_fst c (scan_string cs)"
proof -
  have u: "scan_string ([CHR 0x5C, CHR ''u''] @ hex_fixed 4 (of_char c) @ cs) = cons_fst c (scan_string cs)"
  proof -
    let ?n = "of_char c :: nat"
    have n: "?n < 256" by simp
    show ?thesis using n hex4_value_hex [OF n] by (simp add: hex_fixed_4)
  qed
  have plain: "scan_string ([c] @ cs) = cons_fst c (scan_string cs)"
    if "32 \<le> (of_char c :: nat)" "c \<noteq> CHR 0x22" "c \<noteq> CHR 0x5C"
    using that by simp
  show ?thesis
    using u plain by (auto simp: json_escape_def unescape_def)
qed

lemma scan_string_dump: "scan_string (concat (map json_escape s) @ CHR 0x22 # rest) = Some (s, rest)"
  by (induction s) (simp_all add: scan_string_escape cons_fst_def del: scan_string.simps(2), simp)

lemma show_nat_leading_zero: "hd (show_nat n) = CHR ''0'' \<Longrightarrow> n = 0"
proof (induction n rule: show_nat.induct)
  case (1 n)
  show ?case
  proof (cases "n < 10")
    case True
    with "1.prems" have "digit_char n = CHR ''0''" by (simp add: show_nat.simps [of n])
    then have "digit_val (digit_char n) = digit_val (CHR ''0'')" by simp
    with True show ?thesis by (simp add: digit_char_props) (simp add: digit_val_def)
  next
    case False
    with 1 have "n div 10 = 0" by (simp add: show_nat.simps [of n])
    with False show ?thesis by simp
  qed
qed

definition delimited :: "string \<Rightarrow> bool" where
  "delimited rest \<longleftrightarrow> rest = [] \<or> hd rest = CHR '','' \<or> hd rest = CHR ''}''"

lemma delimited_simps [simp]: "delimited []" "delimited (CHR '','' # cs)" "delimited (CHR ''}'' # cs)"
  by (simp_all add: delimited_def)

lemma scan_nat_show:
  assumes "delimited rest"
  shows "scan_nat (show_nat n @ rest) = Some (n, rest)"
proof -
  have rest: "takeWhile is_digit rest = []" "dropWhile is_digit rest = rest"
    using assms by (cases rest; auto simp: delimited_def is_digit_def)+
  have all: "\<forall>c \<in> set (show_nat n). is_digit c"
    using show_nat_digits [of n] by (simp add: list_all_iff)
  have "takeWhile is_digit (show_nat n @ rest) = show_nat n" "dropWhile is_digit (show_nat n @ rest) = rest"
    using all rest by (simp_all add: takeWhile_append dropWhile_append)
  moreover have "hd (show_nat n) = CHR ''0'' \<Longrightarrow> n = 0 \<and> tl (show_nat n @ rest) = rest"
    using show_nat_leading_zero [of n] by (simp add: show_nat.simps [of 0])
  ultimately show ?thesis by (simp add: scan_nat_def Let_def)
qed

lemma scan_int_show:
  assumes "delimited rest"
  shows "scan_int (show_int i @ rest) = Some (i, rest)"
proof -
  have ok: "\<not> (rest \<noteq> [] \<and> hd rest \<in> {CHR ''.'', CHR ''e'', CHR ''E''})"
    using assms by (auto simp: delimited_def)
  show ?thesis
  proof (cases "i < 0")
    case True
    with ok show ?thesis
      by (simp add: show_int_def scan_int_def Let_def scan_nat_show [OF assms])
  next
    case False
    obtain c cs where c: "show_nat (nat i) = c # cs" by (cases "show_nat (nat i)") auto
    have "c \<noteq> CHR ''-''" using hd_show_nat [of "nat i"] c is_digit_not(2) by auto
    with False ok c scan_nat_show [OF assms, of "nat i"] show ?thesis
      by (auto simp: show_int_def scan_int_def Let_def)
  qed
qed

lemma show_int_head:
  obtains c cs where "show_int i = c # cs" "is_digit c \<or> c = CHR ''-''"
  using show_int_chars [of _ i] by (cases "show_int i") auto

lemma skip_ws_stop [simp]:
  "skip_ws (CHR 0x22 # cs) = CHR 0x22 # cs" "skip_ws (CHR ''{'' # cs) = CHR ''{'' # cs"
  "skip_ws (CHR ''}'' # cs) = CHR ''}'' # cs" "skip_ws (CHR '','' # cs) = CHR '','' # cs"
  "skip_ws (CHR '':'' # cs) = CHR '':'' # cs" "skip_ws (CHR '' '' # cs) = skip_ws cs" "skip_ws [] = []"
  by (simp_all add: skip_ws_def)

lemma skip_ws_dumps: "skip_ws (json_dumps j @ rest) = json_dumps j @ rest"
proof (cases j)
  case (JInt i)
  obtain c cs where "show_int i = c # cs" "is_digit c \<or> c = CHR ''-''" by (rule show_int_head)
  with JInt show ?thesis by (auto simp: skip_ws_def is_digit_def)
qed (simp_all add: dump_string_def skip_ws_def)

lemma json_dumps_nonempty [simp]: "json_dumps j \<noteq> []"
  by (cases j) (simp_all add: dump_string_def)

lemma dump_members_quote: "kvs \<noteq> [] \<Longrightarrow> \<exists>cs. dump_members kvs = CHR 0x22 # cs"
  by (cases kvs rule: dump_members.cases) (auto simp: dump_string_def)

text \<open>Fuel as long as the text is enough to read it back.\<close>

lemma parse_dumps:
  "\<And>f rest. length (json_dumps j) \<le> f \<Longrightarrow> delimited rest \<Longrightarrow>
     parse_value f (json_dumps j @ rest) = Some (j, rest)"
  "\<And>f rest. kvs \<noteq> [] \<Longrightarrow> length (dump_members kvs) \<le> f \<Longrightarrow>
     parse_members f (dump_members kvs @ CHR ''}'' # rest) = Some (kvs, rest)"
proof (induction j and kvs rule: json_dumps_dump_members.induct)
  case (1 s)
  then obtain n where "f = Suc n" by (cases f) (auto simp: dump_string_def)
  then show ?case by (simp add: dump_string_def scan_string_dump)
next
  case (2 i)
  obtain c cs where c: "show_int i = c # cs" "is_digit c \<or> c = CHR ''-''" by (rule show_int_head)
  with 2 obtain n where n: "f = Suc n" by (cases f) auto
  have "c \<noteq> CHR 0x22" "c \<noteq> CHR ''{''" "c \<noteq> CHR ''n''" using c(2) by (auto simp: is_digit_def)
  with c(1) n scan_int_show [OF "2.prems"(2), of i] show ?case by simp
next
  case 3
  then obtain n where "f = Suc n" by (cases f) auto
  then show ?case by simp
next
  case (4 kvs)
  then obtain n where n: "f = Suc n" "length (dump_members kvs) \<le> n" by (cases f) auto
  show ?case
  proof (cases "kvs = []")
    case True
    then show ?thesis by (simp add: n(1))
  next
    case False
    then obtain cs where cs: "dump_members kvs = CHR 0x22 # cs" using dump_members_quote by blast
    with "4.IH" [OF False n(2), of rest] show ?thesis by (simp add: n(1))
  qed
next
  case 5
  then show ?case by simp
next
  case (6 k v)
  then obtain n where n: "f = Suc n" "length (json_dumps v) \<le> n" by (cases f) (auto simp: dump_string_def)
  then show ?case
    using "6.IH" [OF n(2), of "CHR ''}'' # rest"]
    by (simp add: dump_string_def scan_string_dump skip_ws_dumps)
next
  case (7 k v kv kvs)
  then obtain n where n: "f = Suc n" "length (json_dumps v) \<le> n" "length (dump_members (kv # kvs)) \<le> n"
    by (cases f) (auto simp: dump_string_def)
  obtain cs where cs: "dump_members (kv # kvs) = CHR 0x22 # cs" using dump_members_quote by blast
  show ?case
    using "7.IH"(1) [OF n(2), of "CHR '','' # CHR '' '' # dump_members (kv # kvs) @ CHR ''}'' # rest"]
      "7.IH"(2) [OF _ n(3), of rest] cs
    by (simp add: n(1) dump_string_def scan_string_dump skip_ws_dumps cons_fst_def)
qed

lemma json_loads_dumps: "json_loads (json_dumps j) = Inr j"
  using parse_dumps(1) [of j "Suc (length (json_dumps j))" "[]"] skip_ws_dumps [of j "[]"]
  by (simp add: json_loads_def)

end
