(* ===== verification/Cache.thy ===== *)
theory Cache
  imports Node Json
begin

text \<open>
  The two-tier cache: \<^verbatim>\<open>gateway/cache/exact.py\<close> (L1, JSON payloads in Redis),
  \<^verbatim>\<open>gateway/cache/semantic.py\<close> (L2, the nearest stored embedding of the same model, with the
  embedding service resolved lazily and once), \<^verbatim>\<open>gateway/cache/cache.py\<close> (L1 before L2) and
  \<^verbatim>\<open>_build_embeddings\<close> of \<^verbatim>\<open>gateway/main.py\<close>.
\<close>

section \<open>The exact cache\<close>

record TwoTierCache =
  tc_ttl_seconds :: int
  tc_similarity_threshold :: rat

definition l1_key :: "string \<Rightarrow> string \<Rightarrow> string" where
  "l1_key model prompt_hash = ''cache:'' @ model @ '':'' @ prompt_hash"

definition l1_payload :: "string \<Rightarrow> int \<Rightarrow> int \<Rightarrow> json" where
  "l1_payload content tokens_in tokens_out =
     JObj [(''content'', JStr content), (''tokens_in'', JInt tokens_in), (''tokens_out'', JInt tokens_out)]"

definition decode_hit :: "string \<Rightarrow> exn + CacheHit" where
  "decode_hit raw =
     (case json_loads raw of
        Inl e \<Rightarrow> Inl e
      | Inr data \<Rightarrow>
          (case (json_item data ''content'', json_item data ''tokens_in'', json_item data ''tokens_out'') of
             (Inr (JStr c), Inr (JInt i), Inr (JInt j)) \<Rightarrow>
               Inr \<lparr>ch_content = c, ch_tokens_in = i, ch_tokens_out = j, ch_tier = L1\<rparr>
           | (Inl e, _, _) \<Rightarrow> Inl e
           | (_, Inl e, _) \<Rightarrow> Inl e
           | (_, _, Inl e) \<Rightarrow> Inl e
           | _ \<Rightarrow> Inl (ValueError ''payload'')))"

definition exact_get :: "'r redis_api \<Rightarrow> string \<Rightarrow> string \<Rightarrow> ('r, CacheHit option) act" where
  "exact_get R model prompt_hash =
     bindE (rd_get R (l1_key model prompt_hash)) (\<lambda>raw.
       case raw of
         None \<Rightarrow> returnE None
       | Some text \<Rightarrow> bindE (liftE (decode_hit text)) (\<lambda>hit. returnE (Some hit)))"

definition exact_put ::
  "'r redis_api \<Rightarrow> int \<Rightarrow> string \<Rightarrow> string \<Rightarrow> string \<Rightarrow> int \<Rightarrow> int \<Rightarrow> ('r, unit) act" where
  "exact_put R ttl model prompt_hash content tokens_in tokens_out =
     rd_set_ex R (l1_key model prompt_hash) (json_dumps (l1_payload content tokens_in tokens_out)) ttl"

section \<open>The semantic cache\<close>

definition build_embeddings :: "exn + embedder \<Rightarrow> embedder option" where
  "build_embeddings made = (case made of Inl _ \<Rightarrow> None | Inr service \<Rightarrow> Some service)"

definition get_embeddings ::
  "('r, 's) services_scheme \<Rightarrow> (('r, 'z) node_scheme, embedder option) act" where
  "get_embeddings S =
     bindE (state_read nd_embeddings_resolved) (\<lambda>resolved.
     bindE (if resolved then returnE ()
            else bindE (reading (sv_embedder S)) (\<lambda>made.
                 bindE (state_write (\<lambda>w. w\<lparr>nd_embeddings := build_embeddings made\<rparr>)) (\<lambda>_.
                 state_write (\<lambda>w. w\<lparr>nd_embeddings_resolved := True\<rparr>))))
       (\<lambda>_. state_read nd_embeddings))"

definition unpack_one :: "exn + 'a list \<Rightarrow> exn + 'a" where
  "unpack_one r = (case r of Inl e \<Rightarrow> Inl e | Inr [x] \<Rightarrow> Inr x | Inr _ \<Rightarrow> Inl (ValueError ''unpack''))"

definition semantic_embed ::
  "('r, 's) services_scheme \<Rightarrow> string \<Rightarrow> (('r, 'z) node_scheme, embedding option) act" where
  "semantic_embed S text =
     bindE (get_embeddings S) (\<lambda>embeddings.
       case embeddings of
         None \<Rightarrow> returnE None
       | Some service \<Rightarrow> bindE (liftE (unpack_one (service [text]))) (\<lambda>vector. returnE (Some vector)))"

definition semantic_get ::
  "('r, 's) services_scheme \<Rightarrow> rat \<Rightarrow> string \<Rightarrow> embedding \<Rightarrow> (('r, 'z) node_scheme, CacheHit option) act" where
  "semantic_get S threshold model embedding =
     bindE (on_db (find_similar (sv_plan S) (sv_cosine_distance S) model embedding threshold)) (\<lambda>entry.
       returnE (map_option
         (\<lambda>e. \<lparr>ch_content = ce_response e, ch_tokens_in = ce_tokens_in e, ch_tokens_out = ce_tokens_out e,
               ch_tier = L2\<rparr>) entry))"

definition semantic_put ::
  "('r, 's) services_scheme \<Rightarrow> string \<Rightarrow> string \<Rightarrow> embedding \<Rightarrow> string \<Rightarrow> int \<Rightarrow> int \<Rightarrow>
   (('r, 'z) node_scheme, unit) act" where
  "semantic_put S model prompt_hash embedding response tokens_in tokens_out =
     bindE (reading (sv_uuid4 S)) (\<lambda>u.
     bindE (reading (sv_db_now S)) (\<lambda>ts.
     on_db (cache_entry_insert u ts model prompt_hash embedding response tokens_in tokens_out)))"

section \<open>Both tiers\<close>

definition cache_get ::
  "('r, 's) services_scheme \<Rightarrow> TwoTierCache \<Rightarrow> string \<Rightarrow> string \<Rightarrow> string \<Rightarrow>
   (('r, 'z) node_scheme, CacheHit option) act" where
  "cache_get S tc model prompt_hash prompt_text =
     bindE (redis_call S (exact_get (sv_redis S) model prompt_hash)) (\<lambda>hit.
       case hit of
         Some h \<Rightarrow> returnE (Some h)
       | None \<Rightarrow>
           bindE (semantic_embed S prompt_text) (\<lambda>embedding.
             case embedding of
               None \<Rightarrow> returnE None
             | Some e \<Rightarrow> semantic_get S (tc_similarity_threshold tc) model e))"

definition cache_put ::
  "('r, 's) services_scheme \<Rightarrow> TwoTierCache \<Rightarrow> string \<Rightarrow> string \<Rightarrow> string \<Rightarrow> string \<Rightarrow> int \<Rightarrow> int \<Rightarrow>
   (('r, 'z) node_scheme, unit) act" where
  "cache_put S tc model prompt_hash prompt_text content tokens_in tokens_out =
     bindE (redis_call S (exact_put (sv_redis S) (tc_ttl_seconds tc) model prompt_hash content tokens_in tokens_out))
       (\<lambda>_. bindE (semantic_embed S prompt_text) (\<lambda>embedding.
         case embedding of
           None \<Rightarrow> returnE ()
         | Some e \<Rightarrow> semantic_put S model prompt_hash e content tokens_in tokens_out))"

section \<open>Facts on the exact cache\<close>

lemma l1_key_inject:
  assumes "l1_key m h = l1_key m' h'" and "length h = length h'"
  shows "m = m' \<and> h = h'"
  using assms by (simp add: l1_key_def)

lemma decode_payload:
  "decode_hit (json_dumps (l1_payload c i j)) =
     Inr \<lparr>ch_content = c, ch_tokens_in = i, ch_tokens_out = j, ch_tier = L1\<rparr>"
  by (simp add: decode_hit_def json_loads_dumps) (simp add: l1_payload_def json_item_def)

lemma decode_hit_tier: "decode_hit raw = Inr hit \<Longrightarrow> ch_tier hit = L1"
  by (auto simp: decode_hit_def split: sum.splits json.splits prod.splits)

lemma exact_frames [frames]:
  "frames_key (l1_key m h) (exact_get doc_redis m h)"
  "frames_key (l1_key m h) (exact_put doc_redis ttl m h c i j)"
  by (auto simp: exact_get_def exact_put_def intro!: frames)

lemma exact_put_doc:
  "0 < ttl \<Longrightarrow> exact_put doc_redis ttl m h c i j s =
     (Inr (), s\<lparr>ks_data := (ks_data s)(l1_key m h \<mapsto>
        (RStr (json_dumps (l1_payload c i j)), Some (ks_now s + of_int ttl)))\<rparr>)"
  by (simp add: exact_put_def doc_set_ex_def)

lemma exact_get_stored:
  "ks_data s (l1_key m h) = Some (RStr (json_dumps (l1_payload c i j)), d) \<Longrightarrow>
     exact_get doc_redis m h s =
       (Inr (Some \<lparr>ch_content = c, ch_tokens_in = i, ch_tokens_out = j, ch_tier = L1\<rparr>), s)"
  by (simp add: exact_get_def doc_get_def bindE_def decode_payload)

lemma exact_get_absent: "ks_data s (l1_key m h) = None \<Longrightarrow> exact_get doc_redis m h s = (Inr None, s)"
  by (simp add: exact_get_def doc_get_def bindE_def)

lemma keyspace_at_data:
  "ks_data (keyspace_at t s) k =
     (case ks_data s k of Some (v, Some d) \<Rightarrow> if d < t then None else Some (v, Some d) | x \<Rightarrow> x)"
  "ks_now (keyspace_at t s) = t"
  by (simp_all add: keyspace_at_def doc_clock_def)

context redis_service
begin

lemma exact_get_sim [act_sims]: "act_sim view (exact_get R m h) (exact_get doc_redis m h)"
  unfolding exact_get_def doc_redis_sel by (intro act_sims)

lemma exact_put_sim [act_sims]: "act_sim view (exact_put R ttl m h c i j) (exact_put doc_redis ttl m h c i j)"
  unfolding exact_put_def doc_redis_sel by (intro act_sims)

end

section \<open>Facts on the semantic cache\<close>

lemma get_embeddings_sim [act_sims]:
  "act_sim (node_view v) (get_embeddings S) (get_embeddings (doc_services S))"
  unfolding get_embeddings_def doc_services_sel
  by (intro act_sims state_read_sim state_write_sim) simp_all

lemma semantic_embed_sim [act_sims]:
  "act_sim (node_view v) (semantic_embed S t) (semantic_embed (doc_services S) t)"
  unfolding semantic_embed_def by (intro act_sims)

lemma semantic_get_sim [act_sims]:
  "act_sim (node_view v) (semantic_get S th m e) (semantic_get (doc_services S) th m e)"
  unfolding semantic_get_def doc_services_sel by (intro act_sims)

lemma semantic_put_sim [act_sims]:
  "act_sim (node_view v) (semantic_put S m h e c i j) (semantic_put (doc_services S) m h e c i j)"
  unfolding semantic_put_def doc_services_sel by (intro act_sims)

context redis_node
begin

lemma cache_get_sim [act_sims]:
  "act_sim (node_view view) (cache_get S tc m h t) (cache_get (doc_services S) tc m h t)"
  unfolding cache_get_def doc_services_sel(1) by (intro act_sims)

lemma cache_put_sim [act_sims]:
  "act_sim (node_view view) (cache_put S tc m h t c i j) (cache_put (doc_services S) tc m h t c i j)"
  unfolding cache_put_def doc_services_sel(1) by (intro act_sims)

end

lemma semantic_embed_keeps [keeps_rules]:
  "(\<And>w n. f (w\<lparr>nd_ticks := n\<rparr>) = f w) \<Longrightarrow> (\<And>w e. f (w\<lparr>nd_embeddings := e\<rparr>) = f w) \<Longrightarrow>
   (\<And>w b. f (w\<lparr>nd_embeddings_resolved := b\<rparr>) = f w) \<Longrightarrow> keeps f (semantic_embed S t)"
  unfolding semantic_embed_def get_embeddings_def by (intro keeps_rules) auto

lemma semantic_get_keeps [keeps_rules]: "keeps f (semantic_get S th m e)"
proof -
  have "keeps f (on_db (find_similar p c m e th))" for p c
    by (simp add: keeps_def on_db_def find_similar_def split: list.splits)
  then show ?thesis unfolding semantic_get_def by (intro keeps_bind keeps_comb)
qed

lemma semantic_put_keeps [keeps_rules]:
  "(\<And>w n. f (w\<lparr>nd_ticks := n\<rparr>) = f w) \<Longrightarrow> (\<And>w d. f (w\<lparr>nd_db := d\<rparr>) = f w) \<Longrightarrow>
     keeps f (semantic_put S m h e c i j)"
  unfolding semantic_put_def by (intro keeps_rules) auto

lemma cache_get_keeps [keeps_rules]:
  "(\<And>w n. f (w\<lparr>nd_ticks := n\<rparr>) = f w) \<Longrightarrow> (\<And>w r. f (w\<lparr>nd_redis := r\<rparr>) = f w) \<Longrightarrow>
   (\<And>w e. f (w\<lparr>nd_embeddings := e\<rparr>) = f w) \<Longrightarrow>
   (\<And>w b. f (w\<lparr>nd_embeddings_resolved := b\<rparr>) = f w) \<Longrightarrow> keeps f (cache_get S tc m h t)"
  unfolding cache_get_def
  by (intro keeps_bind keeps_redis_call keeps_option keeps_comb semantic_embed_keeps semantic_get_keeps)

lemma cache_put_keeps [keeps_rules]:
  "(\<And>w n. f (w\<lparr>nd_ticks := n\<rparr>) = f w) \<Longrightarrow> (\<And>w r. f (w\<lparr>nd_redis := r\<rparr>) = f w) \<Longrightarrow>
   (\<And>w d. f (w\<lparr>nd_db := d\<rparr>) = f w) \<Longrightarrow> (\<And>w e. f (w\<lparr>nd_embeddings := e\<rparr>) = f w) \<Longrightarrow>
   (\<And>w b. f (w\<lparr>nd_embeddings_resolved := b\<rparr>) = f w) \<Longrightarrow> keeps f (cache_put S tc m h t c i j)"
  unfolding cache_put_def
  by (intro keeps_bind keeps_redis_call keeps_option keeps_comb semantic_embed_keeps semantic_put_keeps)

text \<open>After the service is resolved the factory is not asked again.\<close>

lemma get_embeddings_resolved:
  "nd_embeddings_resolved w \<Longrightarrow> get_embeddings S w = (Inr (nd_embeddings w), w)"
  by (simp add: get_embeddings_def)

lemma get_embeddings_first:
  "\<not> nd_embeddings_resolved w \<Longrightarrow>
     get_embeddings S w =
       (Inr (build_embeddings (sv_embedder S (nd_ticks w))),
        w\<lparr>nd_ticks := Suc (nd_ticks w), nd_embeddings := build_embeddings (sv_embedder S (nd_ticks w)),
          nd_embeddings_resolved := True\<rparr>)"
  by (simp add: get_embeddings_def)

lemma cache_put_l1:
  fixes S :: "(keyspace, 's) services_scheme" and w :: "(keyspace, 'z) node_scheme"
  assumes "sv_redis S = doc_redis" and "0 < tc_ttl_seconds tc"
    and "cache_put S tc m h t c i j w = (x, w')"
  shows "ks_data (nd_redis w') (l1_key m h) =
    Some (RStr (json_dumps (l1_payload c i j)),
          Some (sv_server_clock S (nd_ticks w) + of_int (tc_ttl_seconds tc)))"
proof -
  let ?t = "sv_server_clock S (nd_ticks w)"
  let ?s = "(keyspace_at ?t (nd_redis w))\<lparr>ks_data := (ks_data (keyspace_at ?t (nd_redis w)))
      (l1_key m h \<mapsto> (RStr (json_dumps (l1_payload c i j)), Some (?t + of_int (tc_ttl_seconds tc))))\<rparr>"
  let ?w = "w\<lparr>nd_ticks := Suc (nd_ticks w), nd_redis := ?s\<rparr>"
  define rest :: "((keyspace, 'z) node_scheme, unit) act" where
    "rest = bindE (semantic_embed S t) (\<lambda>embedding.
         case embedding of
           None \<Rightarrow> returnE ()
         | Some e \<Rightarrow> semantic_put S m h e c i j)"
  have "redis_call S (exact_put (sv_redis S) (tc_ttl_seconds tc) m h c i j) w = (Inr (), ?w)"
    using assms(1,2) by (simp add: redis_call_doc exact_put_doc keyspace_at_data)
  then have run: "rest ?w = (x, w')"
    using assms(3) by (simp add: cache_put_def rest_def)
  have "keeps nd_redis rest"
    unfolding rest_def
    by (intro keeps_bind keeps_option keeps_comb semantic_embed_keeps semantic_put_keeps) simp_all
  then have "nd_redis w' = nd_redis ?w" using run by (rule keepsD)
  then show ?thesis by simp
qed

lemma cache_get_l1:
  assumes "sv_redis S = doc_redis"
    and "ks_data (nd_redis w) (l1_key m h) = Some (RStr (json_dumps (l1_payload c i j)), Some d)"
    and "sv_server_clock S (nd_ticks w) \<le> d"
  shows "cache_get S tc m h t w =
    (Inr (Some \<lparr>ch_content = c, ch_tokens_in = i, ch_tokens_out = j, ch_tier = L1\<rparr>),
     w\<lparr>nd_ticks := Suc (nd_ticks w), nd_redis := keyspace_at (sv_server_clock S (nd_ticks w)) (nd_redis w)\<rparr>)"
proof -
  have "ks_data (keyspace_at (sv_server_clock S (nd_ticks w)) (nd_redis w)) (l1_key m h) =
      Some (RStr (json_dumps (l1_payload c i j)), Some d)"
    using assms(2,3) by (simp add: keyspace_at_data)
  from exact_get_stored [OF this] show ?thesis
    using assms(1) by (simp add: cache_get_def redis_call_doc bindE_def)
qed

section \<open>Properties\<close>

text \<open>
  C33. The exact cache is a round trip through its JSON text: what \<open>put\<close> stores for a model and
  a prompt hash is what \<open>get\<close> returns, content and token counts included and marked as tier L1,
  for as long as the time to live has not passed on the server; afterwards \<open>get\<close> misses; and
  entries of other models or other hashes of the same length are untouched.
\<close>

theorem l1_put_get_round_trip:
  assumes "redis_service R view" and "0 < ttl"
  shows "let r1 = snd (exact_put R ttl m h c i j r) in
         fst (exact_put R ttl m h c i j r) = Inr () \<and>
         (\<forall>t. fst (exact_get R m h (snd (rd_clock R t r1))) =
            Inr (if t \<le> ks_now (view r) + of_int ttl
                 then Some \<lparr>ch_content = c, ch_tokens_in = i, ch_tokens_out = j, ch_tier = L1\<rparr>
                 else None)) \<and>
         (\<forall>m' h'. length h' = length h \<and> (m', h') \<noteq> (m, h) \<longrightarrow>
            ks_data (view r1) (l1_key m' h') = ks_data (view r) (l1_key m' h'))"
proof -
  note sims = act_simD [OF redis_service.exact_put_sim [OF assms(1)]]
    act_simD [OF redis_service.exact_get_sim [OF assms(1)]]
    act_simD [OF redis_service.clock_doc [OF assms(1)]]
  let ?s = "snd (exact_put doc_redis ttl m h c i j (view r))"
  have get: "fst (exact_get doc_redis m h (keyspace_at t ?s)) =
      Inr (if t \<le> ks_now (view r) + of_int ttl
           then Some \<lparr>ch_content = c, ch_tokens_in = i, ch_tokens_out = j, ch_tier = L1\<rparr> else None)" for t
  proof (cases "t \<le> ks_now (view r) + of_int ttl")
    case True
    then have "ks_data (keyspace_at t ?s) (l1_key m h) =
        Some (RStr (json_dumps (l1_payload c i j)), Some (ks_now (view r) + of_int ttl))"
      by (simp add: exact_put_doc [OF assms(2)] keyspace_at_data)
    with True show ?thesis by (simp add: exact_get_stored)
  next
    case False
    then have "ks_data (keyspace_at t ?s) (l1_key m h) = None"
      by (simp add: exact_put_doc [OF assms(2)] keyspace_at_data)
    with False show ?thesis by (simp add: exact_get_absent)
  qed
  have other: "ks_data ?s (l1_key m' h') = ks_data (view r) (l1_key m' h')"
    if "length h' = length h" "(m', h') \<noteq> (m, h)" for m' h'
  proof -
    have "l1_key m' h' \<noteq> l1_key m h" using that l1_key_inject by blast
    then show ?thesis by (rule frames_keyD(1) [OF exact_frames(2)])
  qed
  show ?thesis
    unfolding Let_def sims using get other
    by (auto simp: exact_put_doc [OF assms(2)] keyspace_at_def)
qed

theorem l1_put_get_round_trip_witness:
  "fst (exact_get doc_redis ''m'' ''h'' (snd (doc_clock 60
     (snd (exact_put doc_redis 60 ''m'' ''h'' ''say hi'' 3 5 empty_keyspace))))) =
   Inr (Some \<lparr>ch_content = ''say hi'', ch_tokens_in = 3, ch_tokens_out = 5, ch_tier = L1\<rparr>)"
  using l1_put_get_round_trip
    [OF docr.redis_service_axioms, of 60 "''m''" "''h''" "''say hi''" 3 5 empty_keyspace]
  by (simp add: Let_def empty_keyspace_def)

text \<open>
  A completion that was put is served from L1 to the next lookup of the same model and hash
  that the server sees within the time to live: whatever happens in the second tier of either
  call, even when it raised, the lookup answers with the stored content and counts, before any
  embedding is computed and without touching the database.
\<close>

lemma cache_put_then_get_serves_l1:
  assumes "redis_service (sv_redis S) view" and "0 < tc_ttl_seconds tc"
    and "cache_put S tc m h t c i j w = (x, w1)"
    and "sv_server_clock S (nd_ticks w1) \<le> sv_server_clock S (nd_ticks w) + of_int (tc_ttl_seconds tc)"
    and "cache_get S tc m h t' w1 = (y, w2)"
  shows "y = Inr (Some \<lparr>ch_content = c, ch_tokens_in = i, ch_tokens_out = j, ch_tier = L1\<rparr>) \<and>
         nd_db w2 = nd_db w1 \<and> nd_ticks w2 = Suc (nd_ticks w1) \<and>
         nd_embeddings_resolved w2 = nd_embeddings_resolved w1"
proof -
  have node: "redis_node S view" using assms(1) by (simp add: redis_node_def)
  note sims = act_simD [OF redis_node.cache_put_sim [OF node], of tc m h t c i j w]
    act_simD [OF redis_node.cache_get_sim [OF node], of tc m h t' w1]
  have put: "cache_put (doc_services S) tc m h t c i j (node_view view w) = (x, node_view view w1)"
    using sims(1,2) assms(3) by (simp add: prod_eq_iff)
  have get: "cache_get (doc_services S) tc m h t' (node_view view w1) = (y, node_view view w2)"
    using sims(3,4) assms(5) by (simp add: prod_eq_iff)
  have "ks_data (nd_redis (node_view view w1)) (l1_key m h) =
      Some (RStr (json_dumps (l1_payload c i j)),
            Some (sv_server_clock S (nd_ticks w) + of_int (tc_ttl_seconds tc)))"
    using cache_put_l1 [OF _ assms(2) put] by simp
  from cache_get_l1 [OF _ this, of "doc_services S" tc t'] get assms(4)
  have y: "y = Inr (Some \<lparr>ch_content = c, ch_tokens_in = i, ch_tokens_out = j, ch_tier = L1\<rparr>)"
    and v: "node_view view w2 = (node_view view w1)\<lparr>nd_ticks := Suc (nd_ticks w1),
      nd_redis := keyspace_at (sv_server_clock S (nd_ticks w1)) (view (nd_redis w1))\<rparr>"
    by simp_all
  have "nd_db w2 = nd_db w1" "nd_ticks w2 = Suc (nd_ticks w1)"
    "nd_embeddings_resolved w2 = nd_embeddings_resolved w1"
    using arg_cong [OF v, of nd_db] arg_cong [OF v, of nd_ticks] arg_cong [OF v, of nd_embeddings_resolved]
    by simp_all
  with y show ?thesis by blast
qed

lemma cache_put_then_get_serves_l1_example:
  "fst (cache_get (example_services ()) \<lparr>tc_ttl_seconds = 60, tc_similarity_threshold = 9 / 10\<rparr> ''m'' ''h'' ''t''
     (snd (cache_put (example_services ()) \<lparr>tc_ttl_seconds = 60, tc_similarity_threshold = 9 / 10\<rparr> ''m'' ''h''
        ''t'' ''answer'' 1 2 (example_node ())))) =
   Inr (Some \<lparr>ch_content = ''answer'', ch_tokens_in = 1, ch_tokens_out = 2, ch_tier = L1\<rparr>)"
proof -
  let ?tc = "\<lparr>tc_ttl_seconds = 60, tc_similarity_threshold = 9 / 10 :: rat\<rparr>"
  let ?put = "cache_put (example_services ()) ?tc ''m'' ''h'' ''t'' ''answer'' 1 2 (example_node ())"
  let ?get = "cache_get (example_services ()) ?tc ''m'' ''h'' ''t'' (snd ?put)"
  have "nd_ticks (snd ?put) = 4"
    by (simp add: cache_put_def redis_call_doc exact_put_doc keyspace_at_data semantic_embed_def
        get_embeddings_first build_embeddings_def bindE_def unpack_one_def example_embedder_def
        semantic_put_def on_db_def split: prod.splits)
  then show ?thesis
    using cache_put_then_get_serves_l1 [of "example_services ()" "\<lambda>s. s" ?tc "''m''" "''h''" "''t''" "''answer''" 1 2
        "example_node ()" "fst ?put" "snd ?put" "''t''" "fst ?get" "snd ?get"]
      docr.redis_service_axioms
    by simp
qed

section \<open>What the semantic tier serves\<close>

lemma find_similar_hit:
  assumes "find_similar plan cosd m e th d = (Inr (Some entry), d')" and "\<And>rows. set (plan e rows) \<subseteq> set rows"
  shows "\<exists>row \<in> set (db_cache_entry d). cem_model row = m \<and> \<not> below_threshold (cosd (cem_embedding row) e) th \<and>
    ce_response entry = cem_response row \<and> ce_tokens_in entry = cem_tokens_in row \<and>
    ce_tokens_out entry = cem_tokens_out row"
proof -
  let ?rows = "filter (\<lambda>row. cem_model row = m) (db_cache_entry d)"
  obtain row rest where plan: "plan e ?rows = row # rest"
    using assms(1) by (cases "plan e ?rows") (auto simp: find_similar_def split: if_splits)
  with assms(2) [of ?rows] have "row \<in> set ?rows" by auto
  moreover have "\<not> below_threshold (cosd (cem_embedding row) e) th \<and>
      ce_response entry = cem_response row \<and> ce_tokens_in entry = cem_tokens_in row \<and>
      ce_tokens_out entry = cem_tokens_out row"
    using assms(1) plan by (auto simp: find_similar_def split: if_splits)
  ultimately show ?thesis by auto
qed

lemma exact_get_tier: "exact_get R m h r = (Inr (Some hit), r') \<Longrightarrow> ch_tier hit = L1"
  by (auto simp: exact_get_def bindE_eq_Inr dest: decode_hit_tier split: option.splits)

lemma redis_call_result:
  "redis_call S m w = (x, w') \<Longrightarrow> (\<exists>r r'. m r = (x, r')) \<or> (\<exists>e. x = Inl e)"
  by (auto simp: redis_call_def bindE_def on_redis_def split: prod.splits sum.splits)

lemma redis_call_db: "redis_call S m w = (x, w') \<Longrightarrow> nd_db w' = nd_db w"
  by (rule keepsD [of nd_db]) (rule keeps_redis_call, simp_all)

lemma semantic_embed_db: "semantic_embed S t w = (x, w') \<Longrightarrow> nd_db w' = nd_db w"
  by (rule keepsD [of nd_db]) (rule semantic_embed_keeps, simp_all)

text \<open>
  C26. A hit of the second tier is never cross-served: it is reported only after the exact lookup
  missed, it carries the response and the counts of a stored entry of the very model that was
  asked for, whose similarity to the embedding of the prompt is not below the threshold, and the
  lookup leaves the database as it was. The one thing assumed of the query plan is that it
  returns rows of the relation it is given.
\<close>

theorem semantic_hit_is_a_stored_entry:
  assumes "\<And>e rows. set (sv_plan S e rows) \<subseteq> set rows"
    and "cache_get S tc m h t w = (Inr (Some hit), w')" and "ch_tier hit = L2"
  shows "\<exists>w0 e w2. \<exists>row \<in> set (db_cache_entry (nd_db w)).
           redis_call S (exact_get (sv_redis S) m h) w = (Inr None, w0) \<and>
           semantic_embed S t w0 = (Inr (Some e), w2) \<and>
           cem_model row = m \<and>
           \<not> below_threshold (sv_cosine_distance S (cem_embedding row) e) (tc_similarity_threshold tc) \<and>
           ch_content hit = cem_response row \<and> ch_tokens_in hit = cem_tokens_in row \<and>
           ch_tokens_out hit = cem_tokens_out row \<and> nd_db w' = nd_db w"
proof -
  obtain l1 w0 where l1: "redis_call S (exact_get (sv_redis S) m h) w = (Inr l1, w0)"
    and rest: "(case l1 of Some h' \<Rightarrow> returnE (Some h') | None \<Rightarrow>
      bindE (semantic_embed S t) (\<lambda>v. case v of None \<Rightarrow> returnE None
        | Some e \<Rightarrow> semantic_get S (tc_similarity_threshold tc) m e)) w0 = (Inr (Some hit), w')"
    using assms(2) by (auto simp: cache_get_def bindE_eq_Inr)
  have "l1 = None"
  proof (rule ccontr)
    assume "l1 \<noteq> None"
    then obtain h' where h': "l1 = Some h'" by auto
    with redis_call_result [OF l1] have "ch_tier h' = L1" by (auto dest: exact_get_tier)
    with rest h' assms(3) show False by simp
  qed
  with rest obtain v w2 where v: "semantic_embed S t w0 = (Inr (Some v), w2)"
    and get: "semantic_get S (tc_similarity_threshold tc) m v w2 = (Inr (Some hit), w')"
    by (auto simp: bindE_eq_Inr split: option.splits)
  obtain entry d where find: "find_similar (sv_plan S) (sv_cosine_distance S) m v (tc_similarity_threshold tc)
      (nd_db w2) = (Inr (Some entry), d)"
    and hit: "ch_content hit = ce_response entry" "ch_tokens_in hit = ce_tokens_in entry"
      "ch_tokens_out hit = ce_tokens_out entry"
    using get by (auto simp: semantic_get_def bindE_eq_Inr on_db_def split: prod.splits)
  have "nd_db w0 = nd_db w" using l1 by (rule redis_call_db)
  moreover have "nd_db w2 = nd_db w0" using v by (rule semantic_embed_db)
  moreover have "nd_db w' = nd_db w2" by (rule keepsD [OF semantic_get_keeps get])
  ultimately have db: "nd_db w2 = nd_db w" "nd_db w' = nd_db w" by simp_all
  from find_similar_hit [OF find assms(1)] obtain row where row: "row \<in> set (db_cache_entry (nd_db w))"
    "cem_model row = m" "\<not> below_threshold (sv_cosine_distance S (cem_embedding row) v) (tc_similarity_threshold tc)"
    "ce_response entry = cem_response row" "ce_tokens_in entry = cem_tokens_in row"
    "ce_tokens_out entry = cem_tokens_out row"
    using db(1) by auto
  have "redis_call S (exact_get (sv_redis S) m h) w = (Inr None, w0)" using l1 \<open>l1 = None\<close> by simp
  with v row hit db(2) show ?thesis
    by (intro exI [of _ w0] exI [of _ v] exI [of _ w2] bexI [of _ row]) simp_all
qed

definition example_l2_node :: "keyspace node" where
  "example_l2_node = (example_node ())\<lparr>nd_db := empty_db\<lparr>db_cache_entry :=
     [\<lparr>cem_id = 1, cem_model = ''m'', cem_prompt_hash = ''g'', cem_embedding = replicate 384 1,
       cem_response = ''stored'', cem_tokens_in = 3, cem_tokens_out = 4, cem_created_at = 0\<rparr>]\<rparr>\<rparr>"

theorem semantic_hit_is_a_stored_entry_witness:
  "\<exists>hit w'. cache_get (example_services ()) \<lparr>tc_ttl_seconds = 60, tc_similarity_threshold = 9 / 10\<rparr> ''m'' ''h'' ''t''
      example_l2_node = (Inr (Some hit), w') \<and> ch_content hit = ''stored'' \<and> ch_tier hit = L2"
proof -
  let ?tc = "\<lparr>tc_ttl_seconds = 60, tc_similarity_threshold = 9 / 10 :: rat\<rparr>"
  have "\<exists>hit w'. cache_get (example_services ()) ?tc ''m'' ''h'' ''t'' example_l2_node = (Inr (Some hit), w') \<and>
      ch_tier hit = L2"
    by (simp add: example_l2_node_def cache_get_def redis_call_doc exact_get_absent keyspace_at_data
        empty_keyspace_def semantic_embed_def get_embeddings_first build_embeddings_def bindE_def unpack_one_def
        example_embedder_def semantic_get_def on_db_def find_similar_def example_plan_def EMBEDDING_DIM_def
        below_threshold_def example_distance_def)
  then obtain hit w' where get: "cache_get (example_services ()) ?tc ''m'' ''h'' ''t'' example_l2_node = (Inr (Some hit), w')"
    and tier: "ch_tier hit = L2" by blast
  have "set (sv_plan (example_services ()) e rows) \<subseteq> set rows" for e rows
    by (auto simp: example_plan_def dest!: in_set_takeD)
  from semantic_hit_is_a_stored_entry [OF this get tier] get tier show ?thesis
    by (auto simp: example_l2_node_def)
qed

definition l2_unavailable :: "('r, 's) services_scheme \<Rightarrow> ('r, 'z) node_scheme \<Rightarrow> bool" where
  "l2_unavailable S w \<longleftrightarrow>
     (if nd_embeddings_resolved w then nd_embeddings w = None
      else (\<forall>n \<ge> nd_ticks w. build_embeddings (sv_embedder S n) = None))"

lemma redis_call_parts:
  assumes "redis_call S m w = (x, w')"
  shows "nd_ticks w' = Suc (nd_ticks w) \<and> nd_db w' = nd_db w \<and> nd_embeddings w' = nd_embeddings w \<and>
    nd_embeddings_resolved w' = nd_embeddings_resolved w"
  using assms by (auto simp: redis_call_def bindE_def on_redis_def split: prod.splits sum.splits)

lemma redis_call_unavailable:
  "redis_call S m w = (x, w') \<Longrightarrow> l2_unavailable S w \<Longrightarrow> l2_unavailable S w'"
  by (auto simp: l2_unavailable_def dest!: redis_call_parts split: if_splits)

lemma semantic_embed_unavailable:
  assumes "l2_unavailable S w"
  shows "\<exists>w'. semantic_embed S t w = (Inr None, w') \<and> l2_unavailable S w' \<and> nd_db w' = nd_db w"
proof (cases "nd_embeddings_resolved w")
  case True
  with assms show ?thesis
    by (simp add: semantic_embed_def bindE_def get_embeddings_resolved l2_unavailable_def)
next
  case False
  with assms show ?thesis
    by (simp add: semantic_embed_def bindE_def get_embeddings_first l2_unavailable_def)
qed



end
