(* ===== verification/LatencyTracker.thy ===== *)
theory LatencyTracker
  imports Redis
begin

text \<open>
  The latency tracker, \<^verbatim>\<open>gateway/resilience/latency_tracker.py\<close>: \<open>latency_record\<close> pushes a
  sample onto the backend's list and trims it to the window, \<open>p95\<close> sorts the samples and
  picks the entry at 95 percent of their number.
\<close>

section \<open>Operations\<close>

record LatencyTracker =
  lt_window_size :: int

definition latency_key :: "string \<Rightarrow> string" where
  "latency_key backend_id = ''latency:'' @ backend_id"

definition latency_record ::
  "'r redis_api \<Rightarrow> LatencyTracker \<Rightarrow> string \<Rightarrow> rat \<Rightarrow> ('r, unit) act" where
  "latency_record R lt backend_id latency_ms =
     (let key = latency_key backend_id in
      bindE (rd_lpush R key (Num latency_ms)) (\<lambda>_.
      rd_ltrim R key 0 (lt_window_size lt - 1)))"

text \<open>Python's \<open>float(v)\<close> on a list element; text that is not a number raises.\<close>

definition float_of :: "rtext \<Rightarrow> exn + rat" where
  "float_of x = (case x of
      Num q \<Rightarrow> Inr q
    | Txt t \<Rightarrow> (case read_int t of None \<Rightarrow> Inl (ValueError ''float'') | Some i \<Rightarrow> Inr (of_int i)))"

fun floats_of :: "rtext list \<Rightarrow> exn + rat list" where
  "floats_of [] = Inr []"
| "floats_of (x # xs) =
     (case float_of x of
        Inl e \<Rightarrow> Inl e
      | Inr q \<Rightarrow> (case floats_of xs of Inl e \<Rightarrow> Inl e | Inr qs \<Rightarrow> Inr (q # qs)))"

definition p95_index :: "nat \<Rightarrow> nat" where
  "p95_index n = min (nat \<lfloor>of_nat n * (95 / 100 :: rat)\<rfloor>) (n - 1)"

definition p95 :: "'r redis_api \<Rightarrow> string \<Rightarrow> ('r, rat option) act" where
  "p95 R backend_id =
     bindE (rd_lrange R (latency_key backend_id) 0 (-1)) (\<lambda>raw.
       if raw = [] then returnE None
       else bindE (liftE (floats_of raw)) (\<lambda>xs.
         let values = sort xs in returnE (Some (values ! p95_index (length values)))))"

text \<open>The samples of a backend, newest first, and the invariant of its list.\<close>

definition samples :: "keyspace \<Rightarrow> string \<Rightarrow> rat list" where
  "samples s b =
     (case ks_data s (latency_key b) of
        Some (RList xs, _) \<Rightarrow> map (\<lambda>x. case x of Num q \<Rightarrow> q | Txt _ \<Rightarrow> 0) xs
      | _ \<Rightarrow> [])"

definition latency_ok :: "keyspace \<Rightarrow> string \<Rightarrow> bool" where
  "latency_ok s b \<longleftrightarrow>
     (case ks_data s (latency_key b) of
        None \<Rightarrow> True
      | Some (v, _) \<Rightarrow> (\<exists>xs. v = RList (map Num xs) \<and> xs \<noteq> []))"

text \<open>The reference: nearest-rank selection from the sorted samples.\<close>

definition p95_of :: "rat list \<Rightarrow> rat option" where
  "p95_of xs = (if xs = [] then None else Some (sort xs ! p95_index (length xs)))"

section \<open>The commands on a well-formed list\<close>

lemma latency_key_inject [simp]: "latency_key a = latency_key b \<longleftrightarrow> a = b"
  by (simp add: latency_key_def)

lemma latency_okE:
  assumes "latency_ok s b"
  obtains "ks_data s (latency_key b) = None" "samples s b = []"
  | xs d where "ks_data s (latency_key b) = Some (RList (map Num xs), d)" "samples s b = xs" "xs \<noteq> []"
  using assms
  by (cases "ks_data s (latency_key b)") (auto simp: latency_ok_def samples_def comp_def)

lemma floats_of_Num [simp]: "floats_of (map Num xs) = Inr xs"
  by (induction xs) (simp_all add: float_of_def)

lemma p95_doc: "latency_ok s b \<Longrightarrow> p95 doc_redis b s = (Inr (p95_of (samples s b)), s)"
  by (erule latency_okE) (simp_all add: p95_def doc_lrange_def p95_of_def bindE_def Let_def)

lemma latency_record_doc:
  assumes ok: "latency_ok s b" and w: "0 < lt_window_size lt"
  shows "\<exists>s'. latency_record doc_redis lt b q s = (Inr (), s') \<and> latency_ok s' b \<and>
          samples s' b = take (nat (lt_window_size lt)) (q # samples s b)"
  using ok
proof (rule latency_okE)
  assume none: "ks_data s (latency_key b) = None" "samples s b = []"
  have "index_range 0 (lt_window_size lt - 1) [Num q] = [Num q]"
    using w by (simp add: index_range_prefix)
  with none w show ?thesis
    by (auto simp: latency_record_def Let_def bindE_def doc_lpush_def doc_ltrim_def latency_ok_def samples_def
        intro: exI [of _ "[q]"])
next
  fix xs d assume xs: "ks_data s (latency_key b) = Some (RList (map Num xs), d)" "samples s b = xs"
  have "index_range 0 (lt_window_size lt - 1) (Num q # map Num xs) =
        map Num (take (nat (lt_window_size lt)) (q # xs))"
    using w by (simp add: index_range_prefix take_map [symmetric])
  with xs w show ?thesis
    by (auto simp: latency_record_def Let_def bindE_def doc_lpush_def doc_ltrim_def latency_ok_def samples_def
        comp_def)
qed

lemma latency_frames [frames]:
  "frames_key (latency_key b) (latency_record doc_redis lt b q)"
  "frames_key (latency_key b) (p95 doc_redis b)"
  by (auto simp: latency_record_def p95_def Let_def intro!: frames)

context redis_service
begin

lemma latency_record_sim [act_sims]:
  "act_sim view (latency_record R lt b q) (latency_record doc_redis lt b q)"
  unfolding latency_record_def Let_def doc_redis_sel by (intro act_sims)

lemma p95_sim [act_sims]: "act_sim view (p95 R b) (p95 doc_redis b)"
  unfolding p95_def Let_def doc_redis_sel by (intro act_sims)

end

section \<open>The percentile\<close>

lemma p95_index_eq: "p95_index n = min (n * 19 div 20) (n - 1)"
proof -
  have "(of_nat n * (95 / 100) :: rat) = of_nat (n * 19) / of_nat 20" by simp
  then have "\<lfloor>of_nat n * (95 / 100 :: rat)\<rfloor> = int (n * 19 div 20)"
    by (simp only: floor_divide_of_nat_eq)
  then show ?thesis by (simp add: p95_index_def)
qed

lemma p95_index_less: "0 < n \<Longrightarrow> p95_index n < n"
  by (simp add: p95_index_eq)

text \<open>At least 95 percent of the samples are no larger than the selected one.\<close>

lemma sorted_count_le:
  assumes "sorted ys" and "i < length ys"
  shows "Suc i \<le> length (filter (\<lambda>y. y \<le> ys ! i) ys)"
proof -
  have "filter (\<lambda>y. y \<le> ys ! i) (take (Suc i) ys) = take (Suc i) ys"
    using assms by (auto simp: filter_id_conv in_set_conv_nth sorted_iff_nth_mono)
  moreover have "length (filter (\<lambda>y. y \<le> ys ! i) ys) =
      length (filter (\<lambda>y. y \<le> ys ! i) (take (Suc i) ys)) + length (filter (\<lambda>y. y \<le> ys ! i) (drop (Suc i) ys))"
    by (metis append_take_drop_id filter_append length_append)
  ultimately show ?thesis using assms(2) by simp
qed

lemma p95_of_bound:
  assumes "p95_of xs = Some q"
  shows "q \<in> set xs" and "19 * length xs \<le> 20 * length (filter (\<lambda>x. x \<le> q) xs)"
proof -
  from assms have ne: "xs \<noteq> []" and q: "q = sort xs ! p95_index (length xs)"
    by (auto simp: p95_of_def split: if_splits)
  have i: "p95_index (length xs) < length (sort xs)" using ne by (simp add: p95_index_less)
  then show "q \<in> set xs" using q by (metis nth_mem set_sort)
  have "Suc (p95_index (length xs)) \<le> length (filter (\<lambda>x. x \<le> q) (sort xs))"
    unfolding q by (rule sorted_count_le) (use i in simp_all)
  also have "\<dots> = length (filter (\<lambda>x. x \<le> q) xs)"
    by (metis mset_filter mset_sort size_mset)
  finally show "19 * length xs \<le> 20 * length (filter (\<lambda>x. x \<le> q) xs)"
    using ne by (simp add: p95_index_eq min_def split: if_splits)
qed

section \<open>Properties\<close>



end
