(* ===== verification/Routing.thy ===== *)
theory Routing
  imports LatencyTracker
begin

text \<open>
  The routing policies, \<^verbatim>\<open>gateway/routing/cost.py\<close> and \<^verbatim>\<open>gateway/routing/latency.py\<close>, behind
  the protocol of \<^verbatim>\<open>gateway/routing/base.py\<close>: \<open>select\<close> picks one candidate. Python's
  \<open>sorted\<close> and \<open>list.sort\<close> are stable, as \<open>sort_key\<close> is, and tuples compare
  lexicographically, as products do here. The locale \<open>routing_policy\<close> is what the failover
  walk of the orchestrator relies on.
\<close>

section \<open>The policies\<close>

type_synonym 'r policy = "Backend list \<Rightarrow> RequestFeatures \<Rightarrow> ('r, Backend) act"

definition cost_select :: "rat \<Rightarrow> 'r policy" where
  "cost_select threshold candidates features =
     (let by_cost = sort_key (\<lambda>b. b_cost_per_1k_in b + b_cost_per_1k_out b) candidates in
      liftE (if f_complexity features < threshold then first_or_raise by_cost else last_or_raise by_cost))"

text \<open>The list comprehension that awaits the percentile of each candidate in turn.\<close>

fun score_all :: "'r redis_api \<Rightarrow> Backend list \<Rightarrow> ('r, (rat option \<times> Backend) list) act" where
  "score_all R [] = returnE []"
| "score_all R (b # bs) =
     bindE (p95 R (uuid_str (b_id b))) (\<lambda>p.
     bindE (score_all R bs) (\<lambda>rest. returnE ((p, b) # rest)))"

definition latency_rank :: "rat option \<Rightarrow> bool \<times> rat" where
  "latency_rank p = (p \<noteq> None, case p of None \<Rightarrow> 0 | Some q \<Rightarrow> q)"

definition latency_select :: "'r redis_api \<Rightarrow> 'r policy" where
  "latency_select R candidates features =
     (if length candidates = 1 then liftE (first_or_raise candidates)
      else bindE (score_all R candidates) (\<lambda>scored.
        bindE (liftE (first_or_raise (sort_key (\<lambda>pair. latency_rank (fst pair)) scored)))
          (\<lambda>best. returnE (snd best))))"

text \<open>\<^verbatim>\<open>_build_policy\<close> of \<^verbatim>\<open>gateway/main.py\<close>.\<close>

definition build_policy :: "'r redis_api \<Rightarrow> string \<Rightarrow> 'r policy" where
  "build_policy R name = (if name = ''cost'' then cost_select (1 / 2) else latency_select R)"

section \<open>The contract of a policy\<close>

text \<open>
  In a state the policy can read (\<open>ready\<close>), selecting from a non-empty list returns one of its
  elements and leaves the state as it is.
\<close>

locale routing_policy =
  fixes select :: "'r policy" and ready :: "'r \<Rightarrow> bool"
  assumes select_member: "ready r \<Longrightarrow> cs \<noteq> [] \<Longrightarrow> \<exists>b \<in> set cs. \<exists>r'. select cs f r = (Inr b, r') \<and> ready r'"

lemma first_or_raise_hd: "xs \<noteq> [] \<Longrightarrow> first_or_raise xs = Inr (hd xs)"
  by (cases xs) (simp_all add: first_or_raise_def)

lemma last_or_raise_last: "xs \<noteq> [] \<Longrightarrow> last_or_raise xs = Inr (last xs)"
  by (simp add: last_or_raise_def)

lemma sort_key_nonempty: "xs \<noteq> [] \<Longrightarrow> sort_key f xs \<noteq> []"
  by (auto dest: arg_cong [where f = length])

abbreviation backend_cost :: "Backend \<Rightarrow> rat" where
  "backend_cost b \<equiv> b_cost_per_1k_in b + b_cost_per_1k_out b"

lemma cost_select_result:
  "cs \<noteq> [] \<Longrightarrow> cost_select th cs f r =
     (Inr (if f_complexity f < th then hd (sort_key backend_cost cs) else last (sort_key backend_cost cs)), r)"
  by (simp add: cost_select_def Let_def first_or_raise_hd last_or_raise_last sort_key_nonempty)

interpretation cost: routing_policy "cost_select th" "\<lambda>_. True" for th
  by unfold_locales
    (simp add: cost_select_result hd_sort_key_least(1) last_sort_key_greatest(1))

definition all_latency_ok :: "keyspace \<Rightarrow> bool" where
  "all_latency_ok s \<longleftrightarrow> (\<forall>b. latency_ok s b)"

abbreviation measured :: "keyspace \<Rightarrow> Backend \<Rightarrow> rat option" where
  "measured s b \<equiv> p95_of (samples s (uuid_str (b_id b)))"

lemma score_all_doc:
  "all_latency_ok s \<Longrightarrow> score_all doc_redis bs s = (Inr (map (\<lambda>b. (measured s b, b)) bs), s)"
  by (induction bs) (simp_all add: all_latency_ok_def p95_doc bindE_def)

lemma latency_select_doc:
  assumes "all_latency_ok s" and "cs \<noteq> []"
  shows "\<exists>b \<in> set cs. latency_select doc_redis cs f s = (Inr b, s) \<and>
           (\<forall>c \<in> set cs. latency_rank (measured s b) \<le> latency_rank (measured s c))"
proof (cases "length cs = 1")
  case True
  then obtain b where "cs = [b]" by (cases cs) auto
  then show ?thesis by (simp add: latency_select_def first_or_raise_def)
next
  case False
  let ?sc = "map (\<lambda>b. (measured s b, b)) cs" and ?k = "\<lambda>pair. latency_rank (fst pair)"
  have ne: "?sc \<noteq> []" using assms(2) by simp
  let ?best = "hd (sort_key ?k ?sc)"
  have best: "?best \<in> set ?sc" "\<forall>y \<in> set ?sc. ?k ?best \<le> ?k y"
    by (rule hd_sort_key_least [OF ne])+
  then obtain b where b: "b \<in> set cs" "?best = (measured s b, b)" by auto
  have "latency_select doc_redis cs f s = (Inr b, s)"
    using False b(2) sort_key_nonempty [OF ne, of ?k]
    by (simp add: latency_select_def score_all_doc [OF assms(1)] bindE_def first_or_raise_hd)
  moreover have "\<forall>c \<in> set cs. latency_rank (measured s b) \<le> latency_rank (measured s c)"
    using best(2) b(2) by auto
  ultimately show ?thesis using b(1) by blast
qed

context redis_service
begin

lemma latency_select_sim [act_sims]:
  "act_sim view (latency_select R cs f) (latency_select doc_redis cs f)"
proof -
  have "act_sim view (score_all R bs) (score_all doc_redis bs)" for bs
    by (induction bs) (simp_all only: score_all.simps, (intro act_sims | assumption)+)
  then show ?thesis
    unfolding latency_select_def by (intro act_sims)
qed

lemma cost_select_sim [act_sims]: "act_sim view (cost_select th cs f) (cost_select th cs f)"
  unfolding cost_select_def Let_def by (intro act_sims)

lemma build_policy_sim [act_sims]:
  "act_sim view (build_policy R name cs f) (build_policy doc_redis name cs f)"
  unfolding build_policy_def by (auto intro: act_sims)

end

sublocale redis_service \<subseteq> latency: routing_policy "latency_select R" "\<lambda>r. all_latency_ok (view r)"
proof unfold_locales
  fix r and cs :: "Backend list" and f assume ok: "all_latency_ok (view r)" and ne: "cs \<noteq> []"
  obtain b where b: "b \<in> set cs" "latency_select doc_redis cs f (view r) = (Inr b, view r)"
    using latency_select_doc [OF ok ne] by blast
  obtain x r' where sel: "latency_select R cs f r = (x, r')" by (cases "latency_select R cs f r")
  show "\<exists>b \<in> set cs. \<exists>r'. latency_select R cs f r = (Inr b, r') \<and> all_latency_ok (view r')"
    using act_simD [OF latency_select_sim, of cs f r] b ok sel by auto
qed

section \<open>Properties\<close>

text \<open>
  The cost policy: from a non-empty candidate list a request below the complexity threshold
  goes to a candidate of least total cost, any other to one of greatest total cost.
\<close>

lemma cost_policy_picks_by_complexity:
  assumes "cs \<noteq> []"
  shows "\<exists>b. cost_select th cs f r = (Inr b, r) \<and> b \<in> set cs \<and>
           (if f_complexity f < th then \<forall>c \<in> set cs. backend_cost b \<le> backend_cost c
            else \<forall>c \<in> set cs. backend_cost c \<le> backend_cost b)"
  using assms hd_sort_key_least [OF assms, of backend_cost] last_sort_key_greatest [OF assms, of backend_cost]
  by (simp add: cost_select_result)

definition example_backend :: "uuid \<Rightarrow> string \<Rightarrow> int \<Rightarrow> rat \<Rightarrow> Backend" where
  "example_backend u n prio cost =
     \<lparr>b_id = u, b_name = n, b_type = OLLAMA, b_endpoint = ''http://x'', b_model = ''m'', b_priority = prio,
      b_enabled = True, b_cost_per_1k_in = cost, b_cost_per_1k_out = 0, b_created_at = 0\<rparr>"

lemma cost_policy_picks_by_complexity_example:
  "cost_select (1 / 2) [example_backend 1 ''cheap'' 100 1, example_backend 2 ''dear'' 100 10]
     \<lparr>f_model = ''m'', f_est_tokens_in = 10, f_complexity = 1 / 10\<rparr> empty_keyspace
   = (Inr (example_backend 1 ''cheap'' 100 1), empty_keyspace)"
  using cost_policy_picks_by_complexity
    [of "[example_backend 1 ''cheap'' 100 1, example_backend 2 ''dear'' 100 10]" "1 / 2"
        "\<lparr>f_model = ''m'', f_est_tokens_in = 10, f_complexity = 1 / 10\<rparr>" empty_keyspace]
  by (auto simp: example_backend_def)



end
