(* ===== verification/RateLimit.thy ===== *)
theory RateLimit
  imports Redis
begin

text \<open>
  The token-budget rate limiter, \<^verbatim>\<open>gateway/resilience/ratelimit.py\<close>.

  \<open>reserve_script\<close> and \<open>reconcile_script\<close> are the Lua scripts on the sorted set of a key:
  its members are the texts \<open><reservation id>:<cost>\<close> that the scripts build with Lua's
  number formatting (\<open>lua_tostring\<close>) and take apart with the pattern
  \<^verbatim>\<open>':(%-?%d+)$'\<close> (\<open>match_cost\<close>). \<open>limiter_log\<close> reads the sliding-window log off the
  set, a multiset of (time, reservation, cost), and \<open>limiter_ok\<close> is the invariant of the set.
  The locale \<open>token_limiter\<close> is the contract (reserve admits exactly while the live log stays
  within the budget, reconcile replaces one cost), proved for the scripts on every documented
  Redis.
\<close>

section \<open>Number text in Lua\<close>

text \<open>
  A number concatenated to a string is written with \<^verbatim>\<open>%.14g\<close>: an integer below \<open>10^14\<close>
  in plain decimal, from there on with 14 significant digits and an exponent.
\<close>

fun strip_zeros :: "string \<Rightarrow> string" where
  "strip_zeros cs = (if cs \<noteq> [] \<and> last cs = CHR ''0'' then strip_zeros (butlast cs) else cs)"

declare strip_zeros.simps [simp del]

definition lua_exponent_form :: "nat \<Rightarrow> string" where
  "lua_exponent_form a =
     (let e = length (show_nat a) - 1;
          u = 10 ^ (e - 13);
          q = a div u;
          r = a mod u;
          q' = (if u < 2 * r \<or> (2 * r = u \<and> odd q) then q + 1 else q);
          (m, x) = (if q' = 10 ^ 14 then (10 ^ 13, e + 1) else (q', e));
          frac = strip_zeros (tl (show_nat m))
      in hd (show_nat m) # (if frac = [] then [] else CHR ''.'' # frac) @ ''e+'' @
         (if x < 10 then CHR ''0'' # show_nat x else show_nat x))"

definition lua_tostring :: "int \<Rightarrow> string" where
  "lua_tostring n =
     (if \<bar>n\<bar> < 10 ^ 14 then show_int n
      else if n < 0 then CHR ''-'' # lua_exponent_form (nat (- n))
      else lua_exponent_form (nat n))"

text \<open>The text captured by the pattern: after a colon, an optional minus and digits to the end.\<close>

fun match_cost :: "string \<Rightarrow> string option" where
  "match_cost [] = None"
| "match_cost (c # cs) =
     (if c = CHR '':'' \<and> read_int cs \<noteq> None then Some cs else match_cost cs)"

section \<open>The scripts and their methods\<close>

definition ratelimit_key :: "string \<Rightarrow> string" where
  "ratelimit_key api_key_id = ''ratelimit:'' @ api_key_id"

fun sum_costs :: "string list \<Rightarrow> int \<Rightarrow> exn + int" where
  "sum_costs [] acc = Inr acc"
| "sum_costs (m # ms) acc =
     (case match_cost m of
        None \<Rightarrow> Inl (ScriptError ''attempt to perform arithmetic on a nil value'')
      | Some cost \<Rightarrow> sum_costs ms (acc + the (read_int cost)))"

definition reserve_script ::
  "'r redis_api \<Rightarrow> string \<Rightarrow> rat \<Rightarrow> int \<Rightarrow> int \<Rightarrow> int \<Rightarrow> string \<Rightarrow> ('r, int) act" where
  "reserve_script R key now window budget est_tokens reservation_id =
     bindE (rd_zremrangebyscore R key (now - of_int window)) (\<lambda>_.
     bindE (rd_zrange R key 0 (-1)) (\<lambda>members.
     bindE (liftE (sum_costs members 0)) (\<lambda>total.
       if budget < total + est_tokens then returnE 0
       else bindE (rd_zadd R key now (reservation_id @ '':'' @ lua_tostring est_tokens)) (\<lambda>_.
            bindE (rd_expire R key window) (\<lambda>_. returnE 1)))))"

fun reconcile_loop ::
  "'r redis_api \<Rightarrow> string \<Rightarrow> string \<Rightarrow> int \<Rightarrow> rat \<Rightarrow> string list \<Rightarrow> ('r, int) act" where
  "reconcile_loop R key reservation_id actual_tokens now [] = returnE 0"
| "reconcile_loop R key reservation_id actual_tokens now (m # ms) =
     (if take (length reservation_id) m = reservation_id then
        bindE (rd_zrem R key m) (\<lambda>_.
        bindE (rd_zadd R key now (reservation_id @ '':'' @ lua_tostring actual_tokens)) (\<lambda>_.
        returnE 1))
      else reconcile_loop R key reservation_id actual_tokens now ms)"

definition reconcile_script ::
  "'r redis_api \<Rightarrow> string \<Rightarrow> string \<Rightarrow> int \<Rightarrow> rat \<Rightarrow> ('r, int) act" where
  "reconcile_script R key reservation_id actual_tokens now =
     bindE (rd_zrange R key 0 (-1))
       (\<lambda>members. reconcile_loop R key reservation_id actual_tokens now members)"

text \<open>
  The methods; \<open>u\<close> is the identifier \<open>uuid.uuid4()\<close> draws and \<open>now\<close> the reading of
  \<open>time.time()\<close>.
\<close>

definition reserve ::
  "'r redis_api \<Rightarrow> string \<Rightarrow> int \<Rightarrow> int \<Rightarrow> int \<Rightarrow> uuid \<Rightarrow> rat \<Rightarrow> ('r, string option) act" where
  "reserve R api_key_id est_tokens budget window_seconds u now =
     bindE (reserve_script R (ratelimit_key api_key_id) now window_seconds budget est_tokens (uuid_str u))
       (\<lambda>allowed. returnE (if allowed = 1 then Some (uuid_str u) else None))"

definition reconcile ::
  "'r redis_api \<Rightarrow> string \<Rightarrow> string \<Rightarrow> int \<Rightarrow> rat \<Rightarrow> ('r, unit) act" where
  "reconcile R api_key_id reservation_id actual_tokens now =
     bindE (reconcile_script R (ratelimit_key api_key_id) reservation_id actual_tokens now)
       (\<lambda>_. returnE ())"

section \<open>The sliding-window log\<close>

type_synonym log_entry = "rat \<times> string \<times> int"

definition member_cost :: "string \<Rightarrow> int" where
  "member_cost m = (case match_cost m of None \<Rightarrow> 0 | Some cs \<Rightarrow> the (read_int cs))"

definition entry_of :: "rat \<times> string \<Rightarrow> log_entry" where
  "entry_of e = (fst e, take 36 (snd e), member_cost (snd e))"

definition limiter_zset :: "keyspace \<Rightarrow> string \<Rightarrow> (rat \<times> string) list" where
  "limiter_zset s a = (case ks_data s (ratelimit_key a) of Some (RZset z, _) \<Rightarrow> z | _ \<Rightarrow> [])"

definition limiter_log :: "keyspace \<Rightarrow> string \<Rightarrow> log_entry multiset" where
  "limiter_log s a = mset (map entry_of (limiter_zset s a))"

definition live_log :: "rat \<Rightarrow> int \<Rightarrow> log_entry multiset \<Rightarrow> log_entry multiset" where
  "live_log now window L = filter_mset (\<lambda>e. now - of_int window < fst e) L"

definition used :: "log_entry multiset \<Rightarrow> int" where
  "used L = sum_mset (image_mset (\<lambda>e. snd (snd e)) L)"

definition reservations :: "log_entry multiset \<Rightarrow> string set" where
  "reservations L = (\<lambda>e. fst (snd e)) ` set_mset L"

definition good_member :: "string \<Rightarrow> bool" where
  "good_member m \<longleftrightarrow> (\<exists>u c. m = uuid_str u @ '':'' @ show_int c)"

definition zset_ok :: "(rat \<times> string) list \<Rightarrow> bool" where
  "zset_ok z \<longleftrightarrow> sorted z \<and> distinct (map (\<lambda>e. take 36 (snd e)) z) \<and> (\<forall>e \<in> set z. good_member (snd e))"

definition limiter_ok :: "keyspace \<Rightarrow> string \<Rightarrow> bool" where
  "limiter_ok s a \<longleftrightarrow>
     (case ks_data s (ratelimit_key a) of
        None \<Rightarrow> True
      | Some (v, _) \<Rightarrow> (\<exists>z. v = RZset z \<and> z \<noteq> [] \<and> zset_ok z))"

definition limiter_deadline :: "keyspace \<Rightarrow> string \<Rightarrow> rat option" where
  "limiter_deadline s a = (case ks_data s (ratelimit_key a) of None \<Rightarrow> None | Some (_, d) \<Rightarrow> d)"

section \<open>Facts on members\<close>

lemma lua_tostring_small: "\<bar>n\<bar> < 10 ^ 14 \<Longrightarrow> lua_tostring n = show_int n"
  by (simp add: lua_tostring_def)

lemma match_cost_skip: "CHR '':'' \<notin> set p \<Longrightarrow> match_cost (p @ q) = match_cost q"
  by (induction p) auto

lemma match_cost_member [simp]: "match_cost (uuid_str u @ '':'' @ show_int c) = Some (show_int c)"
  using uuid_str_no_colon by (simp add: match_cost_skip)

lemma member_cost_member [simp]: "member_cost (uuid_str u @ '':'' @ show_int c) = c"
  by (simp only: member_cost_def match_cost_member) simp

lemma entry_of_member [simp]:
  "entry_of (t, uuid_str u @ '':'' @ show_int c) = (t, uuid_str u, c)"
  by (simp only: entry_of_def fst_conv snd_conv member_cost_member) simp

lemma good_member_match:
  "good_member m \<Longrightarrow> \<exists>cs. match_cost m = Some cs \<and> the (read_int cs) = member_cost m"
  unfolding good_member_def by (metis match_cost_member member_cost_member read_show_int option.sel)

lemma sum_costs_good:
  "\<forall>m \<in> set ms. good_member m \<Longrightarrow> sum_costs ms t = Inr (t + sum_list (map member_cost ms))"
proof (induction ms arbitrary: t)
  case Nil
  then show ?case by simp
next
  case (Cons m ms)
  then obtain cs where "match_cost m = Some cs" "the (read_int cs) = member_cost m"
    using good_member_match [of m] by auto
  with Cons show ?case by simp
qed

lemma used_map: "used (mset (map entry_of z)) = sum_list (map member_cost (map snd z))"
  by (induction z) (simp_all add: used_def entry_of_def)

lemma used_simps [simp]:
  "used {#} = 0" "used (add_mset (t, i, c) L) = c + used L" "used (L + M) = used L + used M"
  by (simp_all add: used_def)

lemma limiter_okE:
  assumes "limiter_ok s a"
  obtains "ks_data s (ratelimit_key a) = None" "limiter_zset s a = []"
  | z d where "ks_data s (ratelimit_key a) = Some (RZset z, d)" "limiter_zset s a = z" "z \<noteq> []" "zset_ok z"
  using assms
  by (cases "ks_data s (ratelimit_key a)") (auto simp: limiter_ok_def limiter_zset_def)

lemma limiter_ok_zset: "limiter_ok s a \<Longrightarrow> zset_ok (limiter_zset s a)"
  by (erule limiter_okE) (simp_all add: zset_ok_def)

lemma zset_ok_filter: "zset_ok z \<Longrightarrow> zset_ok (filter P z)"
  by (auto simp: zset_ok_def sorted_wrt_filter distinct_map_filter)

lemma entry_of_prefix: "reservations (mset (map entry_of z)) = (\<lambda>e. take 36 (snd e)) ` set z"
  by (auto simp: reservations_def entry_of_def image_image)

lemma zset_ok_add:
  assumes ok: "zset_ok z" and fresh: "uuid_str u \<notin> (\<lambda>e. take 36 (snd e)) ` set z"
  shows "zset_ok (zset_add t (uuid_str u @ '':'' @ show_int c) z)"
    and "mset (map entry_of (zset_add t (uuid_str u @ '':'' @ show_int c) z)) =
         add_mset (t, uuid_str u, c) (mset (map entry_of z))"
proof -
  let ?m = "uuid_str u @ '':'' @ show_int c"
  have "\<forall>e \<in> set z. snd e \<noteq> ?m" using fresh by force
  then have f: "filter (\<lambda>e. snd e \<noteq> ?m) z = z" by (simp add: filter_id_conv)
  have ms: "mset (zset_add t ?m z) = mset ((t, ?m) # z)"
    by (simp add: zset_add_def f del: append_Cons append.simps)
  have "distinct (map (\<lambda>e. take 36 (snd e)) ((t, ?m) # z))"
    using ok fresh by (simp add: zset_ok_def)
  moreover have "mset (map (\<lambda>e. take 36 (snd e)) (zset_add t ?m z)) =
                 mset (map (\<lambda>e. take 36 (snd e)) ((t, ?m) # z))"
    using ms by (simp only: mset_map)
  ultimately have "distinct (map (\<lambda>e. take 36 (snd e)) (zset_add t ?m z))"
    by (metis mset_eq_imp_distinct_iff)
  moreover have "sorted (zset_add t ?m z)" using ok by (simp add: zset_ok_def zset_add_sorted)
  moreover have "\<forall>e \<in> set (zset_add t ?m z). good_member (snd e)"
    using ok by (auto simp: zset_ok_def zset_add_set good_member_def)
  ultimately show "zset_ok (zset_add t ?m z)" by (simp add: zset_ok_def)
  show "mset (map entry_of (zset_add t ?m z)) = add_mset (t, uuid_str u, c) (mset (map entry_of z))"
    using ms by (simp only: mset_map) (simp only: mset.simps image_mset_add_mset entry_of_member)
qed

lemma not_in_imageD: "x \<notin> f ` A \<Longrightarrow> e \<in> A \<Longrightarrow> f e \<noteq> x"
  by blast

lemma log_reservations:
  "reservations (limiter_log s a) = (\<lambda>e. take 36 (snd e)) ` set (limiter_zset s a)"
  unfolding limiter_log_def by (rule entry_of_prefix)

section \<open>The commands on a well-formed key\<close>

lemma ratelimit_key_inject [simp]: "ratelimit_key a = ratelimit_key b \<longleftrightarrow> a = b"
  by (simp add: ratelimit_key_def)

lemma zset_store_ok:
  assumes "zset_ok z" and "ks_data s (ratelimit_key a) = Some (RZset z0, d)"
  shows "limiter_ok (zset_store (ratelimit_key a) z s) a"
    and "limiter_zset (zset_store (ratelimit_key a) z s) a = z"
    and "limiter_deadline (zset_store (ratelimit_key a) z s) a = (if z = [] then None else d)"
  using assms by (auto simp: zset_store_def limiter_ok_def limiter_zset_def limiter_deadline_def)

lemma zremrange_ok:
  assumes "limiter_ok s a"
  shows "\<exists>s'. doc_zremrangebyscore (ratelimit_key a) mx s = (Inr (), s') \<and> limiter_ok s' a \<and>
          limiter_zset s' a = filter (\<lambda>e. mx < fst e) (limiter_zset s a) \<and>
          ks_now s' = ks_now s"
  using assms
proof (rule limiter_okE)
  assume "ks_data s (ratelimit_key a) = None" "limiter_zset s a = []"
  then show ?thesis using assms by (simp add: doc_zremrangebyscore_def)
next
  fix z d assume z: "ks_data s (ratelimit_key a) = Some (RZset z, d)" "limiter_zset s a = z" "zset_ok z"
  then show ?thesis
    using zset_store_ok [OF zset_ok_filter z(1), of z]
    by (simp add: doc_zremrangebyscore_def) (simp add: zset_store_def)
qed

lemma zrange_ok:
  "limiter_ok s a \<Longrightarrow> doc_zrange (ratelimit_key a) 0 (-1) s = (Inr (map snd (limiter_zset s a)), s)"
  by (erule limiter_okE) (simp_all add: doc_zrange_def)

lemma zadd_ok:
  assumes ok: "limiter_ok s a"
    and fresh: "uuid_str u \<notin> (\<lambda>e. take 36 (snd e)) ` set (limiter_zset s a)"
  shows "\<exists>s'. doc_zadd (ratelimit_key a) t (uuid_str u @ '':'' @ show_int c) s = (Inr (), s') \<and>
          limiter_ok s' a \<and> limiter_log s' a = add_mset (t, uuid_str u, c) (limiter_log s a) \<and>
          limiter_deadline s' a = limiter_deadline s a \<and> ks_now s' = ks_now s"
  using ok
proof (rule limiter_okE)
  assume none: "ks_data s (ratelimit_key a) = None" "limiter_zset s a = []"
  have "zset_ok [(t, uuid_str u @ '':'' @ show_int c)]"
    by (auto simp: zset_ok_def good_member_def)
  moreover have "map entry_of [(t, uuid_str u @ '':'' @ show_int c)] = [(t, uuid_str u, c)]"
    by (simp only: list.map entry_of_member)
  ultimately show ?thesis
    using none by (auto simp: doc_zadd_def limiter_ok_def limiter_log_def limiter_zset_def limiter_deadline_def
        simp del: append_Cons)
next
  fix z d assume z: "ks_data s (ratelimit_key a) = Some (RZset z, d)" "limiter_zset s a = z" "zset_ok z"
  have "zset_ok (zset_add t (uuid_str u @ '':'' @ show_int c) z)"
    "mset (map entry_of (zset_add t (uuid_str u @ '':'' @ show_int c) z)) =
       add_mset (t, uuid_str u, c) (mset (map entry_of z))"
    using zset_ok_add [OF z(3), of u t c] fresh z(2) by auto
  then show ?thesis
    using z by (simp add: doc_zadd_def limiter_ok_def limiter_log_def limiter_zset_def limiter_deadline_def
        del: mset_map append_Cons)
qed

lemma expire_ok:
  assumes "limiter_ok s a" and "0 < ttl"
  shows "\<exists>s'. doc_expire (ratelimit_key a) ttl s = (Inr (), s') \<and> limiter_ok s' a \<and>
          limiter_log s' a = limiter_log s a \<and> ks_now s' = ks_now s \<and>
          (limiter_log s a \<noteq> {#} \<longrightarrow> limiter_deadline s' a = Some (ks_now s + of_int ttl))"
  using assms(1)
  by (rule limiter_okE)
    (use assms in \<open>auto simp: doc_expire_def limiter_ok_def limiter_log_def limiter_zset_def limiter_deadline_def\<close>)

lemma live_log_zset:
  "limiter_zset s' a = filter (\<lambda>e. now - of_int w < fst e) (limiter_zset s a) \<Longrightarrow>
     limiter_log s' a = live_log now w (limiter_log s a)"
  by (simp add: limiter_log_def live_log_def filter_mset_image_mset comp_def entry_of_def flip: mset_filter)

lemma reserve_doc:
  assumes ok: "limiter_ok s a" and w: "0 < w" and small: "\<bar>est\<bar> < 10 ^ 14"
    and fresh: "uuid_str u \<notin> reservations (live_log now w (limiter_log s a))"
  shows "\<exists>s'. limiter_ok s' a \<and> ks_now s' = ks_now s \<and>
     (if budget < used (live_log now w (limiter_log s a)) + est
      then reserve doc_redis a est budget w u now s = (Inr None, s') \<and>
           limiter_log s' a = live_log now w (limiter_log s a)
      else reserve doc_redis a est budget w u now s = (Inr (Some (uuid_str u)), s') \<and>
           limiter_log s' a = add_mset (now, uuid_str u, est) (live_log now w (limiter_log s a)) \<and>
           limiter_deadline s' a = Some (ks_now s + of_int w))"
proof -
  let ?L = "live_log now w (limiter_log s a)"
  obtain s1 where s1: "doc_zremrangebyscore (ratelimit_key a) (now - of_int w) s = (Inr (), s1)"
    "limiter_ok s1 a" "limiter_zset s1 a = filter (\<lambda>e. now - of_int w < fst e) (limiter_zset s a)"
    "ks_now s1 = ks_now s"
    using zremrange_ok [OF ok] by blast
  have log1: "limiter_log s1 a = ?L" using s1(3) by (rule live_log_zset)
  have "\<forall>m \<in> set (map snd (limiter_zset s1 a)). good_member m"
    using limiter_ok_zset [OF s1(2)] by (auto simp: zset_ok_def)
  moreover have "used ?L = sum_list (map member_cost (map snd (limiter_zset s1 a)))"
    unfolding log1 [symmetric] limiter_log_def [of s1 a] by (rule used_map)
  ultimately have sum: "sum_costs (map snd (limiter_zset s1 a)) 0 = Inr (used ?L)"
    by (simp only: sum_costs_good) simp
  show ?thesis
  proof (cases "budget < used ?L + est")
    case True
    then have "reserve doc_redis a est budget w u now s = (Inr None, s1)"
      using s1 zrange_ok [OF s1(2)] sum by (simp add: reserve_def reserve_script_def bindE_def)
    with True s1 log1 show ?thesis by auto
  next
    case False
    have "uuid_str u \<notin> (\<lambda>e. take 36 (snd e)) ` set (limiter_zset s1 a)"
      using fresh unfolding log1 [symmetric] log_reservations .
    from zadd_ok [OF s1(2) this, of now est] obtain s2 where
      s2: "doc_zadd (ratelimit_key a) now (uuid_str u @ '':'' @ show_int est) s1 = (Inr (), s2)"
        "limiter_ok s2 a" "limiter_log s2 a = add_mset (now, uuid_str u, est) ?L" "ks_now s2 = ks_now s1"
      using log1 by auto
    from expire_ok [OF s2(2) w] s2 obtain s3 where
      s3: "doc_expire (ratelimit_key a) w s2 = (Inr (), s3)" "limiter_ok s3 a"
        "limiter_log s3 a = limiter_log s2 a" "ks_now s3 = ks_now s2"
        "limiter_deadline s3 a = Some (ks_now s2 + of_int w)"
      by auto
    have "reserve doc_redis a est budget w u now s = (Inr (Some (uuid_str u)), s3)"
      using False s1 zrange_ok [OF s1(2)] sum s2 s3 small
      by (simp add: reserve_def reserve_script_def bindE_def lua_tostring_small)
    with False s1 s2 s3 show ?thesis by auto
  qed
qed

lemma reconcile_loop_skip:
  "\<forall>m \<in> set ms. take (length rid) m \<noteq> rid \<Longrightarrow>
     reconcile_loop R key rid actual now (ms @ ms') = reconcile_loop R key rid actual now ms'"
  by (induction ms) auto

lemma reconcile_absent:
  assumes "limiter_ok s a" and "uuid_str u \<notin> reservations (limiter_log s a)"
  shows "reconcile doc_redis a (uuid_str u) actual now s = (Inr (), s)"
proof -
  have "\<forall>m \<in> set (map snd (limiter_zset s a)). take (length (uuid_str u)) m \<noteq> uuid_str u"
    using not_in_imageD [OF assms(2) [unfolded log_reservations]] by auto
  then show ?thesis
    using zrange_ok [OF assms(1)] 
      reconcile_loop_skip [of "map snd (limiter_zset s a)" "uuid_str u" doc_redis _ _ _ "[]"]
    by (simp add: reconcile_def reconcile_script_def bindE_def)
qed

lemma reconcile_doc:
  assumes ok: "limiter_ok s a" and small: "\<bar>actual\<bar> < 10 ^ 14"
    and mem: "(t, uuid_str u, c) \<in># limiter_log s a"
  shows "\<exists>s'. reconcile doc_redis a (uuid_str u) actual now s = (Inr (), s') \<and> limiter_ok s' a \<and>
     limiter_log s' a = add_mset (now, uuid_str u, actual) (limiter_log s a - {#(t, uuid_str u, c)#}) \<and>
     limiter_deadline s' a = (if size (limiter_log s a) = 1 then None else limiter_deadline s a) \<and>
     ks_now s' = ks_now s"
proof -
  from mem obtain m where m: "(t, m) \<in> set (limiter_zset s a)" "take 36 m = uuid_str u"
    "entry_of (t, m) = (t, uuid_str u, c)"
    by (auto simp: limiter_log_def entry_of_def)
  then obtain z1 z2 where z: "limiter_zset s a = z1 @ (t, m) # z2" by (meson split_list)
  have zok: "zset_ok (z1 @ (t, m) # z2)" using limiter_ok_zset [OF ok] z by simp
  obtain d where data: "ks_data s (ratelimit_key a) = Some (RZset (z1 @ (t, m) # z2), d)"
    using ok by (rule limiter_okE) (use z in auto)
  have other: "\<forall>e \<in> set (z1 @ z2). take 36 (snd e) \<noteq> uuid_str u"
  proof -
    have "uuid_str u \<notin> (\<lambda>e. take 36 (snd e)) ` set (z1 @ z2)"
      using zok m(2) by (simp add: zset_ok_def image_Un)
    from not_in_imageD [OF this] show ?thesis by blast
  qed
  then have "\<forall>e \<in> set z1 \<union> set z2. snd e \<noteq> m" using m(2) by auto
  then have rest: "filter (\<lambda>e. snd e \<noteq> m) (z1 @ (t, m) # z2) = z1 @ z2"
    by (simp add: filter_id_conv)
  have zok': "zset_ok (z1 @ z2)"
    using zset_ok_filter [OF zok, of "\<lambda>e. snd e \<noteq> m"] rest by simp
  define s1 where "s1 = zset_store (ratelimit_key a) (z1 @ z2) s"
  have s1: "limiter_ok s1 a" "limiter_zset s1 a = z1 @ z2"
    "limiter_deadline s1 a = (if z1 @ z2 = [] then None else d)"
    "ks_now s1 = ks_now s"
    using zset_store_ok [OF zok' data] by (auto simp: s1_def) (simp_all add: zset_store_def)
  have rem: "doc_zrem (ratelimit_key a) m s = (Inr (), s1)"
    unfolding s1_def rest [symmetric] by (simp add: doc_zrem_def data)
  have "uuid_str u \<notin> (\<lambda>e. take 36 (snd e)) ` set (limiter_zset s1 a)"
    using other s1(2) by force
  from zadd_ok [OF s1(1) this, of now actual] obtain s2 where
    s2: "doc_zadd (ratelimit_key a) now (uuid_str u @ '':'' @ show_int actual) s1 = (Inr (), s2)"
      "limiter_ok s2 a" "limiter_log s2 a = add_mset (now, uuid_str u, actual) (limiter_log s1 a)"
      "limiter_deadline s2 a = limiter_deadline s1 a" "ks_now s2 = ks_now s1"
    by blast
  have "\<forall>x \<in> set (map snd z1). take (length (uuid_str u)) x \<noteq> uuid_str u"
    using other by auto
  then have "reconcile doc_redis a (uuid_str u) actual now s = (Inr (), s2)"
    using zrange_ok [OF ok] m(2) rem s2(1) small
    by (simp add: reconcile_def reconcile_script_def bindE_def z reconcile_loop_skip lua_tostring_small)
  moreover have "limiter_log s1 a = limiter_log s a - {#(t, uuid_str u, c)#}"
    using m(3) by (simp add: limiter_log_def s1 z)
  moreover have "limiter_deadline s a = d" "size (limiter_log s a) = Suc (length (z1 @ z2))"
    by (simp_all add: limiter_deadline_def data limiter_log_def z)
  ultimately show ?thesis using s1 s2 by auto
qed

lemma limiter_frames [frames]:
  "frames_key (ratelimit_key a) (reserve doc_redis a est budget w u now)"
  "frames_key (ratelimit_key a) (reconcile doc_redis a rid actual now)"
proof -
  show "frames_key (ratelimit_key a) (reserve doc_redis a est budget w u now)"
    by (auto simp: reserve_def reserve_script_def intro!: frames)
  have "frames_key (ratelimit_key a) (reconcile_loop doc_redis (ratelimit_key a) rid actual now ms)" for ms
    by (induction ms) (simp_all only: reconcile_loop.simps doc_redis_sel, (intro frames | assumption)+)
  then show "frames_key (ratelimit_key a) (reconcile doc_redis a rid actual now)"
    by (auto simp: reconcile_def reconcile_script_def intro!: frames)
qed

section \<open>The contract of the limiter\<close>

locale token_limiter =
  fixes admit :: "string \<Rightarrow> int \<Rightarrow> int \<Rightarrow> int \<Rightarrow> uuid \<Rightarrow> rat \<Rightarrow> ('s, string option) act"
    and settle :: "string \<Rightarrow> string \<Rightarrow> int \<Rightarrow> rat \<Rightarrow> ('s, unit) act"
    and log :: "'s \<Rightarrow> string \<Rightarrow> log_entry multiset"
    and ok :: "'s \<Rightarrow> string \<Rightarrow> bool"
  assumes admit_spec:
      "ok s a \<Longrightarrow> 0 < w \<Longrightarrow> \<bar>est\<bar> < 10 ^ 14 \<Longrightarrow>
       uuid_str u \<notin> reservations (live_log now w (log s a)) \<Longrightarrow>
       (let L = live_log now w (log s a); s' = snd (admit a est budget w u now s) in
        ok s' a \<and>
        (if budget < used L + est
         then fst (admit a est budget w u now s) = Inr None \<and> log s' a = L
         else fst (admit a est budget w u now s) = Inr (Some (uuid_str u)) \<and>
              log s' a = add_mset (now, uuid_str u, est) L))"
    and settle_known:
      "ok s a \<Longrightarrow> \<bar>actual\<bar> < 10 ^ 14 \<Longrightarrow> (t, uuid_str u, c) \<in># log s a \<Longrightarrow>
       (let s' = snd (settle a (uuid_str u) actual now s) in
        ok s' a \<and> fst (settle a (uuid_str u) actual now s) = Inr () \<and>
        log s' a = add_mset (now, uuid_str u, actual) (log s a - {#(t, uuid_str u, c)#}))"
    and settle_unknown:
      "ok s a \<Longrightarrow> uuid_str u \<notin> reservations (log s a) \<Longrightarrow>
       fst (settle a (uuid_str u) actual now s) = Inr () \<and>
       ok (snd (settle a (uuid_str u) actual now s)) a \<and>
       log (snd (settle a (uuid_str u) actual now s)) a = log s a"
begin

lemma admitted_within_budget:
  assumes "ok s a" and "0 < w" and "\<bar>est\<bar> < 10 ^ 14"
    and "uuid_str u \<notin> reservations (live_log now w (log s a))"
    and "fst (admit a est budget w u now s) = Inr (Some rid)"
  shows "used (log (snd (admit a est budget w u now s)) a) \<le> budget"
  using admit_spec [OF assms(1-4), of budget] assms(5) by (auto simp: Let_def split: if_splits)

lemma settled_total:
  assumes "ok s a" and "0 < w" and "\<bar>est\<bar> < 10 ^ 14" and "\<bar>actual\<bar> < 10 ^ 14"
    and "uuid_str u \<notin> reservations (live_log now w (log s a))"
    and "fst (admit a est budget w u now s) = Inr (Some rid)"
  shows "used (log (snd (settle a (uuid_str u) actual now' (snd (admit a est budget w u now s)))) a) =
         used (live_log now w (log s a)) + actual"
proof -
  let ?s = "snd (admit a est budget w u now s)" and ?L = "live_log now w (log s a)"
  have s: "ok ?s a" "log ?s a = add_mset (now, uuid_str u, est) ?L"
    using admit_spec [OF assms(1-3,5), of budget] assms(6) by (auto simp: Let_def split: if_splits)
  then show ?thesis
    using settle_known [OF s(1) assms(4), of now u est now'] by (simp add: Let_def)
qed

end

context redis_service
begin

lemma reserve_sim [act_sims]:
  "act_sim view (reserve R a est budget w u now) (reserve doc_redis a est budget w u now)"
  unfolding reserve_def reserve_script_def doc_redis_sel by (intro act_sims)

lemma reconcile_sim [act_sims]:
  "act_sim view (reconcile R a rid actual now) (reconcile doc_redis a rid actual now)"
proof -
  have "act_sim view (reconcile_loop R k rid actual now ms) (reconcile_loop doc_redis k rid actual now ms)"
    for k ms
    by (induction ms) (simp_all only: reconcile_loop.simps doc_redis_sel, (intro act_sims | assumption)+)
  then show ?thesis
    unfolding reconcile_def reconcile_script_def doc_redis_sel by (intro act_sims)
qed

end

sublocale redis_service \<subseteq> lim: token_limiter "reserve R" "reconcile R"
  "\<lambda>r. limiter_log (view r)" "\<lambda>r. limiter_ok (view r)"
proof unfold_locales
  fix r a w est u now budget actual t c
  note sims = act_simD [OF reserve_sim] act_simD [OF reconcile_sim]
  show "limiter_ok (view r) a \<Longrightarrow> 0 < w \<Longrightarrow> \<bar>est\<bar> < 10 ^ 14 \<Longrightarrow>
       uuid_str u \<notin> reservations (live_log now w (limiter_log (view r) a)) \<Longrightarrow>
       (let L = live_log now w (limiter_log (view r) a); s' = snd (reserve R a est budget w u now r) in
        limiter_ok (view s') a \<and>
        (if budget < used L + est
         then fst (reserve R a est budget w u now r) = Inr None \<and> limiter_log (view s') a = L
         else fst (reserve R a est budget w u now r) = Inr (Some (uuid_str u)) \<and>
              limiter_log (view s') a = add_mset (now, uuid_str u, est) L))"
    using reserve_doc [of "view r" a w est u now budget] by (auto simp: sims Let_def split: if_splits)
  show "limiter_ok (view r) a \<Longrightarrow> \<bar>actual\<bar> < 10 ^ 14 \<Longrightarrow> (t, uuid_str u, c) \<in># limiter_log (view r) a \<Longrightarrow>
       (let s' = snd (reconcile R a (uuid_str u) actual now r) in
        limiter_ok (view s') a \<and> fst (reconcile R a (uuid_str u) actual now r) = Inr () \<and>
        limiter_log (view s') a =
          add_mset (now, uuid_str u, actual) (limiter_log (view r) a - {#(t, uuid_str u, c)#}))"
    using reconcile_doc [of "view r" a actual t u c now] by (auto simp: sims Let_def)
  show "limiter_ok (view r) a \<Longrightarrow> uuid_str u \<notin> reservations (limiter_log (view r) a) \<Longrightarrow>
       fst (reconcile R a (uuid_str u) actual now r) = Inr () \<and>
       limiter_ok (view (snd (reconcile R a (uuid_str u) actual now r))) a \<and>
       limiter_log (view (snd (reconcile R a (uuid_str u) actual now r))) a = limiter_log (view r) a"
    using reconcile_absent [of "view r" a u actual now] by (simp add: sims)
qed

section \<open>Interleavings\<close>

text \<open>
  The atomic script runs of any number of gateways for one API key with its budget and window:
  reservations with fresh identifiers, settlements that charge no more than was reserved, and
  the server's clock.
\<close>

inductive limiter_run ::
  "'r redis_api \<Rightarrow> ('r \<Rightarrow> keyspace) \<Rightarrow> string \<Rightarrow> int \<Rightarrow> int \<Rightarrow> 'r \<Rightarrow> 'r \<Rightarrow> bool"
  for R view a budget w where
  lim_start: "limiter_run R view a budget w r r"
| lim_reserve: "limiter_run R view a budget w r r' \<Longrightarrow> 0 \<le> est \<Longrightarrow> est < 10 ^ 14 \<Longrightarrow>
     uuid_str u \<notin> reservations (limiter_log (view r') a) \<Longrightarrow>
     limiter_run R view a budget w r (snd (reserve R a est budget w u now r'))"
| lim_settle: "limiter_run R view a budget w r r' \<Longrightarrow>
     (t, uuid_str u, c) \<in># limiter_log (view r') a \<Longrightarrow> 0 \<le> actual \<Longrightarrow> actual \<le> c \<Longrightarrow> c < 10 ^ 14 \<Longrightarrow>
     limiter_run R view a budget w r (snd (reconcile R a (uuid_str u) actual now r'))"
| lim_clock: "limiter_run R view a budget w r r' \<Longrightarrow>
     limiter_run R view a budget w r (snd (rd_clock R t r'))"

definition within_budget :: "int \<Rightarrow> log_entry multiset \<Rightarrow> bool" where
  "within_budget budget L \<longleftrightarrow> used L \<le> budget \<and> (\<forall>e \<in># L. 0 \<le> snd (snd e))"

lemma used_filter_le: "\<forall>e \<in># L. 0 \<le> snd (snd e) \<Longrightarrow> used (filter_mset P L) \<le> used L"
proof (induction L)
  case empty
  then show ?case by simp
next
  case (add e L)
  then show ?case by (cases e) auto
qed

lemma within_budget_live: "within_budget budget L \<Longrightarrow> within_budget budget (live_log now w L)"
  unfolding within_budget_def live_log_def
  by (auto intro: order_trans [OF used_filter_le])

lemma reservations_live: "reservations (live_log now w L) \<subseteq> reservations L"
  by (auto simp: reservations_def live_log_def)

lemma used_remove: "(t, i, c) \<in># L \<Longrightarrow> used (L - {#(t, i, c)#}) = used L - c"
  by (auto dest!: multi_member_split)

lemma clock_limiter:
  "limiter_ok s a \<Longrightarrow> limiter_ok (snd (doc_clock t s)) a \<and>
     limiter_log (snd (doc_clock t s)) a \<in> {limiter_log s a, {#}}"
  by (erule limiter_okE)
    (auto simp: doc_clock_def limiter_ok_def limiter_log_def limiter_zset_def split: option.splits if_splits)

context redis_service
begin

lemma run_within_budget:
  assumes "limiter_run R view a budget w r r'" and "0 < w" and "0 \<le> budget"
    and "limiter_ok (view r) a" and "within_budget budget (limiter_log (view r) a)"
  shows "limiter_ok (view r') a \<and> within_budget budget (limiter_log (view r') a)"
  using assms
proof (induction rule: limiter_run.induct)
  case (lim_start r)
  then show ?case by simp
next
  case (lim_reserve r r' est u now)
  then have inv: "limiter_ok (view r') a" "within_budget budget (limiter_log (view r') a)" by auto
  have "uuid_str u \<notin> reservations (live_log now w (limiter_log (view r') a))"
    using lim_reserve.hyps(4) reservations_live by blast
  then show ?case
    using lim.admit_spec [OF inv(1) lim_reserve.prems(1), of est u now budget] lim_reserve.hyps(2,3)
      within_budget_live [OF inv(2), of now w]
    by (auto simp: Let_def within_budget_def split: if_splits)
next
  case (lim_settle r r' t u c actual now)
  then have inv: "limiter_ok (view r') a" "within_budget budget (limiter_log (view r') a)" by auto
  show ?case
    using lim.settle_known [OF inv(1) _ lim_settle.hyps(2), of actual now] lim_settle.hyps(3-5) inv(2)
      used_remove [OF lim_settle.hyps(2)]
    by (auto simp: Let_def within_budget_def dest: in_diffD)
next
  case (lim_clock r r' t)
  then have inv: "limiter_ok (view r') a" "within_budget budget (limiter_log (view r') a)" by auto
  show ?case
    using clock_limiter [OF inv(1), of t] act_simD(2) [OF clock_doc, of t r'] inv(2) lim_clock.prems(2)
    by (auto simp: within_budget_def)
qed

lemmas admit_spec = lim.admit_spec
lemmas settle_known = lim.settle_known
lemmas settle_unknown = lim.settle_unknown
lemmas settled_total = lim.settled_total

end

lemma empty_limiter [simp]:
  "limiter_ok empty_keyspace a" "limiter_log empty_keyspace a = {#}" "limiter_zset empty_keyspace a = []"
  by (simp_all add: limiter_ok_def limiter_log_def limiter_zset_def empty_keyspace_def)

lemma log_simps [simp]:
  "live_log now w {#} = {#}" "reservations {#} = {}"
  "live_log now w (add_mset e L) =
     (if now - of_int w < fst e then add_mset e (live_log now w L) else live_log now w L)"
  "reservations (add_mset e L) = insert (fst (snd e)) (reservations L)"
  by (simp_all add: live_log_def reservations_def)

section \<open>Properties\<close>

text \<open>
  C27. \<open>reserve\<close> decides exactly by the token budget of the sliding window: with \<open>L\<close> the
  entries younger than the window, it refuses when the tokens of \<open>L\<close> plus the estimate exceed
  the budget and then records nothing, and otherwise returns the reservation and adds one entry
  for it to \<open>L\<close>, so that the recorded tokens stay within the budget. The scripts work on the
  member texts of a Redis sorted set; the statement is about the log they stand for.
\<close>

theorem limiter_reserve_decides_by_budget:
  assumes "redis_service R view" and "limiter_ok (view r) a" and "0 < w" and "\<bar>est\<bar> < 10 ^ 14"
    and "uuid_str u \<notin> reservations (live_log now w (limiter_log (view r) a))"
  shows "let L = live_log now w (limiter_log (view r) a);
             (reply, r') = reserve R a est budget w u now r in
         limiter_ok (view r') a \<and>
         (if budget < used L + est
          then reply = Inr None \<and> limiter_log (view r') a = L
          else reply = Inr (Some (uuid_str u)) \<and>
               limiter_log (view r') a = add_mset (now, uuid_str u, est) L \<and>
               used (limiter_log (view r') a) \<le> budget)"
  using redis_service.admit_spec [OF assms, of budget]
  by (auto simp: Let_def split: prod.splits if_splits)

theorem limiter_reserve_decides_by_budget_witness:
  "fst (reserve doc_redis ''k'' 80 100 60 1 1000 empty_keyspace) = Inr (Some (uuid_str 1)) \<and>
   fst (reserve doc_redis ''k'' 30 100 60 2 1010
     (snd (reserve doc_redis ''k'' 80 100 60 1 1000 empty_keyspace))) = Inr None"
proof -
  let ?s = "snd (reserve doc_redis ''k'' 80 100 60 1 1000 empty_keyspace)"
  have first: "fst (reserve doc_redis ''k'' 80 100 60 1 1000 empty_keyspace) = Inr (Some (uuid_str 1))"
    "limiter_ok ?s ''k''" "limiter_log ?s ''k'' = {#(1000, uuid_str 1, 80)#}"
    using limiter_reserve_decides_by_budget
      [OF docr.redis_service_axioms, of empty_keyspace "''k''" 60 80 1 1000 100]
    by (auto simp: Let_def split: prod.splits)
  have "fst (reserve doc_redis ''k'' 30 100 60 2 1010 ?s) = Inr None"
    using limiter_reserve_decides_by_budget [OF docr.redis_service_axioms first(2), of 60 30 2 1010 100]
    by (auto simp: Let_def first(3) split: prod.splits)
  with first show ?thesis by simp
qed

text \<open>
  C28. \<open>reconcile\<close> corrects the provisional charge: for a reservation that is still in the log
  its entry, and only it, is replaced by one with the actual cost, so after a reservation that
  was admitted the recorded tokens are those of the earlier live entries plus the actual cost.
\<close>

theorem limiter_reconcile_charges_actual_cost:
  assumes "redis_service R view" and "limiter_ok (view r) a" and "0 < w"
    and "\<bar>est\<bar> < 10 ^ 14" and "\<bar>actual\<bar> < 10 ^ 14"
    and "uuid_str u \<notin> reservations (live_log now w (limiter_log (view r) a))"
    and "reserve R a est budget w u now r = (Inr (Some rid), r1)"
  shows "rid = uuid_str u \<and>
         fst (reconcile R a rid actual now' r1) = Inr () \<and>
         limiter_log (view (snd (reconcile R a rid actual now' r1))) a =
           add_mset (now', rid, actual) (live_log now w (limiter_log (view r) a)) \<and>
         used (limiter_log (view (snd (reconcile R a rid actual now' r1))) a) =
           used (live_log now w (limiter_log (view r) a)) + actual"
proof -
  let ?L = "live_log now w (limiter_log (view r) a)"
  have r1: "rid = uuid_str u" "limiter_ok (view r1) a"
    "limiter_log (view r1) a = add_mset (now, uuid_str u, est) ?L"
    using redis_service.admit_spec [OF assms(1-4,6), of budget] assms(7)
    by (auto simp: Let_def split: if_splits)
  show ?thesis
    using redis_service.settle_known [OF assms(1) r1(2) assms(5), of now u est now'] r1
    by (simp add: Let_def)
qed

theorem limiter_reconcile_charges_actual_cost_witness:
  "used (limiter_log (snd (reconcile doc_redis ''k'' (uuid_str 1) 90 1005
     (snd (reserve doc_redis ''k'' 10 100 60 1 1000 empty_keyspace)))) ''k'') = 90"
proof -
  have "reserve doc_redis ''k'' 10 100 60 1 1000 empty_keyspace =
      (Inr (Some (uuid_str 1)), snd (reserve doc_redis ''k'' 10 100 60 1 1000 empty_keyspace))"
    using docr.admit_spec [of empty_keyspace "''k''" 60 10 1 1000 100]
    by (simp add: Let_def prod_eq_iff)
  from limiter_reconcile_charges_actual_cost [OF docr.redis_service_axioms _ _ _ _ _ this, of 90 1005]
  show ?thesis by simp
qed



text \<open>
  C39. The actual cost can be forgotten while it is still inside the window. \<open>reconcile\<close> moves
  the entry to the time of the settlement but does not renew the expiry of the key, which
  \<open>reserve\<close> set: when another live reservation shares the key, the whole log is dropped once
  the server's clock passes the time of the reservation plus the window, although the settled
  cost (at \<open>now'\<close>) is younger than the window then.
\<close>

theorem limiter_settled_cost_forgotten_early:
  assumes "redis_service R view" and "limiter_ok (view r) a" and "0 < w"
    and "\<bar>est\<bar> < 10 ^ 14" and "\<bar>actual\<bar> < 10 ^ 14"
    and "uuid_str u \<notin> reservations (live_log now w (limiter_log (view r) a))"
    and "reserve R a est budget w u now r = (Inr (Some rid), r1)"
    and "live_log now w (limiter_log (view r) a) \<noteq> {#}"
    and "ks_now (view r) + of_int w < T" and "T - of_int w < now'"
  shows "(now', rid, actual) \<in># live_log T w (limiter_log (view (snd (reconcile R a rid actual now' r1))) a) \<and>
         limiter_log (view (snd (rd_clock R T (snd (reconcile R a rid actual now' r1))))) a = {#}"
proof -
  let ?L = "live_log now w (limiter_log (view r) a)"
  note sims = act_simD [OF redis_service.reserve_sim [OF assms(1)], of a est budget w u now r]
    act_simD [OF redis_service.reconcile_sim [OF assms(1)]]
    act_simD [OF redis_service.clock_doc [OF assms(1)]]
  obtain s1 where s1: "view r1 = s1" "rid = uuid_str u" "limiter_ok s1 a"
    "limiter_log s1 a = add_mset (now, uuid_str u, est) ?L"
    "limiter_deadline s1 a = Some (ks_now (view r) + of_int w)" "ks_now s1 = ks_now (view r)"
    using reserve_doc [OF assms(2,3,4,6), of budget] assms(7) sims(1,2) by (auto split: if_splits)
  obtain s2 where s2: "reconcile doc_redis a (uuid_str u) actual now' s1 = (Inr (), s2)" "limiter_ok s2 a"
    "limiter_log s2 a = add_mset (now', uuid_str u, actual) ?L"
    "limiter_deadline s2 a = Some (ks_now (view r) + of_int w)"
    using reconcile_doc [OF s1(3) assms(5), of now u est now'] s1(4,5) assms(8) by auto
  have "limiter_log (snd (doc_clock T s2)) a = {#}"
    using s2(2,4) assms(9)
    by (elim limiter_okE) (auto simp: doc_clock_def limiter_log_def limiter_zset_def limiter_deadline_def)
  then show ?thesis using s1 s2 assms(10) by (simp add: sims)
qed

theorem limiter_settled_cost_forgotten_early_witness:
  "\<exists>r1. reserve doc_redis ''k'' 10 100 60 2 1 (snd (reserve doc_redis ''k'' 10 100 60 1 0 empty_keyspace))
         = (Inr (Some (uuid_str 2)), r1) \<and>
       (50, uuid_str 2, 5000) \<in># live_log 62 60 (limiter_log (snd (reconcile doc_redis ''k'' (uuid_str 2) 5000 50 r1)) ''k'') \<and>
       limiter_log (snd (doc_clock 62 (snd (reconcile doc_redis ''k'' (uuid_str 2) 5000 50 r1)))) ''k'' = {#}"
proof -
  let ?r = "snd (reserve doc_redis ''k'' 10 100 60 1 0 empty_keyspace)"
  have r: "limiter_ok ?r ''k''" "limiter_log ?r ''k'' = {#(0, uuid_str 1, 10)#}"
    using docr.admit_spec [of empty_keyspace "''k''" 60 10 1 0 100] by (simp_all add: Let_def)
  have now: "ks_now ?r = 0"
    using frames_keyD(2) [OF limiter_frames(1)] by (simp add: empty_keyspace_def)
  obtain r1 where r1: "reserve doc_redis ''k'' 10 100 60 2 1 ?r = (Inr (Some (uuid_str 2)), r1)"
    using docr.admit_spec [OF r(1), of 60 10 2 1 100]
    by (cases "reserve doc_redis ''k'' 10 100 60 2 1 ?r") (simp add: Let_def r(2))
  show ?thesis
    using r1 limiter_settled_cost_forgotten_early
      [OF docr.redis_service_axioms r(1) _ _ _ _ r1, of 5000 62 50] now
    by (auto simp: r(2))
qed

end
