(* ===== verification/Breaker.thy ===== *)
theory Breaker
  imports Redis
begin

text \<open>
  The circuit breaker, \<^verbatim>\<open>gateway/resilience/breaker.py\<close>.

  \<open>allow_script\<close> and \<open>record_script\<close> are the two Lua scripts, command by command;
  \<open>allow\<close> and \<open>breaker_record\<close> are the methods around them. The abstract machine
  closed/open/half-open is \<open>breaker_state\<close> with \<open>spec_allow\<close> and \<open>spec_record\<close>;
  \<open>breaker_abs\<close> reads it off the Redis hash and \<open>breaker_ok\<close> is the invariant of the
  hash. The locale \<open>circuit_breaker\<close> is the contract the orchestrator relies on, proved
  for the scripts on every documented Redis; \<open>breaker_step\<close> interleaves the atomic
  scripts of any number of gateways.
\<close>

section \<open>The scripts and their methods\<close>

definition breaker_key :: "string \<Rightarrow> string" where
  "breaker_key backend_id = ''breaker:'' @ backend_id"

text \<open>Lua's \<open>tonumber\<close> on a reply: a missing field is \<open>false\<close>, which gives nil.\<close>

definition tonumber :: "rtext option \<Rightarrow> rat option" where
  "tonumber x = (case x of
      None \<Rightarrow> None
    | Some (Num q) \<Rightarrow> Some q
    | Some (Txt s) \<Rightarrow> map_option of_int (read_int s))"

definition allow_script :: "'r redis_api \<Rightarrow> string \<Rightarrow> rat \<Rightarrow> rat \<Rightarrow> ('r, int) act" where
  "allow_script R key now cooldown =
     bindE (rd_hget R key ''state'') (\<lambda>state.
       if state = None \<or> state = Some (Txt ''closed'') then returnE 1
       else if state = Some (Txt ''open'') then
         bindE (rd_hget R key ''opened_at'') (\<lambda>reply.
           case tonumber reply of
             None \<Rightarrow> raiseE (ScriptError ''attempt to perform arithmetic on a nil value'')
           | Some opened_at \<Rightarrow>
               if cooldown \<le> now - opened_at
               then bindE (rd_hset R key [(''state'', Txt ''half_open'')]) (\<lambda>_. returnE 1)
               else returnE 0)
       else returnE 1)"

definition record_script ::
  "'r redis_api \<Rightarrow> string \<Rightarrow> string \<Rightarrow> rat \<Rightarrow> rat \<Rightarrow> ('r, rtext option) act" where
  "record_script R key ok now threshold =
     bindE (rd_hget R key ''state'') (\<lambda>reply.
       let state = (case reply of None \<Rightarrow> Txt ''closed'' | Some x \<Rightarrow> x) in
       bindE (if ok = ''1'' then rd_hset R key [(''state'', Txt ''closed''), (''failures'', Num 0)]
              else bindE (rd_hget R key ''failures'') (\<lambda>f.
                let failures = (case tonumber f of None \<Rightarrow> 0 | Some n \<Rightarrow> n) + 1 in
                if state = Txt ''half_open'' \<or> threshold \<le> failures
                then rd_hset R key
                       [(''state'', Txt ''open''), (''opened_at'', Num now), (''failures'', Num failures)]
                else rd_hset R key [(''failures'', Num failures)]))
         (\<lambda>_. rd_hget R key ''state''))"

record CircuitBreaker =
  cb_threshold :: int
  cb_cooldown :: int

definition allow :: "'r redis_api \<Rightarrow> CircuitBreaker \<Rightarrow> string \<Rightarrow> rat \<Rightarrow> ('r, bool) act" where
  "allow R cb backend_id now =
     bindE (allow_script R (breaker_key backend_id) now (of_int (cb_cooldown cb)))
       (\<lambda>result. returnE (result \<noteq> 0))"

definition breaker_record ::
  "'r redis_api \<Rightarrow> CircuitBreaker \<Rightarrow> string \<Rightarrow> bool \<Rightarrow> rat \<Rightarrow> ('r, rtext option) act" where
  "breaker_record R cb backend_id ok now =
     record_script R (breaker_key backend_id) (if ok then ''1'' else ''0'') now
       (of_int (cb_threshold cb))"

section \<open>The abstract machine\<close>

datatype phase = Closed | Open rat | HalfOpen

record breaker_state =
  br_phase :: phase
  br_failures :: nat

definition spec_allow :: "rat \<Rightarrow> rat \<Rightarrow> breaker_state \<Rightarrow> bool \<times> breaker_state" where
  "spec_allow cooldown now st =
     (case br_phase st of
        Closed \<Rightarrow> (True, st)
      | HalfOpen \<Rightarrow> (True, st)
      | Open since \<Rightarrow>
          if cooldown \<le> now - since then (True, st\<lparr>br_phase := HalfOpen\<rparr>) else (False, st))"

definition spec_record :: "rat \<Rightarrow> bool \<Rightarrow> rat \<Rightarrow> breaker_state \<Rightarrow> breaker_state" where
  "spec_record threshold ok now st =
     (if ok then \<lparr>br_phase = Closed, br_failures = 0\<rparr>
      else let n = Suc (br_failures st) in
        \<lparr>br_phase = (if br_phase st = HalfOpen \<or> threshold \<le> of_nat n then Open now else br_phase st),
         br_failures = n\<rparr>)"

text \<open>The abstract state of a backend, read off its hash, and the invariant of the hash.\<close>

definition breaker_hash :: "keyspace \<Rightarrow> string \<Rightarrow> string \<Rightarrow> rtext option" where
  "breaker_hash s b =
     (case ks_data s (breaker_key b) of Some (RHash h, _) \<Rightarrow> h | _ \<Rightarrow> Map.empty)"

definition hash_phase :: "(string \<Rightarrow> rtext option) \<Rightarrow> phase" where
  "hash_phase h =
     (if h ''state'' = Some (Txt ''open'')
      then Open (case tonumber (h ''opened_at'') of None \<Rightarrow> 0 | Some q \<Rightarrow> q)
      else if h ''state'' = Some (Txt ''half_open'') then HalfOpen else Closed)"

definition hash_failures :: "(string \<Rightarrow> rtext option) \<Rightarrow> nat" where
  "hash_failures h = (case tonumber (h ''failures'') of None \<Rightarrow> 0 | Some q \<Rightarrow> nat \<lfloor>q\<rfloor>)"

definition breaker_abs :: "keyspace \<Rightarrow> string \<Rightarrow> breaker_state" where
  "breaker_abs s b =
     \<lparr>br_phase = hash_phase (breaker_hash s b), br_failures = hash_failures (breaker_hash s b)\<rparr>"

definition hash_ok :: "(string \<Rightarrow> rtext option) \<Rightarrow> bool" where
  "hash_ok h \<longleftrightarrow>
     h ''state'' \<in> {None, Some (Txt ''closed''), Some (Txt ''open''), Some (Txt ''half_open'')} \<and>
     (h ''state'' = Some (Txt ''open'') \<longrightarrow> (\<exists>q. h ''opened_at'' = Some (Num q))) \<and>
     (h ''failures'' = None \<or> (\<exists>n :: nat. h ''failures'' = Some (Num (of_nat n))))"

definition breaker_ok :: "keyspace \<Rightarrow> string \<Rightarrow> bool" where
  "breaker_ok s b \<longleftrightarrow>
     (case ks_data s (breaker_key b) of
        None \<Rightarrow> True
      | Some (v, d) \<Rightarrow> d = None \<and> (\<exists>h. v = RHash h \<and> hash_ok h))"

text \<open>Reporting a failure of a backend at each of the given times.\<close>

definition failing_run ::
  "(string \<Rightarrow> bool \<Rightarrow> rat \<Rightarrow> ('s, rtext option) act) \<Rightarrow> string \<Rightarrow> rat list \<Rightarrow> 's \<Rightarrow> 's" where
  "failing_run report b ts s = fold (\<lambda>t s. snd (report b False t s)) ts s"

text \<open>One atomic step of any gateway: a check or a report for some backend.\<close>

datatype breaker_event = CheckEv string rat | ReportEv string bool rat | ClockEv rat

inductive breaker_step ::
  "'r redis_api \<Rightarrow> CircuitBreaker \<Rightarrow> breaker_event \<Rightarrow> 'r \<Rightarrow> 'r \<Rightarrow> bool" for R cb where
  check: "breaker_step R cb (CheckEv b now) r (snd (allow R cb b now r))"
| report: "breaker_step R cb (ReportEv b ok now) r (snd (breaker_record R cb b ok now r))"
| clock: "breaker_step R cb (ClockEv t) r (snd (rd_clock R t r))"

inductive breaker_run ::
  "'r redis_api \<Rightarrow> CircuitBreaker \<Rightarrow> 'r \<Rightarrow> breaker_event list \<Rightarrow> 'r \<Rightarrow> bool" for R cb where
  run_nil: "breaker_run R cb r [] r"
| run_step: "breaker_run R cb r es r' \<Longrightarrow> breaker_step R cb e r' r'' \<Longrightarrow>
     breaker_run R cb r (es @ [e]) r''"

text \<open>What an event means for one backend on the abstract machine.\<close>

fun spec_event :: "CircuitBreaker \<Rightarrow> string \<Rightarrow> breaker_event \<Rightarrow> breaker_state \<Rightarrow> breaker_state" where
  "spec_event cb b (CheckEv c now) st =
     (if c = b then snd (spec_allow (of_int (cb_cooldown cb)) now st) else st)"
| "spec_event cb b (ReportEv c ok now) st =
     (if c = b then spec_record (of_int (cb_threshold cb)) ok now st else st)"
| "spec_event cb b (ClockEv t) st = st"

inductive_cases breaker_step_cases [elim!]: "breaker_step R cb e r r'"

section \<open>The contract of the breaker\<close>

locale circuit_breaker =
  fixes check :: "string \<Rightarrow> rat \<Rightarrow> ('s, bool) act"
    and report :: "string \<Rightarrow> bool \<Rightarrow> rat \<Rightarrow> ('s, rtext option) act"
    and state :: "'s \<Rightarrow> string \<Rightarrow> breaker_state"
    and ok :: "'s \<Rightarrow> string \<Rightarrow> bool"
    and threshold cooldown :: rat
  assumes check_result: "ok s b \<Longrightarrow> fst (check b now s) = Inr (fst (spec_allow cooldown now (state s b)))"
    and check_state: "ok s b \<Longrightarrow> state (snd (check b now s)) b = snd (spec_allow cooldown now (state s b))"
    and check_other: "c \<noteq> b \<Longrightarrow> state (snd (check b now s)) c = state s c"
    and check_ok: "ok s c \<Longrightarrow> ok (snd (check b now s)) c"
    and report_result: "ok s b \<Longrightarrow> \<exists>x. fst (report b r now s) = Inr x"
    and report_state: "ok s b \<Longrightarrow> state (snd (report b r now s)) b = spec_record threshold r now (state s b)"
    and report_other: "c \<noteq> b \<Longrightarrow> state (snd (report b r now s)) c = state s c"
    and report_ok: "ok s c \<Longrightarrow> ok (snd (report b r now s)) c"
begin

lemma failing_ok: "ok s b \<Longrightarrow> ok (failing_run report b ts s) b"
  by (induction ts arbitrary: s) (auto simp: failing_run_def report_ok)

lemma closed_stays_closed:
  assumes "ok s b" and "br_phase (state s b) = Closed"
    and "of_nat (br_failures (state s b) + length ts) < threshold"
  shows "br_phase (state (failing_run report b ts s) b) = Closed \<and>
         br_failures (state (failing_run report b ts s) b) = br_failures (state s b) + length ts"
  using assms
proof (induction ts arbitrary: s)
  case Nil
  then show ?case by (simp add: failing_run_def)
next
  case (Cons t ts)
  let ?s = "snd (report b False t s)"
  have st: "state ?s b = spec_record threshold False t (state s b)"
    using Cons.prems(1) by (rule report_state)
  have "of_nat (Suc (br_failures (state s b))) \<le> (of_nat (br_failures (state s b) + length (t # ts)) :: rat)"
    by (simp only: of_nat_le_iff) simp
  with Cons.prems(3) have lt: "of_nat (Suc (br_failures (state s b))) < threshold" by linarith
  then have "br_phase (state ?s b) = Closed" and n: "br_failures (state ?s b) = Suc (br_failures (state s b))"
    using Cons.prems(2) by (simp_all add: st spec_record_def Let_def)
  moreover have "ok ?s b" using Cons.prems(1) by (rule report_ok)
  moreover have "of_nat (br_failures (state ?s b) + length ts) < threshold"
    using Cons.prems(3) by (simp add: n)
  ultimately have "br_phase (state (failing_run report b ts ?s) b) = Closed \<and>
      br_failures (state (failing_run report b ts ?s) b) = br_failures (state ?s b) + length ts"
    by (intro Cons.IH)
  then show ?case by (simp add: failing_run_def n)
qed

lemma trips_at_threshold:
  assumes "ok s b" and "br_phase (state s b) = Closed"
    and "of_nat (br_failures (state s b) + length ts) < threshold"
    and "threshold \<le> of_nat (br_failures (state s b) + Suc (length ts))"
  shows "br_phase (state (failing_run report b (ts @ [t]) s) b) = Open t"
proof -
  let ?s = "failing_run report b ts s"
  have inv: "br_failures (state ?s b) = br_failures (state s b) + length ts" "ok ?s b"
    using closed_stays_closed [OF assms(1-3)] failing_ok [OF assms(1)] by auto
  then have "state (snd (report b False t ?s)) b = spec_record threshold False t (state ?s b)"
    by (simp add: report_state)
  with inv assms(4) show ?thesis
    by (simp add: failing_run_def spec_record_def Let_def)
qed

lemma open_refuses:
  assumes "ok s b" and "br_phase (state s b) = Open t" and "now - t < cooldown"
  shows "fst (check b now s) = Inr False" and "state (snd (check b now s)) b = state s b"
  using assms by (simp_all add: check_result check_state spec_allow_def)

lemma probe_after_cooldown:
  assumes "ok s b" and "br_phase (state s b) = Open t" and "cooldown \<le> now - t"
  shows "fst (check b now s) = Inr True" and "br_phase (state (snd (check b now s)) b) = HalfOpen"
  using assms by (simp_all add: check_result check_state spec_allow_def)

lemma half_open_report:
  assumes "ok s b" and "br_phase (state s b) = HalfOpen"
  shows "br_phase (state (snd (report b r now s)) b) = (if r then Closed else Open now)"
  using assms by (simp add: report_state spec_record_def Let_def)

lemma half_open_admits_all:
  assumes "ok s b" and "br_phase (state s b) = HalfOpen"
  shows "fst (check b now s) = Inr True" and "state (snd (check b now s)) b = state s b"
  using assms by (simp_all add: check_result check_state spec_allow_def)

lemma success_resets:
  assumes "ok s b"
  shows "state (snd (report b True now s)) b = \<lparr>br_phase = Closed, br_failures = 0\<rparr>"
  using assms by (simp add: report_state spec_record_def)

end

section \<open>The scripts keep the contract\<close>

lemma breaker_key_inject [simp]: "breaker_key a = breaker_key b \<longleftrightarrow> a = b"
  by (simp add: breaker_key_def)

lemma breaker_okE:
  assumes "breaker_ok s b"
  obtains "ks_data s (breaker_key b) = None" "breaker_hash s b = Map.empty"
  | h where "ks_data s (breaker_key b) = Some (RHash h, None)" "breaker_hash s b = h" "hash_ok h"
  using assms
  by (cases "ks_data s (breaker_key b)") (auto simp: breaker_ok_def breaker_hash_def)

lemma hget_doc_ok:
  "breaker_ok s b \<Longrightarrow> doc_hget (breaker_key b) f s = (Inr (breaker_hash s b f), s)"
  by (erule breaker_okE) (simp_all add: doc_hget_def)

lemma hset_doc_ok:
  assumes "breaker_ok s b"
  shows "\<exists>s'. doc_hset (breaker_key b) fvs s = (Inr (), s') \<and>
           breaker_hash s' b = fold (\<lambda>(f, v) h. h(f \<mapsto> v)) fvs (breaker_hash s b) \<and>
           (hash_ok (fold (\<lambda>(f, v) h. h(f \<mapsto> v)) fvs (breaker_hash s b)) \<longrightarrow> breaker_ok s' b)"
  using assms
  by (rule breaker_okE) (auto simp: doc_hset_def breaker_hash_def breaker_ok_def)

lemma hash_ok_empty: "hash_ok Map.empty"
  by (simp add: hash_ok_def)

lemma breaker_hash_ok: "breaker_ok s b \<Longrightarrow> hash_ok (breaker_hash s b)"
  by (erule breaker_okE) (simp_all add: hash_ok_empty)

lemma tonumber_simps [simp]:
  "tonumber None = None" "tonumber (Some (Num q)) = Some q"
  by (simp_all add: tonumber_def)

lemma allow_doc:
  assumes ok: "breaker_ok s b"
  shows "\<exists>s'. allow doc_redis cb b now s =
               (Inr (fst (spec_allow (of_int (cb_cooldown cb)) now (breaker_abs s b))), s') \<and>
             breaker_abs s' b = snd (spec_allow (of_int (cb_cooldown cb)) now (breaker_abs s b)) \<and>
             breaker_ok s' b"
proof -
  let ?h = "breaker_hash s b" and ?cd = "of_int (cb_cooldown cb) :: rat"
  note hok = breaker_hash_ok [OF ok]
  consider (closed) "?h ''state'' = None \<or> ?h ''state'' = Some (Txt ''closed'')"
    | (opened) q where "?h ''state'' = Some (Txt ''open'')" "?h ''opened_at'' = Some (Num q)"
    | (half) "?h ''state'' = Some (Txt ''half_open'')"
    using hok by (auto simp: hash_ok_def)
  then show ?thesis
  proof cases
    case closed
    then have "br_phase (breaker_abs s b) = Closed"
      by (auto simp: breaker_abs_def hash_phase_def)
    with closed ok show ?thesis
      by (auto simp: allow_def allow_script_def hget_doc_ok spec_allow_def)
  next
    case half
    then have "br_phase (breaker_abs s b) = HalfOpen"
      by (simp add: breaker_abs_def hash_phase_def)
    with half ok show ?thesis
      by (auto simp: allow_def allow_script_def hget_doc_ok spec_allow_def)
  next
    case opened
    then have ph: "br_phase (breaker_abs s b) = Open q"
      by (simp add: breaker_abs_def hash_phase_def)
    show ?thesis
    proof (cases "?cd \<le> now - q")
      case False
      with opened ok ph show ?thesis
        by (auto simp: allow_def allow_script_def hget_doc_ok spec_allow_def)
    next
      case True
      let ?h' = "?h(''state'' \<mapsto> Txt ''half_open'')"
      have "hash_ok ?h'" using hok by (auto simp: hash_ok_def)
      with hset_doc_ok [OF ok, of "[(''state'', Txt ''half_open'')]"]
      obtain s' where s': "doc_hset (breaker_key b) [(''state'', Txt ''half_open'')] s = (Inr (), s')"
        "breaker_hash s' b = ?h'" "breaker_ok s' b"
        by auto
      have "breaker_abs s' b = (breaker_abs s b)\<lparr>br_phase := HalfOpen\<rparr>"
        by (simp add: breaker_abs_def s' hash_phase_def hash_failures_def)
      with True opened ok ph s' show ?thesis
        by (auto simp: allow_def allow_script_def hget_doc_ok spec_allow_def)
    qed
  qed
qed

lemma record_doc:
  assumes ok: "breaker_ok s b"
  shows "\<exists>s' x. breaker_record doc_redis cb b r now s = (Inr x, s') \<and> x = breaker_hash s' b ''state'' \<and>
             breaker_abs s' b = spec_record (of_int (cb_threshold cb)) r now (breaker_abs s b) \<and>
             breaker_ok s' b"
proof -
  let ?h = "breaker_hash s b" and ?th = "of_int (cb_threshold cb) :: rat"
  note hok = breaker_hash_ok [OF ok]
  define n where "n = Suc (hash_failures ?h)"
  have n: "(case tonumber (?h ''failures'') of None \<Rightarrow> 0 | Some x \<Rightarrow> x) + 1 = of_nat n"
    using hok by (auto simp: n_def hash_ok_def hash_failures_def)
  define half where
    "half \<longleftrightarrow> (case ?h ''state'' of None \<Rightarrow> Txt ''closed'' | Some x \<Rightarrow> x) = Txt ''half_open''"
  have half: "half \<longleftrightarrow> br_phase (breaker_abs s b) = HalfOpen"
    using hok by (auto simp: half_def hash_ok_def breaker_abs_def hash_phase_def)
  define fvs where "fvs =
    (if r then [(''state'', Txt ''closed''), (''failures'', Num 0)]
     else if half \<or> ?th \<le> of_nat n
     then [(''state'', Txt ''open''), (''opened_at'', Num now), (''failures'', Num (of_nat n))]
     else [(''failures'', Num (of_nat n))])"
  let ?h' = "fold (\<lambda>(f, v) h. h(f \<mapsto> v)) fvs ?h"
  have zero: "\<exists>n. (0 :: rat) = of_nat n" by (rule exI [of _ 0]) simp
  have hok': "hash_ok ?h'"
    using hok zero by (auto simp: hash_ok_def fvs_def)
  with hset_doc_ok [OF ok, of fvs]
  obtain s' where s': "doc_hset (breaker_key b) fvs s = (Inr (), s')"
    "breaker_hash s' b = ?h'" "breaker_ok s' b"
    by auto
  have run: "breaker_record doc_redis cb b r now s = (Inr (breaker_hash s' b ''state''), s')"
    using s' n ok hget_doc_ok [OF s'(3)]
    by (cases r) (auto simp: breaker_record_def record_script_def hget_doc_ok Let_def fvs_def half_def bindE_def
        split: if_splits)
  have "breaker_abs s' b = spec_record ?th r now (breaker_abs s b)"
    using half
    by (auto simp: breaker_abs_def s' fvs_def spec_record_def Let_def hash_phase_def hash_failures_def n_def
        split: if_splits)
  with run s'(3) show ?thesis by auto
qed

lemma breaker_frames [frames]:
  "frames_key (breaker_key b) (allow doc_redis cb b now)"
  "frames_key (breaker_key b) (breaker_record doc_redis cb b r now)"
  by (auto simp: allow_def allow_script_def breaker_record_def record_script_def Let_def
      intro!: frames split: option.splits)

lemma breaker_abs_frame:
  assumes "frames_key (breaker_key b) m" and "c \<noteq> b"
  shows "breaker_abs (snd (m s)) c = breaker_abs s c" and "breaker_ok (snd (m s)) c = breaker_ok s c"
  using frames_keyD(1) [OF assms(1), of "breaker_key c"] assms(2)
  by (simp_all add: breaker_abs_def breaker_hash_def breaker_ok_def)

context redis_service
begin

lemma allow_sim [act_sims]: "act_sim view (allow R cb b now) (allow doc_redis cb b now)"
  unfolding allow_def allow_script_def doc_redis_sel by (intro act_sims)

lemma record_sim [act_sims]:
  "act_sim view (breaker_record R cb b ok now) (breaker_record doc_redis cb b ok now)"
  unfolding breaker_record_def record_script_def doc_redis_sel Let_def by (intro act_sims)

end

locale breaker_service = redis_service R view
  for R :: "'r redis_api" and view :: "'r \<Rightarrow> keyspace" +
  fixes cb :: CircuitBreaker

sublocale breaker_service \<subseteq> brk: circuit_breaker "allow R cb" "breaker_record R cb"
  "\<lambda>r. breaker_abs (view r)" "\<lambda>r. breaker_ok (view r)"
  "of_int (cb_threshold cb)" "of_int (cb_cooldown cb)"
proof unfold_locales
  fix r b c and now :: rat and ok
  note sims = act_simD [OF allow_sim] act_simD [OF record_sim]
  show "breaker_ok (view r) b \<Longrightarrow> fst (allow R cb b now r) =
      Inr (fst (spec_allow (of_int (cb_cooldown cb)) now (breaker_abs (view r) b)))"
    using allow_doc [of "view r" b cb now] by (auto simp: sims)
  show "breaker_ok (view r) b \<Longrightarrow> breaker_abs (view (snd (allow R cb b now r))) b =
      snd (spec_allow (of_int (cb_cooldown cb)) now (breaker_abs (view r) b))"
    using allow_doc [of "view r" b cb now] by (auto simp: sims)
  show "c \<noteq> b \<Longrightarrow> breaker_abs (view (snd (allow R cb b now r))) c = breaker_abs (view r) c"
    by (simp add: sims breaker_abs_frame [OF breaker_frames(1)])
  show "breaker_ok (view r) c \<Longrightarrow> breaker_ok (view (snd (allow R cb b now r))) c"
    using allow_doc [of "view r" b cb now]
    by (cases "c = b") (auto simp: sims breaker_abs_frame [OF breaker_frames(1)])
  show "breaker_ok (view r) b \<Longrightarrow> \<exists>x. fst (breaker_record R cb b ok now r) = Inr x"
    using record_doc [of "view r" b cb ok now] by (auto simp: sims)
  show "breaker_ok (view r) b \<Longrightarrow> breaker_abs (view (snd (breaker_record R cb b ok now r))) b =
      spec_record (of_int (cb_threshold cb)) ok now (breaker_abs (view r) b)"
    using record_doc [of "view r" b cb ok now] by (auto simp: sims)
  show "c \<noteq> b \<Longrightarrow> breaker_abs (view (snd (breaker_record R cb b ok now r))) c = breaker_abs (view r) c"
    by (simp add: sims breaker_abs_frame [OF breaker_frames(2)])
  show "breaker_ok (view r) c \<Longrightarrow> breaker_ok (view (snd (breaker_record R cb b ok now r))) c"
    using record_doc [of "view r" b cb ok now]
    by (cases "c = b") (auto simp: sims breaker_abs_frame [OF breaker_frames(2)])
qed

interpretation docb: breaker_service doc_redis "\<lambda>s. s" cb for cb
  by unfold_locales

lemma clock_breaker:
  "breaker_ok s b \<Longrightarrow>
     breaker_ok (snd (doc_clock t s)) b \<and> breaker_abs (snd (doc_clock t s)) b = breaker_abs s b"
  by (erule breaker_okE) (simp_all add: doc_clock_def breaker_ok_def breaker_abs_def breaker_hash_def)

context breaker_service
begin

lemma step_linear:
  assumes "breaker_step R cb e r r'" and "breaker_ok (view r) b"
  shows "breaker_ok (view r') b \<and>
         breaker_abs (view r') b = spec_event cb b e (breaker_abs (view r) b)"
  using assms
proof cases
  case (check c now)
  then show ?thesis
    using assms(2) brk.check_ok brk.check_state brk.check_other by (cases "c = b") auto
next
  case (report c ok now)
  then show ?thesis
    using assms(2) brk.report_ok brk.report_state brk.report_other by (cases "c = b") auto
next
  case (clock t)
  then show ?thesis
    using clock_breaker [OF assms(2), of t] act_simD [OF clock_doc, of t r] by simp
qed

lemma run_linear:
  assumes "breaker_run R cb r es r'" and "breaker_ok (view r) b"
  shows "breaker_ok (view r') b \<and>
         breaker_abs (view r') b = fold (spec_event cb b) es (breaker_abs (view r) b)"
  using assms
proof (induction rule: breaker_run.induct)
  case (run_nil r)
  then show ?case by simp
next
  case (run_step r es r' e r'')
  then show ?case using step_linear [of e r' r'' b] by simp
qed

lemma allowed_below_threshold:
  assumes ok: "breaker_ok (view r) b" and init: "br_phase (breaker_abs (view r) b) = Closed"
      "br_failures (breaker_abs (view r) b) = 0"
    and few: "int (length ts) < cb_threshold cb"
  shows "fst (allow R cb b now (failing_run (breaker_record R cb) b ts r)) = Inr True"
proof -
  have "(of_nat (0 + length ts) :: rat) < of_int (cb_threshold cb)"
    using few by (metis add_0 of_int_less_iff of_int_of_nat_eq)
  with brk.closed_stays_closed [OF ok init(1), of ts] init(2)
  have "br_phase (breaker_abs (view (failing_run (breaker_record R cb) b ts r)) b) = Closed"
    by simp
  with brk.failing_ok [OF ok] show ?thesis
    by (simp add: brk.check_result spec_allow_def)
qed

lemmas check_result = brk.check_result
lemmas probe_after_cooldown = brk.probe_after_cooldown
lemmas half_open_report = brk.half_open_report
lemmas half_open_admits_all = brk.half_open_admits_all
lemmas success_resets = brk.success_resets
lemmas report_state = brk.report_state
lemmas check_ok = brk.check_ok
lemmas report_ok = brk.report_ok

lemma refused_at_threshold:
  assumes ok: "breaker_ok (view r) b" and init: "br_phase (breaker_abs (view r) b) = Closed"
      "br_failures (breaker_abs (view r) b) = 0"
    and few: "int (length ts) + 1 = cb_threshold cb" and "now - t < of_int (cb_cooldown cb)"
  shows "fst (allow R cb b now (failing_run (breaker_record R cb) b (ts @ [t]) r)) = Inr False"
proof -
  have "of_int (cb_threshold cb) = (of_nat (length ts) + 1 :: rat)"
    by (simp flip: few)
  then have "br_phase (breaker_abs (view (failing_run (breaker_record R cb) b (ts @ [t]) r)) b) = Open t"
    using init(2) by (intro brk.trips_at_threshold [OF ok init(1)]) simp_all
  with brk.failing_ok [OF ok] assms(5) show ?thesis
    by (intro brk.open_refuses)
qed

end

section \<open>Properties\<close>

lemma empty_breaker [simp]:
  "breaker_ok empty_keyspace b" "breaker_hash empty_keyspace b = Map.empty"
  "breaker_abs empty_keyspace b = \<lparr>br_phase = Closed, br_failures = 0\<rparr>"
  by (simp_all add: breaker_ok_def breaker_abs_def breaker_hash_def empty_keyspace_def
      hash_phase_def hash_failures_def)

text \<open>
  C29. The breaker trips exactly at the failure threshold. From a closed breaker with no
  recorded failure, after any smaller number of failures the backend is still allowed, and
  once the threshold-th failure is recorded (at time \<open>t\<close>) the backend is refused until the
  cooldown has passed. On every Redis server with the documented commands.
\<close>

theorem breaker_trips_at_threshold:
  assumes "redis_service R view" and "breaker_ok (view r) b"
    and "breaker_abs (view r) b = \<lparr>br_phase = Closed, br_failures = 0\<rparr>"
    and "int (length ts) + 1 = cb_threshold cb"
    and "now - t < of_int (cb_cooldown cb)"
  shows "(\<forall>k now'. fst (allow R cb b now' (failing_run (breaker_record R cb) b (take k ts) r)) = Inr True) \<and>
         fst (allow R cb b now (failing_run (breaker_record R cb) b (ts @ [t]) r)) = Inr False"
proof (intro conjI allI)
  have loc: "breaker_service R view" using assms(1) by (rule breaker_service.intro)
  show "fst (allow R cb b now' (failing_run (breaker_record R cb) b (take k ts) r)) = Inr True" for k now'
    using assms(2-4) by (intro breaker_service.allowed_below_threshold [OF loc]) auto
  show "fst (allow R cb b now (failing_run (breaker_record R cb) b (ts @ [t]) r)) = Inr False"
    using assms(2-5) by (intro breaker_service.refused_at_threshold [OF loc]) auto
qed

theorem breaker_trips_at_threshold_witness:
  "fst (allow doc_redis \<lparr>cb_threshold = 3, cb_cooldown = 30\<rparr> ''b1'' 25
     (failing_run (breaker_record doc_redis \<lparr>cb_threshold = 3, cb_cooldown = 30\<rparr>) ''b1'' [10, 11] empty_keyspace))
       = Inr True \<and>
   fst (allow doc_redis \<lparr>cb_threshold = 3, cb_cooldown = 30\<rparr> ''b1'' 25
     (failing_run (breaker_record doc_redis \<lparr>cb_threshold = 3, cb_cooldown = 30\<rparr>) ''b1'' [10, 11, 12] empty_keyspace))
       = Inr False"
proof -
  let ?cb = "\<lparr>cb_threshold = 3, cb_cooldown = 30\<rparr>"
  have "(\<forall>k now'. fst (allow doc_redis ?cb ''b1'' now' (failing_run (breaker_record doc_redis ?cb) ''b1''
            (take k [10, 11]) empty_keyspace)) = Inr True) \<and>
        fst (allow doc_redis ?cb ''b1'' 25 (failing_run (breaker_record doc_redis ?cb) ''b1''
            ([10, 11] @ [12]) empty_keyspace)) = Inr False"
    by (rule breaker_trips_at_threshold [OF docr.redis_service_axioms]) simp_all
  from conjunct1 [OF this, rule_format, of 25 2] conjunct2 [OF this] show ?thesis by simp
qed

text \<open>
  C8. Refinement under interleaving. Any sequence of atomic script runs by any number of
  gateways, with the server's clock moving in between, leaves every backend in a well-formed
  state that is exactly the state of the abstract closed/open/half-open machine after the
  same events; in particular no check ever fails with a script or type error.
\<close>

theorem breaker_runs_linearize:
  assumes "redis_service R view" and "breaker_run R cb r es r'" and "breaker_ok (view r) b"
  shows "breaker_abs (view r') b = fold (spec_event cb b) es (breaker_abs (view r) b) \<and>
         breaker_ok (view r') b \<and>
         fst (allow R cb b now r') =
           Inr (fst (spec_allow (of_int (cb_cooldown cb)) now
                 (fold (spec_event cb b) es (breaker_abs (view r) b))))"
proof -
  have loc: "breaker_service R view" using assms(1) by (rule breaker_service.intro)
  show ?thesis
    using breaker_service.run_linear [OF loc assms(2,3)] breaker_service.check_result [OF loc]
    by simp
qed

theorem breaker_runs_linearize_witness:
  "breaker_run doc_redis \<lparr>cb_threshold = 1, cb_cooldown = 30\<rparr> empty_keyspace [ReportEv ''b1'' False 7]
     (snd (breaker_record doc_redis \<lparr>cb_threshold = 1, cb_cooldown = 30\<rparr> ''b1'' False 7 empty_keyspace)) \<and>
   fst (allow doc_redis \<lparr>cb_threshold = 1, cb_cooldown = 30\<rparr> ''b1'' 8
     (snd (breaker_record doc_redis \<lparr>cb_threshold = 1, cb_cooldown = 30\<rparr> ''b1'' False 7 empty_keyspace)))
     = Inr False"
proof -
  let ?cb = "\<lparr>cb_threshold = 1, cb_cooldown = 30\<rparr>"
  let ?r = "snd (breaker_record doc_redis ?cb ''b1'' False 7 empty_keyspace)"
  have run: "breaker_run doc_redis ?cb empty_keyspace [ReportEv ''b1'' False 7] ?r"
    using run_step [OF run_nil breaker_step.report] by simp
  show ?thesis
    using run breaker_runs_linearize [OF docr.redis_service_axioms run, of "''b1''" 8]
    by (simp add: spec_record_def spec_allow_def Let_def)
qed



text \<open>
  C38. A half-open breaker lets every caller through, not one probe: however many checks
  arrive before a result is reported, each is allowed and the state stays half-open.
\<close>

theorem breaker_half_open_admits_every_caller:
  assumes "redis_service R view" and "breaker_ok (view r) b"
    and "br_phase (breaker_abs (view r) b) = HalfOpen"
    and "breaker_run R cb r (map (CheckEv b) nows) r'"
  shows "fst (allow R cb b now r') = Inr True"
proof -
  have loc: "breaker_service R view" using assms(1) by (rule breaker_service.intro)
  have stay: "br_phase (fold (spec_event cb b) (map (CheckEv b) nows) st) = HalfOpen"
    if "br_phase st = HalfOpen" for st
    using that by (induction nows arbitrary: st) (auto simp: spec_allow_def)
  have "breaker_ok (view r') b" and "br_phase (breaker_abs (view r') b) = HalfOpen"
    using breaker_service.run_linear [OF loc assms(4,2)] stay assms(3) by simp_all
  then show ?thesis by (rule breaker_service.half_open_admits_all(1) [OF loc])
qed

definition half_open_example :: keyspace where
  "half_open_example =
     \<lparr>ks_data = [''breaker:b1'' \<mapsto>
        (RHash [''state'' \<mapsto> Txt ''half_open'', ''failures'' \<mapsto> Num 1, ''opened_at'' \<mapsto> Num 7], None)],
      ks_now = 0\<rparr>"

theorem breaker_half_open_admits_every_caller_witness:
  "fst (allow doc_redis \<lparr>cb_threshold = 1, cb_cooldown = 0\<rparr> ''b1'' 8 half_open_example) = Inr True"
proof -
  have "hash_ok [''state'' \<mapsto> Txt ''half_open'', ''failures'' \<mapsto> Num 1, ''opened_at'' \<mapsto> Num 7]"
    unfolding hash_ok_def by (auto intro: exI [of _ 1])
  then have ok: "breaker_ok half_open_example ''b1''"
    by (simp add: breaker_ok_def half_open_example_def breaker_key_def)
  moreover have "br_phase (breaker_abs half_open_example ''b1'') = HalfOpen"
    by (simp add: half_open_example_def breaker_abs_def breaker_hash_def breaker_key_def hash_phase_def)
  moreover have "breaker_run doc_redis cb half_open_example (map (CheckEv ''b1'') []) half_open_example" for cb
    by (simp add: run_nil)
  ultimately show ?thesis
    by (intro breaker_half_open_admits_every_caller [OF docr.redis_service_axioms])
qed

end
