(* ===== verification/Orchestrator.thy ===== *)
theory Orchestrator
  imports Registry Cache Routing RateLimit Breaker
begin

text \<open>
  The request pipeline, \<^verbatim>\<open>gateway/orchestrator.py\<close>. \<open>handle_complete\<close> and
  \<open>handle_stream\<close> are the two handlers, composed of the components as the code composes
  them: reserve, look up the caches, walk the candidates, settle the reservation, log.

  \<open>or_calls\<close> is the trace of the calls to model clients, \<open>or_output\<close> what the streaming
  generator has yielded, \<open>or_metrics\<close> what the metrics sink received. A call runs under a
  semaphore of its backend and under the request timeout: it completes when it ends before the
  deadline. While a semaphore has no free slot the call waits until another request gives one up,
  which is a reading of \<open>gv_slot_granted\<close>.
\<close>

section \<open>State and parameters\<close>

datatype metric =
    Incr string "(string \<times> string) list"
  | Observe string rat "(string \<times> string) list"

record 'r orchestrator_state = "'r gateway" +
  or_semaphores :: "uuid \<rightharpoonup> int"
  or_calls :: "uuid list"
  or_output :: "(string + CompletionResult) list"
  or_metrics :: "metric list"

record 'r orchestrator_services = "'r gateway_services" +
  gv_slot_granted :: "nat \<Rightarrow> bool"

record 'r RequestOrchestrator =
  ro_cache :: TwoTierCache
  ro_breaker :: CircuitBreaker
  ro_latency_tracker :: LatencyTracker
  ro_policy :: "'r policy"
  ro_timeout :: rat
  ro_per_backend_concurrency :: int
  ro_metrics :: bool

section \<open>Features of a request\<close>

definition total_chars :: "ChatMessage list \<Rightarrow> int" where
  "total_chars messages = (\<Sum>m \<leftarrow> messages. int (length (m_content m)))"

definition estimate_tokens :: "ChatMessage list \<Rightarrow> int" where
  "estimate_tokens messages = max 1 (total_chars messages div 4)"

definition estimate_complexity :: "ChatMessage list \<Rightarrow> rat" where
  "estimate_complexity messages = min 1 (of_int (total_chars messages) / 2000)"

definition prompt_raw :: "string \<Rightarrow> ChatMessage list \<Rightarrow> string" where
  "prompt_raw model messages =
     model @ ''|'' @ join ''|'' (map (\<lambda>m. m_role m @ '':'' @ m_content m) messages)"

definition prompt_hash :: "(string \<Rightarrow> string) \<Rightarrow> string \<Rightarrow> ChatMessage list \<Rightarrow> string" where
  "prompt_hash sha256_hex model messages = sha256_hex (prompt_raw model messages)"

definition prompt_text :: "ChatMessage list \<Rightarrow> string" where
  "prompt_text messages = join [char_of (10 :: nat)] (map m_content messages)"

section \<open>Calls to the components\<close>

text \<open>Python's \<open>int\<close> on a float: truncation towards zero.\<close>

definition int_trunc :: "rat \<Rightarrow> int" where
  "int_trunc q = (if 0 \<le> q then \<lfloor>q\<rfloor> else \<lceil>q\<rceil>)"

definition elapsed_ms ::
  "('r, 's) services_scheme \<Rightarrow> rat \<Rightarrow> (('r, 'z) node_scheme, int) act" where
  "elapsed_ms S start = bindE (reading (sv_perf_counter S)) (\<lambda>now. returnE (int_trunc ((now - start) * 1000)))"

definition limiter_reserve ::
  "('r, 's) services_scheme \<Rightarrow> ApiKey \<Rightarrow> int \<Rightarrow> (('r, 'z) node_scheme, string option) act" where
  "limiter_reserve S api_key est_tokens =
     bindE (reading (sv_uuid4 S)) (\<lambda>u.
     bindE (reading (sv_time S)) (\<lambda>now.
     redis_call S (reserve (sv_redis S) (uuid_str (ak_id api_key)) est_tokens
       (ak_token_budget api_key) (ak_window_seconds api_key) u now)))"

definition limiter_reconcile ::
  "('r, 's) services_scheme \<Rightarrow> ApiKey \<Rightarrow> string \<Rightarrow> int \<Rightarrow> (('r, 'z) node_scheme, unit) act" where
  "limiter_reconcile S api_key reservation actual_tokens =
     bindE (reading (sv_time S)) (\<lambda>now.
     redis_call S (reconcile (sv_redis S) (uuid_str (ak_id api_key)) reservation actual_tokens now))"

definition check_breaker ::
  "('r, 's) services_scheme \<Rightarrow> CircuitBreaker \<Rightarrow> Backend \<Rightarrow> (('r, 'z) node_scheme, bool) act" where
  "check_breaker S cb backend =
     bindE (reading (sv_time S)) (\<lambda>now. redis_call S (allow (sv_redis S) cb (uuid_str (b_id backend)) now))"

definition record_outcome ::
  "('r, 's) services_scheme \<Rightarrow> CircuitBreaker \<Rightarrow> Backend \<Rightarrow> bool \<Rightarrow> (('r, 'z) node_scheme, unit) act" where
  "record_outcome S cb backend ok =
     bindE (reading (sv_time S)) (\<lambda>now.
     bindE (redis_call S (breaker_record (sv_redis S) cb (uuid_str (b_id backend)) ok now)) (\<lambda>_. returnE ()))"

definition record_latency ::
  "('r, 's) services_scheme \<Rightarrow> LatencyTracker \<Rightarrow> Backend \<Rightarrow> int \<Rightarrow> (('r, 'z) node_scheme, unit) act" where
  "record_latency S lt backend latency_ms =
     redis_call S (latency_record (sv_redis S) lt (uuid_str (b_id backend)) (of_int latency_ms))"

definition log_request ::
  "('r, 's) services_scheme \<Rightarrow> ApiKey \<Rightarrow> string \<Rightarrow> int \<Rightarrow> int \<Rightarrow> uuid option \<Rightarrow> string option \<Rightarrow> int \<Rightarrow> int \<Rightarrow>
   rat \<Rightarrow> string option \<Rightarrow> (('r, 'z) node_scheme, unit) act" where
  "log_request S api_key model latency_ms status backend_id cache_tier tokens_in tokens_out cost finish_reason =
     bindE (reading (sv_uuid4 S)) (\<lambda>u.
     bindE (reading (sv_db_now S)) (\<lambda>ts.
     bindE (on_db (request_log_insert u ts (ak_id api_key) model latency_ms status backend_id cache_tier
              tokens_in tokens_out cost finish_reason)) (\<lambda>_. returnE ())))"

definition emit ::
  "'r RequestOrchestrator \<Rightarrow> metric \<Rightarrow> (('r, 'z) orchestrator_state_scheme, unit) act" where
  "emit ro metric =
     (if ro_metrics ro then state_write (\<lambda>w. w\<lparr>or_metrics := or_metrics w @ [metric]\<rparr>) else returnE ())"

definition yield_item :: "string + CompletionResult \<Rightarrow> (('r, 'z) orchestrator_state_scheme, unit) act" where
  "yield_item item = state_write (\<lambda>w. w\<lparr>or_output := or_output w @ [item]\<rparr>)"

section \<open>Semaphores and timeouts\<close>

definition semaphore_for :: "int \<Rightarrow> uuid \<Rightarrow> (('r, 'z) orchestrator_state_scheme, unit) act" where
  "semaphore_for limit backend_id =
     bindE (state_read or_semaphores) (\<lambda>sems.
       case sems backend_id of
         Some _ \<Rightarrow> returnE ()
       | None \<Rightarrow>
           if limit < 0 then raiseE (ValueError ''Semaphore initial value must be >= 0'')
           else state_write (\<lambda>w. w\<lparr>or_semaphores := (or_semaphores w)(backend_id \<mapsto> limit)\<rparr>))"

definition free_slots :: "uuid \<Rightarrow> ('r, 'z) orchestrator_state_scheme \<Rightarrow> int" where
  "free_slots backend_id w = (case or_semaphores w backend_id of None \<Rightarrow> 0 | Some v \<Rightarrow> v)"

definition set_slots :: "uuid \<Rightarrow> int \<Rightarrow> ('r, 'z) orchestrator_state_scheme \<Rightarrow> ('r, 'z) orchestrator_state_scheme" where
  "set_slots backend_id v w = w\<lparr>or_semaphores := (or_semaphores w)(backend_id \<mapsto> v)\<rparr>"

definition acquire ::
  "('r, 's) orchestrator_services_scheme \<Rightarrow> int \<Rightarrow> uuid \<Rightarrow> (('r, 'z) orchestrator_state_scheme, unit) act" where
  "acquire S limit backend_id =
     bindE (state_read (free_slots backend_id)) (\<lambda>v.
       if 0 < v then state_write (set_slots backend_id (v - 1))
       else bindE (reading (gv_slot_granted S)) (\<lambda>granted.
         if 0 < limit \<and> granted then returnE () else raiseE Blocked))"

definition release :: "uuid \<Rightarrow> (('r, 'z) orchestrator_state_scheme, unit) act" where
  "release backend_id = state_write (\<lambda>w. set_slots backend_id (free_slots backend_id w + 1) w)"

definition under_semaphore ::
  "('r, 's) orchestrator_services_scheme \<Rightarrow> int \<Rightarrow> uuid \<Rightarrow> (('r, 'z) orchestrator_state_scheme, 'a) act \<Rightarrow>
   (('r, 'z) orchestrator_state_scheme, 'a) act" where
  "under_semaphore S limit backend_id body =
     bindE (semaphore_for limit backend_id) (\<lambda>_.
     bindE (acquire S limit backend_id) (\<lambda>_. finallyE body (release backend_id)))"

definition note_call :: "uuid \<Rightarrow> (('r, 'z) orchestrator_state_scheme, unit) act" where
  "note_call backend_id = state_write (\<lambda>w. w\<lparr>or_calls := or_calls w @ [backend_id]\<rparr>)"

definition call_complete ::
  "('r, 's) orchestrator_services_scheme \<Rightarrow> rat \<Rightarrow> ChatMessage list \<Rightarrow> Backend \<Rightarrow> live_client \<Rightarrow>
   (('r, 'z) orchestrator_state_scheme, Completion) act" where
  "call_complete S timeout messages backend client =
     bindE (note_call (b_id backend)) (\<lambda>_.
     bindE (reading (gv_complete S)) (\<lambda>answer.
       let (duration, outcome) = answer client messages (b_model backend) in
       if duration < timeout then liftE outcome else raiseE TimeoutError))"

section \<open>The failover walk\<close>

definition select_candidate ::
  "('r, 's) services_scheme \<Rightarrow> 'r policy \<Rightarrow> RequestFeatures \<Rightarrow> (Backend \<times> live_client) list \<Rightarrow>
   (('r, 'z) node_scheme, (Backend \<times> live_client) \<times> (Backend \<times> live_client) list) act" where
  "select_candidate S policy features remaining =
     bindE (redis_call S (policy (map fst remaining) features)) (\<lambda>chosen.
       case find (\<lambda>pair. b_id (fst pair) = b_id chosen) remaining of
         None \<Rightarrow> raiseE (RuntimeError ''StopIteration'')
       | Some pair \<Rightarrow> returnE (pair, filter (\<lambda>pair. b_id (fst pair) \<noteq> b_id chosen) remaining))"

lemma select_candidate_shrinks:
  "select_candidate S policy features remaining w = (Inr (pair, rest), w') \<Longrightarrow> length rest < length remaining"
  by (auto simp: select_candidate_def bindE_eq_Inr dest: length_filter_find split: option.splits)

text \<open>
  The \<open>while remaining\<close> loop. The body either continues with an error to remember (\<open>Inl\<close>) or
  returns from the handler (\<open>Inr\<close>); the loop gives the last error when no candidate is left.
\<close>

function failover ::
  "('r, 's) services_scheme \<Rightarrow> 'r policy \<Rightarrow> RequestFeatures \<Rightarrow>
   (Backend \<times> live_client \<Rightarrow> exn option \<Rightarrow> (('r, 'z) node_scheme, exn option + 'a) act) \<Rightarrow>
   (Backend \<times> live_client) list \<Rightarrow> exn option \<Rightarrow> (('r, 'z) node_scheme, exn option + 'a) act" where
  "failover S policy features body remaining last_error w =
     (if remaining = [] then (Inr (Inl last_error), w)
      else case select_candidate S policy features remaining w of
        (Inl e, w1) \<Rightarrow> (Inl e, w1)
      | (Inr (pair, rest), w1) \<Rightarrow>
          (case body pair last_error w1 of
             (Inl e, w2) \<Rightarrow> (Inl e, w2)
           | (Inr (Inl last_error'), w2) \<Rightarrow> failover S policy features body rest last_error' w2
           | (Inr (Inr result), w2) \<Rightarrow> (Inr (Inr result), w2)))"
  by pat_completeness auto

termination
  by (relation "measure (\<lambda>(S, policy, features, body, remaining, last_error, w). length remaining)")
    (auto dest: select_candidate_shrinks [OF sym])

declare failover.simps [simp del]

section \<open>Completion\<close>

definition request_cost :: "Backend \<Rightarrow> int \<Rightarrow> int \<Rightarrow> rat" where
  "request_cost backend tokens_in tokens_out =
     b_cost_per_1k_in backend * of_int tokens_in / 1000 + b_cost_per_1k_out backend * of_int tokens_out / 1000"

definition hit_result :: "string \<Rightarrow> CacheHit \<Rightarrow> CompletionResult" where
  "hit_result model hit =
     \<lparr>cr_content = ch_content hit, cr_model = model, cr_tokens_in = ch_tokens_in hit,
      cr_tokens_out = ch_tokens_out hit, cr_finish_reason = None, cr_cache_tier = Some (ch_tier hit),
      cr_backend_name = None\<rparr>"

text \<open>The cache hit branch up to its result, the same in both handlers.\<close>

definition serve_hit ::
  "('r, 's) services_scheme \<Rightarrow> 'r RequestOrchestrator \<Rightarrow> ApiKey \<Rightarrow> string \<Rightarrow> rat \<Rightarrow> string \<Rightarrow> CacheHit \<Rightarrow>
   (('r, 'z) orchestrator_state_scheme, unit) act" where
  "serve_hit S ro api_key model start reservation hit =
     bindE (limiter_reconcile S api_key reservation (ch_tokens_in hit + ch_tokens_out hit)) (\<lambda>_.
     bindE (elapsed_ms S start) (\<lambda>latency_ms.
     bindE (log_request S api_key model latency_ms 200 None (Some (cache_tier_value (ch_tier hit)))
              (ch_tokens_in hit) (ch_tokens_out hit) 0 None) (\<lambda>_.
     emit ro (Incr ''gateway_cache_hits_total'' [(''tier'', cache_tier_value (ch_tier hit))]))))"

definition completion_result :: "Backend \<Rightarrow> Completion \<Rightarrow> CompletionResult" where
  "completion_result backend completion =
     \<lparr>cr_content = c_content completion, cr_model = b_model backend, cr_tokens_in = c_tokens_in completion,
      cr_tokens_out = c_tokens_out completion, cr_finish_reason = Some ''stop'', cr_cache_tier = None,
      cr_backend_name = Some (b_name backend)\<rparr>"

definition complete_success ::
  "('r, 's) services_scheme \<Rightarrow> 'r RequestOrchestrator \<Rightarrow> ApiKey \<Rightarrow> string \<Rightarrow> string \<Rightarrow> string \<Rightarrow> bool \<Rightarrow> rat \<Rightarrow>
   string \<Rightarrow> Backend \<Rightarrow> Completion \<Rightarrow> (('r, 'z) orchestrator_state_scheme, CompletionResult) act" where
  "complete_success S ro api_key model p_hash p_text bypass_cache start reservation backend completion =
     bindE (elapsed_ms S start) (\<lambda>latency_ms.
     bindE (record_outcome S (ro_breaker ro) backend True) (\<lambda>_.
     bindE (record_latency S (ro_latency_tracker ro) backend latency_ms) (\<lambda>_.
     bindE (if bypass_cache then returnE ()
            else cache_put S (ro_cache ro) model p_hash p_text (c_content completion)
                   (c_tokens_in completion) (c_tokens_out completion)) (\<lambda>_.
     bindE (limiter_reconcile S api_key reservation (c_tokens_in completion + c_tokens_out completion)) (\<lambda>_.
     bindE (log_request S api_key model latency_ms 200 (Some (b_id backend)) None (c_tokens_in completion)
              (c_tokens_out completion) (request_cost backend (c_tokens_in completion) (c_tokens_out completion))
              (Some ''stop'')) (\<lambda>_.
     bindE (emit ro (Incr ''gateway_backend_calls_total'' [(''backend'', b_name backend), (''outcome'', ''ok'')])) (\<lambda>_.
     bindE (emit ro (Observe ''gateway_request_latency_seconds'' (of_int latency_ms / 1000) [(''cache'', ''miss'')])) (\<lambda>_.
     returnE (completion_result backend completion)))))))))"

text \<open>What follows the call, for each way it can end.\<close>

definition complete_outcome ::
  "('r, 's) services_scheme \<Rightarrow> 'r RequestOrchestrator \<Rightarrow> ApiKey \<Rightarrow> string \<Rightarrow> string \<Rightarrow> string \<Rightarrow> bool \<Rightarrow> rat \<Rightarrow>
   string \<Rightarrow> Backend \<Rightarrow> exn + Completion \<Rightarrow> (('r, 'z) orchestrator_state_scheme, exn option + CompletionResult) act" where
  "complete_outcome S ro api_key model p_hash p_text bypass_cache start reservation backend outcome =
     (case outcome of
        Inl exc \<Rightarrow>
          bindE (record_outcome S (ro_breaker ro) backend False) (\<lambda>_.
          bindE (emit ro (Incr ''gateway_backend_calls_total''
                            [(''backend'', b_name backend), (''outcome'', ''error'')])) (\<lambda>_.
          returnE (Inl (Some exc))))
      | Inr completion \<Rightarrow>
          bindE (complete_success S ro api_key model p_hash p_text bypass_cache start reservation
                   backend completion) (\<lambda>result. returnE (Inr result)))"

definition complete_body ::
  "('r, 's) orchestrator_services_scheme \<Rightarrow> 'r RequestOrchestrator \<Rightarrow> ApiKey \<Rightarrow> string \<Rightarrow> ChatMessage list \<Rightarrow>
   string \<Rightarrow> string \<Rightarrow> bool \<Rightarrow> rat \<Rightarrow> string \<Rightarrow> Backend \<times> live_client \<Rightarrow> exn option \<Rightarrow>
   (('r, 'z) orchestrator_state_scheme, exn option + CompletionResult) act" where
  "complete_body S ro api_key model messages p_hash p_text bypass_cache start reservation pair last_error =
     (let (backend, client) = pair in
      bindE (check_breaker S (ro_breaker ro) backend) (\<lambda>allowed.
        if \<not> allowed then returnE (Inl last_error)
        else bindE (tryE (under_semaphore S (ro_per_backend_concurrency ro) (b_id backend)
                            (call_complete S (ro_timeout ro) messages backend client)))
               (complete_outcome S ro api_key model p_hash p_text bypass_cache start reservation backend)))"

definition lookup ::
  "('r, 's) services_scheme \<Rightarrow> 'r RequestOrchestrator \<Rightarrow> bool \<Rightarrow> string \<Rightarrow> string \<Rightarrow> string \<Rightarrow>
   (('r, 'z) node_scheme, CacheHit option) act" where
  "lookup S ro bypass_cache model p_hash p_text =
     (if bypass_cache then returnE None else cache_get S (ro_cache ro) model p_hash p_text)"

definition request_features :: "string \<Rightarrow> ChatMessage list \<Rightarrow> RequestFeatures" where
  "request_features model messages =
     \<lparr>f_model = model, f_est_tokens_in = estimate_tokens messages, f_complexity = estimate_complexity messages\<rparr>"

text \<open>What follows a walk in which no candidate answered.\<close>

definition complete_exhausted ::
  "('r, 's) services_scheme \<Rightarrow> 'r RequestOrchestrator \<Rightarrow> ApiKey \<Rightarrow> string \<Rightarrow> rat \<Rightarrow> exn option \<Rightarrow>
   (('r, 'z) orchestrator_state_scheme, CompletionResult) act" where
  "complete_exhausted S ro api_key model start last_error =
     bindE (elapsed_ms S start) (\<lambda>latency_ms.
     bindE (log_request S api_key model latency_ms 503 None None 0 0 0 None) (\<lambda>_.
     bindE (emit ro (Incr ''gateway_failover_total'' [])) (\<lambda>_.
     raiseE (AllBackendsUnavailable last_error))))"


definition complete_walk ::
  "('r, 's) orchestrator_services_scheme \<Rightarrow> 'r RequestOrchestrator \<Rightarrow> ApiKey \<Rightarrow> string \<Rightarrow> ChatMessage list \<Rightarrow>
   bool \<Rightarrow> rat \<Rightarrow> string \<Rightarrow> (Backend \<times> live_client) list \<Rightarrow>
   (('r, 'z) orchestrator_state_scheme, CompletionResult) act" where
  "complete_walk S ro api_key model messages bypass_cache start reservation remaining =
     bindE (failover S (ro_policy ro) (request_features model messages)
              (complete_body S ro api_key model messages (prompt_hash (sv_sha256_hex S) model messages)
                 (prompt_text messages) bypass_cache start reservation) remaining None) (\<lambda>outcome.
       case outcome of
         Inr result \<Rightarrow> returnE result
       | Inl last_error \<Rightarrow> complete_exhausted S ro api_key model start last_error)"

definition handle_complete ::
  "('r, 's) orchestrator_services_scheme \<Rightarrow> 'r RequestOrchestrator \<Rightarrow> ApiKey \<Rightarrow> string \<Rightarrow> ChatMessage list \<Rightarrow>
   bool \<Rightarrow> (('r, 'z) orchestrator_state_scheme, CompletionResult) act" where
  "handle_complete S ro api_key model messages bypass_cache =
     bindE (reading (sv_perf_counter S)) (\<lambda>start.
     bindE (limiter_reserve S api_key (estimate_tokens messages)) (\<lambda>reservation_opt.
       case reservation_opt of
         None \<Rightarrow> raiseE RateLimitExceeded
       | Some reservation \<Rightarrow>
           bindE (lookup S ro bypass_cache model (prompt_hash (sv_sha256_hex S) model messages)
                    (prompt_text messages)) (\<lambda>hit_opt.
             case hit_opt of
               Some hit \<Rightarrow>
                 bindE (serve_hit S ro api_key model start reservation hit) (\<lambda>_. returnE (hit_result model hit))
             | None \<Rightarrow>
                 bindE (candidates model) (\<lambda>remaining.
                   if remaining = [] then raiseE NoBackendsAvailable
                   else complete_walk S ro api_key model messages bypass_cache start reservation remaining))))"

section \<open>Streaming\<close>

record stream_locals =
  sl_accumulated :: "string list"
  sl_usage :: "Usage option"
  sl_any_yielded :: bool

fun consume_stream ::
  "rat \<Rightarrow> (rat \<times> StreamEvent) list \<Rightarrow> rat \<times> exn option \<Rightarrow> stream_locals \<Rightarrow>
   (('r, 'z) orchestrator_state_scheme, stream_locals \<times> exn option) act" where
  "consume_stream timeout [] (finish, failure) locals =
     returnE (locals, if finish < timeout then failure else Some TimeoutError)"
| "consume_stream timeout ((arrival, event) # events) ending locals =
     (if \<not> arrival < timeout then returnE (locals, Some TimeoutError)
      else case event of
        UsageEvent u \<Rightarrow> consume_stream timeout events ending (locals\<lparr>sl_usage := Some u\<rparr>)
      | Text chunk \<Rightarrow>
          bindE (yield_item (Inl chunk)) (\<lambda>_.
          consume_stream timeout events ending
            (locals\<lparr>sl_accumulated := sl_accumulated locals @ [chunk], sl_any_yielded := True\<rparr>)))"

definition no_locals :: stream_locals where
  "no_locals = \<lparr>sl_accumulated = [], sl_usage = None, sl_any_yielded = False\<rparr>"

definition call_stream ::
  "('r, 's) orchestrator_services_scheme \<Rightarrow> rat \<Rightarrow> ChatMessage list \<Rightarrow> Backend \<Rightarrow> live_client \<Rightarrow>
   (('r, 'z) orchestrator_state_scheme, stream_locals \<times> exn option) act" where
  "call_stream S timeout messages backend client =
     bindE (note_call (b_id backend)) (\<lambda>_.
     bindE (reading (gv_stream S)) (\<lambda>answer.
       let (events, ending) = answer client messages (b_model backend) in
       consume_stream timeout events ending no_locals))"

text \<open>
  The \<open>try\<close> block with the locals its handler reads. An exception of the stream leaves the
  semaphore before the handler sees it.
\<close>

definition stream_attempt ::
  "('r, 's) orchestrator_services_scheme \<Rightarrow> 'r RequestOrchestrator \<Rightarrow> ChatMessage list \<Rightarrow> Backend \<Rightarrow> live_client \<Rightarrow>
   (('r, 'z) orchestrator_state_scheme, stream_locals \<times> exn option) act" where
  "stream_attempt S ro messages backend client =
     bindE (tryE (under_semaphore S (ro_per_backend_concurrency ro) (b_id backend)
                    (call_stream S (ro_timeout ro) messages backend client))) (\<lambda>outcome.
       case outcome of
         Inl exc \<Rightarrow> returnE (no_locals, Some exc)
       | Inr (locals, None) \<Rightarrow> returnE (locals, None)
       | Inr (locals, Some exc) \<Rightarrow>
           if is_Exception exc then returnE (locals, Some exc) else raiseE exc)"

definition usage_tokens_in :: "stream_locals \<Rightarrow> int" where
  "usage_tokens_in locals = (case sl_usage locals of None \<Rightarrow> 0 | Some u \<Rightarrow> u_tokens_in u)"

definition usage_tokens_out :: "stream_locals \<Rightarrow> int" where
  "usage_tokens_out locals = (case sl_usage locals of None \<Rightarrow> 0 | Some u \<Rightarrow> u_tokens_out u)"

definition usage_finish_reason :: "stream_locals \<Rightarrow> string" where
  "usage_finish_reason locals = (case sl_usage locals of None \<Rightarrow> ''stop'' | Some u \<Rightarrow> u_finish_reason u)"

definition stream_result :: "Backend \<Rightarrow> stream_locals \<Rightarrow> CompletionResult" where
  "stream_result backend locals =
     \<lparr>cr_content = concat (sl_accumulated locals), cr_model = b_model backend,
      cr_tokens_in = usage_tokens_in locals, cr_tokens_out = usage_tokens_out locals,
      cr_finish_reason = Some (usage_finish_reason locals), cr_cache_tier = None,
      cr_backend_name = Some (b_name backend)\<rparr>"

definition stream_success ::
  "('r, 's) services_scheme \<Rightarrow> 'r RequestOrchestrator \<Rightarrow> ApiKey \<Rightarrow> string \<Rightarrow> string \<Rightarrow> string \<Rightarrow> bool \<Rightarrow> rat \<Rightarrow>
   string \<Rightarrow> Backend \<Rightarrow> stream_locals \<Rightarrow> (('r, 'z) orchestrator_state_scheme, unit) act" where
  "stream_success S ro api_key model p_hash p_text bypass_cache start reservation backend locals =
     (let content = concat (sl_accumulated locals);
          tokens_in = usage_tokens_in locals;
          tokens_out = usage_tokens_out locals;
          finish_reason = usage_finish_reason locals in
      bindE (elapsed_ms S start) (\<lambda>latency_ms.
      bindE (record_outcome S (ro_breaker ro) backend True) (\<lambda>_.
      bindE (record_latency S (ro_latency_tracker ro) backend latency_ms) (\<lambda>_.
      bindE (if bypass_cache then returnE ()
             else cache_put S (ro_cache ro) model p_hash p_text content tokens_in tokens_out) (\<lambda>_.
      bindE (limiter_reconcile S api_key reservation (tokens_in + tokens_out)) (\<lambda>_.
      bindE (log_request S api_key model latency_ms 200 (Some (b_id backend)) None tokens_in tokens_out
               (request_cost backend tokens_in tokens_out) (Some finish_reason)) (\<lambda>_.
      bindE (emit ro (Incr ''gateway_backend_calls_total'' [(''backend'', b_name backend), (''outcome'', ''ok'')])) (\<lambda>_.
      yield_item (Inr (stream_result backend locals))))))))))"

definition stream_outcome ::
  "('r, 's) services_scheme \<Rightarrow> 'r RequestOrchestrator \<Rightarrow> ApiKey \<Rightarrow> string \<Rightarrow> string \<Rightarrow> string \<Rightarrow> bool \<Rightarrow> rat \<Rightarrow>
   string \<Rightarrow> Backend \<Rightarrow> stream_locals \<times> exn option \<Rightarrow> (('r, 'z) orchestrator_state_scheme, exn option + unit) act" where
  "stream_outcome S ro api_key model p_hash p_text bypass_cache start reservation backend outcome =
     (case snd outcome of
        Some exc \<Rightarrow>
          bindE (record_outcome S (ro_breaker ro) backend False) (\<lambda>_.
            if sl_any_yielded (fst outcome) then raiseE (AllBackendsUnavailable (Some exc))
            else returnE (Inl (Some exc)))
      | None \<Rightarrow>
          bindE (stream_success S ro api_key model p_hash p_text bypass_cache start reservation
                   backend (fst outcome)) (\<lambda>_. returnE (Inr ())))"

definition stream_body ::
  "('r, 's) orchestrator_services_scheme \<Rightarrow> 'r RequestOrchestrator \<Rightarrow> ApiKey \<Rightarrow> string \<Rightarrow> ChatMessage list \<Rightarrow>
   string \<Rightarrow> string \<Rightarrow> bool \<Rightarrow> rat \<Rightarrow> string \<Rightarrow> Backend \<times> live_client \<Rightarrow> exn option \<Rightarrow>
   (('r, 'z) orchestrator_state_scheme, exn option + unit) act" where
  "stream_body S ro api_key model messages p_hash p_text bypass_cache start reservation pair last_error =
     (let (backend, client) = pair in
      bindE (check_breaker S (ro_breaker ro) backend) (\<lambda>allowed.
        if \<not> allowed then returnE (Inl last_error)
        else bindE (stream_attempt S ro messages backend client)
               (stream_outcome S ro api_key model p_hash p_text bypass_cache start reservation backend)))"

definition stream_exhausted ::
  "('r, 's) services_scheme \<Rightarrow> ApiKey \<Rightarrow> string \<Rightarrow> rat \<Rightarrow> exn option \<Rightarrow> (('r, 'z) node_scheme, unit) act" where
  "stream_exhausted S api_key model start last_error =
     bindE (elapsed_ms S start) (\<lambda>latency_ms.
     bindE (log_request S api_key model latency_ms 503 None None 0 0 0 None) (\<lambda>_.
     raiseE (AllBackendsUnavailable last_error)))"

definition stream_walk ::
  "('r, 's) orchestrator_services_scheme \<Rightarrow> 'r RequestOrchestrator \<Rightarrow> ApiKey \<Rightarrow> string \<Rightarrow> ChatMessage list \<Rightarrow>
   bool \<Rightarrow> rat \<Rightarrow> string \<Rightarrow> (Backend \<times> live_client) list \<Rightarrow> (('r, 'z) orchestrator_state_scheme, unit) act" where
  "stream_walk S ro api_key model messages bypass_cache start reservation remaining =
     bindE (failover S (ro_policy ro) (request_features model messages)
              (stream_body S ro api_key model messages (prompt_hash (sv_sha256_hex S) model messages)
                 (prompt_text messages) bypass_cache start reservation) remaining None) (\<lambda>outcome.
       case outcome of
         Inr _ \<Rightarrow> returnE ()
       | Inl last_error \<Rightarrow> stream_exhausted S api_key model start last_error)"

definition handle_stream ::
  "('r, 's) orchestrator_services_scheme \<Rightarrow> 'r RequestOrchestrator \<Rightarrow> ApiKey \<Rightarrow> string \<Rightarrow> ChatMessage list \<Rightarrow>
   bool \<Rightarrow> (('r, 'z) orchestrator_state_scheme, unit) act" where
  "handle_stream S ro api_key model messages bypass_cache =
     bindE (reading (sv_perf_counter S)) (\<lambda>start.
     bindE (limiter_reserve S api_key (estimate_tokens messages)) (\<lambda>reservation_opt.
       case reservation_opt of
         None \<Rightarrow> raiseE RateLimitExceeded
       | Some reservation \<Rightarrow>
           bindE (lookup S ro bypass_cache model (prompt_hash (sv_sha256_hex S) model messages)
                    (prompt_text messages)) (\<lambda>hit_opt.
             case hit_opt of
               Some hit \<Rightarrow>
                 bindE (serve_hit S ro api_key model start reservation hit) (\<lambda>_.
                 bindE (yield_item (Inl (ch_content hit))) (\<lambda>_.
                 yield_item (Inr (hit_result model hit))))
             | None \<Rightarrow>
                 bindE (candidates model) (\<lambda>remaining.
                   if remaining = [] then raiseE NoBackendsAvailable
                   else stream_walk S ro api_key model messages bypass_cache start reservation remaining))))"

end
