(* ===== verification/Pipeline.thy ===== *)
theory Pipeline
  imports Orchestrator "HOL-Library.Sublist"
begin

text \<open>
  What the request pipeline of \<open>Orchestrator\<close> guarantees. First which parts of the state each
  step leaves alone; then the failover walk as an inductive relation \<open>walk\<close> that lists the
  candidates it visits, equivalent to the loop; then the properties of both handlers.
\<close>

section \<open>Steps that stay within the node\<close>

text \<open>
  The registry, the semaphores and the traces extend the node; a step over Redis, the database,
  the clocks or the embedding service keeps all of them.
\<close>

lemma keeps_try [keeps_rules]: "keeps f m \<Longrightarrow> keeps f (tryE m)"
  unfolding keeps_def tryE_def by (auto split: prod.splits sum.splits) (metis snd_conv)+

lemma keeps_finally [keeps_rules]: "keeps f m \<Longrightarrow> keeps f c \<Longrightarrow> keeps f (finallyE m c)"
proof -
  assume m: "keeps f m" and c: "keeps f c"
  have rest: "keeps f (bindE c (\<lambda>_. liftE r))" for r :: "exn + 'c"
    by (intro keeps_bind keeps_comb c)
  show ?thesis
    unfolding keeps_def finallyE_def using m rest by (auto simp: keeps_def split: prod.splits) (metis snd_conv)+
qed

lemma keeps_sum [keeps_rules]:
  "(\<And>y. keeps f (m y)) \<Longrightarrow> (\<And>z. keeps f (n z)) \<Longrightarrow> keeps f (case x of Inl y \<Rightarrow> m y | Inr z \<Rightarrow> n z)"
  by (cases x) simp_all

lemma node_steps_keep_more [keeps_rules]:
  "keeps node.more (elapsed_ms S start)"
  "keeps node.more (limiter_reserve S k est)"
  "keeps node.more (limiter_reconcile S k rid n)"
  "keeps node.more (check_breaker S cb b)"
  "keeps node.more (record_outcome S cb b ok)"
  "keeps node.more (record_latency S lt b ms)"
  "keeps node.more (log_request S k m ms st bid tier i j cost r)"
  "keeps node.more (lookup S ro bypass m h t)"
  "keeps node.more (cache_put S tc m h t c i j)"
  "keeps node.more (select_candidate S policy features remaining)"
  unfolding elapsed_ms_def limiter_reserve_def limiter_reconcile_def check_breaker_def record_outcome_def
    record_latency_def log_request_def lookup_def select_candidate_def
  by (intro keeps_bind keeps_reading keeps_redis_call keeps_on_db keeps_comb keeps_if keeps_option
      cache_get_keeps cache_put_keeps; simp)+

lemma more_determines:
  fixes w w' :: "('r, 'z) orchestrator_state_scheme"
  assumes "node.more w' = node.more w"
  shows "or_calls w' = or_calls w" and "or_output w' = or_output w" and "or_metrics w' = or_metrics w"
    and "or_semaphores w' = or_semaphores w" and "gw_clients w' = gw_clients w"
    and "gw_by_model w' = gw_by_model w" and "gw_closed w' = gw_closed w"
  using assms by (cases w; cases w'; simp)+

lemma keeps_of_more:
  assumes "keeps node.more m" and "\<And>w w'. node.more w' = node.more w \<Longrightarrow> f w' = f w"
  shows "keeps f m"
  using assms(1) unfolding keeps_def by (blast intro: assms(2))

lemma or_calls_of_more: "keeps node.more m \<Longrightarrow> keeps or_calls m"
  by (erule keeps_of_more) (rule more_determines(1))

lemma or_output_of_more: "keeps node.more m \<Longrightarrow> keeps or_output m"
  by (erule keeps_of_more) (rule more_determines(2))

lemma or_semaphores_of_more: "keeps node.more m \<Longrightarrow> keeps or_semaphores m"
  by (erule keeps_of_more) (rule more_determines(4))

lemmas node_steps_keep_calls [keeps_rules] = node_steps_keep_more [THEN or_calls_of_more]
lemmas node_steps_keep_output [keeps_rules] = node_steps_keep_more [THEN or_output_of_more]
lemmas node_steps_keep_semaphores [keeps_rules] = node_steps_keep_more [THEN or_semaphores_of_more]

lemma emit_keeps [keeps_rules]:
  "keeps or_calls (emit ro x)" "keeps or_output (emit ro x)" "keeps or_semaphores (emit ro x)"
  "keeps nd_db (emit ro x)" "keeps nd_redis (emit ro x)"
  unfolding emit_def by (intro keeps_if keeps_write keeps_comb; simp)+

lemma yield_item_keeps [keeps_rules]:
  "keeps or_calls (yield_item x)" "keeps or_semaphores (yield_item x)" "keeps nd_db (yield_item x)"
  "keeps nd_redis (yield_item x)"
  unfolding yield_item_def by (intro keeps_write; simp)+

lemma semaphore_keeps [keeps_rules]:
  "keeps or_calls (semaphore_for n u)" "keeps or_calls (acquire S n u)" "keeps or_calls (release u)"
  "keeps or_output (semaphore_for n u)" "keeps or_output (acquire S n u)" "keeps or_output (release u)"
  unfolding semaphore_for_def acquire_def release_def
  by (intro keeps_bind keeps_if keeps_option keeps_write keeps_reading keeps_comb;
      simp add: set_slots_def)+

lemma success_keeps_calls [keeps_rules]:
  "keeps or_calls (complete_success S ro k m h t bypass start rid b c)"
  "keeps or_calls (stream_success S ro k m h t bypass start rid b loc)"
  "keeps or_calls (serve_hit S ro k m start rid hit)"
  unfolding complete_success_def stream_success_def serve_hit_def Let_def
  by (intro keeps_bind keeps_if keeps_comb node_steps_keep_calls emit_keeps yield_item_keeps)+

lemma complete_success_keeps_output [keeps_rules]:
  "keeps or_output (complete_success S ro k m h t bypass start rid b c)"
  "keeps or_output (serve_hit S ro k m start rid hit)"
  unfolding complete_success_def serve_hit_def
  by (intro keeps_bind keeps_if keeps_comb node_steps_keep_output emit_keeps)+

section \<open>The failover walk as a relation\<close>

inductive walk ::
  "('r, 's) services_scheme \<Rightarrow> 'r policy \<Rightarrow> RequestFeatures \<Rightarrow>
   (Backend \<times> live_client \<Rightarrow> exn option \<Rightarrow> (('r, 'z) node_scheme, exn option + 'a) act) \<Rightarrow>
   (Backend \<times> live_client) list \<Rightarrow> exn option \<Rightarrow> ('r, 'z) node_scheme \<Rightarrow>
   (Backend \<times> live_client) list \<Rightarrow> exn + (exn option + 'a) \<Rightarrow> ('r, 'z) node_scheme \<Rightarrow> bool"
  for S policy features body where
  exhausted: "walk S policy features body [] le w [] (Inr (Inl le)) w"
| unselectable: "remaining \<noteq> [] \<Longrightarrow> select_candidate S policy features remaining w = (Inl e, w1) \<Longrightarrow>
    walk S policy features body remaining le w [] (Inl e) w1"
| raised: "remaining \<noteq> [] \<Longrightarrow> select_candidate S policy features remaining w = (Inr (pair, rest), w1) \<Longrightarrow>
    body pair le w1 = (Inl e, w2) \<Longrightarrow> walk S policy features body remaining le w [pair] (Inl e) w2"
| served: "remaining \<noteq> [] \<Longrightarrow> select_candidate S policy features remaining w = (Inr (pair, rest), w1) \<Longrightarrow>
    body pair le w1 = (Inr (Inr x), w2) \<Longrightarrow> walk S policy features body remaining le w [pair] (Inr (Inr x)) w2"
| failed: "remaining \<noteq> [] \<Longrightarrow> select_candidate S policy features remaining w = (Inr (pair, rest), w1) \<Longrightarrow>
    body pair le w1 = (Inr (Inl le'), w2) \<Longrightarrow> walk S policy features body rest le' w2 visits x w3 \<Longrightarrow>
    walk S policy features body remaining le w (pair # visits) x w3"

lemma failover_walk:
  "failover S policy features body remaining le w = (x, w') \<Longrightarrow>
     \<exists>visits. walk S policy features body remaining le w visits x w'"
proof (induction S policy features body remaining le w rule: failover.induct)
  case (1 S policy features body remaining le w)
  show ?case
  proof (cases "remaining = []")
    case True
    with "1.prems" show ?thesis by (auto simp: failover.simps intro: walk.exhausted)
  next
    case False
    obtain r w1 where sel: "select_candidate S policy features remaining w = (r, w1)" by fastforce
    show ?thesis
    proof (cases r)
      case (Inl e)
      with False sel "1.prems" show ?thesis by (auto simp: failover.simps [of S] intro: walk.unselectable)
    next
      case (Inr picked)
      obtain pair rest where p: "picked = (pair, rest)" by fastforce
      note sel' = sel [unfolded Inr p]
      obtain y w2 where body: "body pair le w1 = (y, w2)" by fastforce
      consider e where "y = Inl e" | le' where "y = Inr (Inl le')" | z where "y = Inr (Inr z)"
        by (metis sumE)
      then show ?thesis
      proof cases
        case 1
        with False sel' body "1.prems" show ?thesis
          by (auto simp: failover.simps [of S] intro: walk.raised)
      next
        case 2
        with False sel' body "1.prems" have "failover S policy features body rest le' w2 = (x, w')"
          by (simp add: failover.simps [of S])
        from "1.IH" [OF False sel' [symmetric] refl refl body [symmetric] 2 refl this] False sel' body 2
        show ?thesis by (auto intro: walk.failed)
      next
        case 3
        with False sel' body "1.prems" show ?thesis
          by (auto simp: failover.simps [of S] intro: walk.served)
      qed
    qed
  qed
qed

abbreviation ids :: "(Backend \<times> live_client) list \<Rightarrow> uuid list" where
  "ids pairs \<equiv> map (\<lambda>pair. b_id (fst pair)) pairs"

lemma select_candidate_result:
  assumes "select_candidate S policy features remaining w = (Inr (pair, rest), w1)"
  shows "pair \<in> set remaining" and "rest = filter (\<lambda>q. b_id (fst q) \<noteq> b_id (fst pair)) remaining"
proof -
  from assms obtain chosen :: Backend where found: "find (\<lambda>q. b_id (fst q) = b_id chosen) remaining = Some pair"
    and rest: "rest = filter (\<lambda>q. b_id (fst q) \<noteq> b_id chosen) remaining"
    by (auto simp: select_candidate_def bindE_eq_Inr split: option.splits)
  from find_SomeD [OF found] rest show "pair \<in> set remaining"
    "rest = filter (\<lambda>q. b_id (fst q) \<noteq> b_id (fst pair)) remaining" by simp_all
qed

lemma walk_visits:
  "walk S policy features body remaining le w visits x w' \<Longrightarrow>
     distinct (ids visits) \<and> set visits \<subseteq> set remaining"
proof (induction rule: walk.induct)
  case (failed remaining w pair rest w1 le le' w2 visits x w3)
  with select_candidate_result [OF failed.hyps(2)] show ?case by auto
qed (auto dest: select_candidate_result(1))

lemma walk_exhausts:
  "walk S policy features body remaining le w visits x w' \<Longrightarrow> x = Inr (Inl le') \<Longrightarrow>
     set (ids visits) = set (ids remaining)"
proof (induction rule: walk.induct)
  case (failed remaining w pair rest w1 le le' w2 visits x w3)
  with select_candidate_result [OF failed.hyps(2)] show ?case by fastforce
qed auto

section \<open>The calls of one attempt\<close>

lemma semaphore_for_result:
  "semaphore_for limit u w = (x, w1) \<Longrightarrow>
     x = Inr () \<and> (\<exists>v. or_semaphores w1 u = Some v) \<or> x = Inl (ValueError ''Semaphore initial value must be >= 0'') \<and> limit < 0"
  by (auto simp: semaphore_for_def split: option.splits if_splits)

lemma acquire_result: "acquire S limit u w = (x, w1) \<Longrightarrow> x = Inr () \<or> x = Inl Blocked"
  by (auto simp: acquire_def split: if_splits)

lemma under_semaphore_cases:
  assumes "under_semaphore S limit u body w = (x, w')"
  obtains (refused) "x = Inl (ValueError ''Semaphore initial value must be >= 0'')" "limit < 0"
      "or_calls w' = or_calls w" "or_output w' = or_output w"
  | (blocked) "x = Inl Blocked" "or_calls w' = or_calls w" "or_output w' = or_output w"
  | (ran) w1 w2 where "body w1 = (x, w2)" "or_calls w1 = or_calls w" "or_output w1 = or_output w"
      "or_calls w' = or_calls w2" "or_output w' = or_output w2"
proof -
  obtain y w0 where s: "semaphore_for limit u w = (y, w0)" by fastforce
  obtain z w1 where a: "acquire S limit u w0 = (z, w1)" by fastforce
  have keep: "or_calls w0 = or_calls w" "or_output w0 = or_output w" "or_calls w1 = or_calls w0"
    "or_output w1 = or_output w0"
    using s a by (auto intro: keepsD [OF semaphore_keeps(1)] keepsD [OF semaphore_keeps(2)]
        keepsD [OF semaphore_keeps(4)] keepsD [OF semaphore_keeps(5)])
  show ?thesis
  proof (cases "y = Inr ()")
    case False
    with semaphore_for_result [OF s] s assms keep refused show ?thesis
      by (auto simp: under_semaphore_def bindE_def)
  next
    case y: True
    show ?thesis
    proof (cases "z = Inr ()")
      case False
      with acquire_result [OF a] y s a assms keep blocked show ?thesis
        by (auto simp: under_semaphore_def bindE_def)
    next
      case True
      obtain r w2 where b: "body w1 = (r, w2)" by fastforce
      have "r = x \<and> or_calls w' = or_calls w2 \<and> or_output w' = or_output w2"
        using y True s a b assms
        by (auto simp: under_semaphore_def bindE_def finallyE_def release_def set_slots_def split: if_splits)
      with b keep ran show ?thesis by metis
    qed
  qed
qed

lemma call_complete_calls:
  "call_complete S t ms b c w = (x, w') \<Longrightarrow> or_calls w' = or_calls w @ [b_id b] \<and> or_output w' = or_output w"
  by (auto simp: call_complete_def note_call_def Let_def split: prod.splits if_splits)

lemma complete_outcome_keeps:
  "keeps or_calls (complete_outcome S ro k m h t bypass start rid b out)"
  "keeps or_output (complete_outcome S ro k m h t bypass start rid b out)"
  unfolding complete_outcome_def
  by (intro keeps_sum keeps_bind keeps_comb success_keeps_calls complete_success_keeps_output
      node_steps_keep_calls node_steps_keep_output emit_keeps)+

lemma complete_outcome_continues:
  "complete_outcome S ro k m h t bypass start rid b out w \<noteq> (Inr (Inl None), w')"
  by (auto simp: complete_outcome_def bindE_eq_Inr split: sum.splits)

lemma complete_outcome_error:
  "complete_outcome S ro k m h t bypass start rid b (Inl e) w = (Inr z, w') \<Longrightarrow> z = Inl (Some e)"
  by (auto simp: complete_outcome_def bindE_eq_Inr)

text \<open>What one round of the walk did, read off the trace.\<close>

lemma complete_body_calls:
  assumes "complete_body S ro k m ms h t bypass start rid pair le w = (x, w')"
  shows "or_output w' = or_output w \<and>
    (or_calls w' = or_calls w @ [b_id (fst pair)] \<and> x \<noteq> Inr (Inl None) \<or>
     or_calls w' = or_calls w \<and>
       (\<forall>y. x = Inr y \<longrightarrow> (\<exists>w1. check_breaker S (ro_breaker ro) (fst pair) w = (Inr False, w1)) \<and> y = Inl le \<or>
                          ro_per_backend_concurrency ro < 0 \<and> (\<exists>e. y = Inl e)))"
proof -
  obtain b c where p: "pair = (b, c)" by (cases pair)
  obtain r w1 where chk: "check_breaker S (ro_breaker ro) b w = (r, w1)" by fastforce
  have k1: "or_calls w1 = or_calls w" "or_output w1 = or_output w"
    using keepsD [OF node_steps_keep_calls(4) chk] keepsD [OF node_steps_keep_output(4) chk] by simp_all
  show ?thesis
  proof (cases "r = Inr True")
    case False
    then have "r = Inr False \<or> (\<exists>e. r = Inl e)" by (cases r) auto
    with assms chk k1 p show ?thesis by (auto simp: complete_body_def bindE_def)
  next
    case True
    obtain y w2 where call: "under_semaphore S (ro_per_backend_concurrency ro) (b_id b)
        (call_complete S (ro_timeout ro) ms b c) w1 = (y, w2)" by fastforce
    let ?rest = "complete_outcome S ro k m h t bypass start rid b"
    have "bindE (tryE (under_semaphore S (ro_per_backend_concurrency ro) (b_id b)
        (call_complete S (ro_timeout ro) ms b c))) ?rest w1 = (x, w')"
      using assms chk True p by (simp add: complete_body_def)
    from this call have split: "(\<forall>e. y = Inl e \<longrightarrow> is_Exception e) \<and> ?rest y w2 = (x, w') \<or>
        (\<exists>e. y = Inl e \<and> \<not> is_Exception e \<and> x = Inl e \<and> w' = w2)"
      by (rule bindE_tryE)
    then have after: "or_calls w' = or_calls w2" "or_output w' = or_output w2"
      "\<forall>e z. y = Inl e \<longrightarrow> x = Inr z \<longrightarrow> z = Inl (Some e)" "x \<noteq> Inr (Inl None)"
      using complete_outcome_continues keepsD [OF complete_outcome_keeps(1)] keepsD [OF complete_outcome_keeps(2)]
        complete_outcome_error by fastforce+
    from call show ?thesis
    proof (cases rule: under_semaphore_cases)
      case refused
      with after k1 p show ?thesis by auto
    next
      case blocked
      with split after k1 p show ?thesis by auto
    next
      case (ran w3 w4)
      with after k1 p call_complete_calls [OF ran(1)] show ?thesis by simp
    qed
  qed
qed

section \<open>The trace of a walk\<close>

lemma walk_calls:
  fixes w :: "('r, 'z) orchestrator_state_scheme"
  assumes "walk S policy features body remaining le w visits x w'"
    and body: "\<And>pair le w x w'. body pair le w = (x, w') \<Longrightarrow>
      or_calls w' = or_calls w \<or> or_calls w' = or_calls w @ [b_id (fst pair)]"
  shows "\<exists>tried. or_calls w' = or_calls w @ tried \<and> subseq tried (ids visits)"
  using assms(1)
proof (induction rule: walk.induct)
  case (exhausted le w)
  then show ?case by simp
next
  case (unselectable remaining w e w1 le)
  then have "or_calls w1 = or_calls w" using keepsD [OF node_steps_keep_calls(10)] by blast
  then show ?case by simp
next
  case (raised remaining w pair rest w1 le e w2)
  then have "or_calls w1 = or_calls w" using keepsD [OF node_steps_keep_calls(10)] by blast
  with body [OF raised.hyps(3)] show ?case by auto
next
  case (served remaining w pair rest w1 le y w2)
  then have "or_calls w1 = or_calls w" using keepsD [OF node_steps_keep_calls(10)] by blast
  with body [OF served.hyps(3)] show ?case by auto
next
  case (failed remaining w pair rest w1 le le' w2 visits x w3)
  then have k: "or_calls w1 = or_calls w" using keepsD [OF node_steps_keep_calls(10)] by blast
  from failed.IH obtain tried where t: "or_calls w3 = or_calls w2 @ tried" "subseq tried (ids visits)" by blast
  from body [OF failed.hyps(3)] show ?case
  proof
    assume "or_calls w2 = or_calls w1"
    with k t show ?thesis by (intro exI [of _ tried]) (simp add: list_emb_Cons)
  next
    assume "or_calls w2 = or_calls w1 @ [b_id (fst pair)]"
    with k t show ?thesis by (intro exI [of _ "b_id (fst pair) # tried"]) simp
  qed
qed

lemma walk_served_last:
  fixes w :: "('r, 'z) orchestrator_state_scheme"
  assumes "walk S policy features body remaining le w visits x w'" and "x = Inr (Inr r)"
    and body: "\<And>pair le w x w'. body pair le w = (x, w') \<Longrightarrow>
      or_calls w' = or_calls w \<or> or_calls w' = or_calls w @ [b_id (fst pair)]"
  shows "\<exists>pair le1 w1. pair \<in> set remaining \<and> prefix (or_calls w) (or_calls w1) \<and>
    body pair le1 w1 = (Inr (Inr r), w')"
  using assms(1,2)
proof (induction rule: walk.induct)
  case (served remaining w pair rest w1 le y w2)
  then have "or_calls w1 = or_calls w" using keepsD [OF node_steps_keep_calls(10)] by blast
  then have "prefix (or_calls w) (or_calls w1)" by simp
  with served select_candidate_result(1) show ?case by blast
next
  case (failed remaining w pair rest w1 le le' w2 visits x w3)
  then have k: "or_calls w1 = or_calls w" using keepsD [OF node_steps_keep_calls(10)] by blast
  from failed.IH failed.prems obtain q le1 w4 where q: "q \<in> set rest" "prefix (or_calls w2) (or_calls w4)"
    "body q le1 w4 = (Inr (Inr r), w3)" by blast
  have "prefix (or_calls w) (or_calls w2)" using body [OF failed.hyps(3)] k by auto
  then have "prefix (or_calls w) (or_calls w4)" using q(2) by (rule prefix_order.trans)
  moreover have "q \<in> set remaining" using q(1) select_candidate_result(2) [OF failed.hyps(2)] by simp
  ultimately show ?case using q(3) by blast
qed auto

lemma complete_success_result:
  "complete_success S ro k m h t bypass start rid b completion w = (Inr r, w') \<Longrightarrow> r = completion_result b completion"
  unfolding complete_success_def bindE_eq_Inr by auto

lemma tryE_Inr: "tryE m w = (Inr (Inr y), w') \<Longrightarrow> m w = (Inr y, w')"
  by (auto simp: tryE_def split: prod.splits sum.splits if_splits)

lemma complete_body_served:
  assumes "complete_body S ro k m ms h t bypass start rid (b, c) le w = (Inr (Inr r), w')"
  shows "\<exists>n d completion. gv_complete S n c ms (b_model b) = (d, Inr completion) \<and> d < ro_timeout ro \<and>
    r = completion_result b completion"
proof -
  from assms obtain w1 w2 out where
    call: "tryE (under_semaphore S (ro_per_backend_concurrency ro) (b_id b)
      (call_complete S (ro_timeout ro) ms b c)) w1 = (Inr out, w2)"
    and rest: "complete_outcome S ro k m h t bypass start rid b out w2 = (Inr (Inr r), w')"
    by (auto simp: complete_body_def bindE_eq_Inr split: if_splits)
  from rest obtain completion where out: "out = Inr completion" "r = completion_result b completion"
    by (cases out) (auto simp: complete_outcome_def bindE_eq_Inr dest: complete_success_result)
  have "under_semaphore S (ro_per_backend_concurrency ro) (b_id b)
      (call_complete S (ro_timeout ro) ms b c) w1 = (Inr completion, w2)"
    using call [unfolded out(1)] by (rule tryE_Inr)
  then show ?thesis
  proof (cases rule: under_semaphore_cases)
    case (ran w3 w4)
    then have "\<exists>n d. gv_complete S n c ms (b_model b) = (d, Inr completion) \<and> d < ro_timeout ro"
      by (auto simp: call_complete_def note_call_def Let_def split: prod.splits if_splits)
    with out(2) show ?thesis by blast
  qed simp_all
qed

section \<open>The handlers up to the walk\<close>

text \<open>
  A request reaches the backends when its reservation is admitted and the caches miss: \<open>start\<close> is
  when it began, \<open>rid\<close> its reservation, \<open>w1\<close> the state in which the walk starts.
\<close>

definition reaches_backends ::
  "('r, 's) services_scheme \<Rightarrow> 'r RequestOrchestrator \<Rightarrow> ApiKey \<Rightarrow> string \<Rightarrow> ChatMessage list \<Rightarrow> bool \<Rightarrow>
   ('r, 'z) node_scheme \<Rightarrow> rat \<Rightarrow> string \<Rightarrow> ('r, 'z) node_scheme \<Rightarrow> bool" where
  "reaches_backends S ro k model ms bypass w start rid w1 \<longleftrightarrow>
     (\<exists>w0 w2. reading (sv_perf_counter S) w = (Inr start, w0) \<and>
        limiter_reserve S k (estimate_tokens ms) w0 = (Inr (Some rid), w2) \<and>
        lookup S ro bypass model (prompt_hash (sv_sha256_hex S) model ms) (prompt_text ms) w2 = (Inr None, w1))"

lemma reaches_backends_more:
  "reaches_backends S ro k model ms bypass w start rid w1 \<Longrightarrow> node.more w1 = node.more w"
  unfolding reaches_backends_def
  by (metis keepsD keeps_reading node.update_convs(3) node_steps_keep_more(2,8) node.surjective node.select_convs node.ext_inject)

lemma handle_complete_reaches:
  assumes "reaches_backends S ro k model ms bypass w start rid w1"
    and "candidates model w1 = (Inr ps, w1)" and "ps \<noteq> []"
  shows "handle_complete S ro k model ms bypass w = complete_walk S ro k model ms bypass start rid ps w1"
  using assms by (auto simp: handle_complete_def reaches_backends_def bindE_def)

lemma handle_complete_cases:
  assumes "handle_complete S ro k model ms bypass w = (x, w')"
  obtains (early) "or_calls w' = or_calls w" "or_output w' = or_output w"
      "(\<exists>e. x = Inl e) \<or> (\<exists>hit. x = Inr (hit_result model hit))"
  | (walk) start rid w1 ps where "reaches_backends S ro k model ms bypass w start rid w1"
      "candidates model w1 = (Inr ps, w1)" "ps \<noteq> []"
      "complete_walk S ro k model ms bypass start rid ps w1 = (x, w')"
proof -
  let ?h = "prompt_hash (sv_sha256_hex S) model ms" and ?t = "prompt_text ms"
  obtain start w0 where r: "reading (sv_perf_counter S) w = (Inr start, w0)" by simp
  have k0: "or_calls w0 = or_calls w" "or_output w0 = or_output w" using r by auto
  obtain rv w1 where rsv: "limiter_reserve S k (estimate_tokens ms) w0 = (rv, w1)" by fastforce
  have k1: "or_calls w1 = or_calls w0" "or_output w1 = or_output w0"
    using keepsD [OF node_steps_keep_calls(2) rsv] keepsD [OF node_steps_keep_output(2) rsv] by simp_all
  consider "rv = Inr None" | e where "rv = Inl e" | rid where "rv = Inr (Some rid)" by (metis option.exhaust sumE)
  then show ?thesis
  proof cases
    case 3
    obtain hv w2 where hit: "lookup S ro bypass model ?h ?t w1 = (hv, w2)" by fastforce
    have k2: "or_calls w2 = or_calls w1" "or_output w2 = or_output w1"
      using keepsD [OF node_steps_keep_calls(8) hit] keepsD [OF node_steps_keep_output(8) hit] by simp_all
    consider "hv = Inr None" | e where "hv = Inl e" | h where "hv = Inr (Some h)" by (metis option.exhaust sumE)
    then show ?thesis
    proof cases
      case 1
      with r rsv 3 hit have reach: "reaches_backends S ro k model ms bypass w start rid w2"
        by (auto simp: reaches_backends_def)
      obtain cv where cand: "candidates model w2 = (cv, w2)" by (simp add: candidates_def)
      consider e where "cv = Inl e" | "cv = Inr []" | ps where "cv = Inr ps" "ps \<noteq> []" by (cases cv) auto
      then show ?thesis
      proof cases
        case (3 ps)
        with cand reach assms handle_complete_reaches [OF reach] walk show ?thesis by metis
      qed (use assms r rsv \<open>rv = Inr (Some rid)\<close> hit 1 cand k0 k1 k2 early in
          \<open>auto simp: handle_complete_def bindE_def\<close>)
    next
      case (3 h)
      obtain sv w3 where serve: "serve_hit S ro k model start rid h w2 = (sv, w3)" by fastforce
      have "or_calls w3 = or_calls w2" "or_output w3 = or_output w2"
        using keepsD [OF success_keeps_calls(3) serve] keepsD [OF complete_success_keeps_output(2) serve]
        by simp_all
      with assms r rsv \<open>rv = Inr (Some rid)\<close> hit 3 serve k0 k1 k2 early show ?thesis
        by (cases sv) (auto simp: handle_complete_def bindE_def)
    qed (use assms r rsv 3 hit k0 k1 k2 early in \<open>auto simp: handle_complete_def bindE_def\<close>)
  qed (use assms r rsv k0 k1 early in \<open>auto simp: handle_complete_def bindE_def\<close>)
qed

lemma candidates_members:
  assumes "candidates model w = (Inr ps, w)"
  shows "map fst ps = at_model (gw_by_model w) model"
    and "\<forall>(b, c) \<in> set ps. map_of (gw_clients w) (b_id b) = Some c"
proof -
  have "with_clients al bs = Inr qs \<Longrightarrow> map fst qs = bs \<and> (\<forall>(b, c) \<in> set qs. map_of al (b_id b) = Some c)"
    for al bs qs
    by (induction bs arbitrary: qs) (auto split: option.splits sum.splits)
  with assms show "map fst ps = at_model (gw_by_model w) model"
    "\<forall>(b, c) \<in> set ps. map_of (gw_clients w) (b_id b) = Some c"
    by (auto simp: candidates_def)
qed

lemma candidates_at_walk:
  fixes w :: "('r, 'z) orchestrator_state_scheme"
  assumes "reaches_backends S ro k model ms bypass w start rid w1" and "candidates model w1 = (Inr ps, w1)"
  shows "candidates model w = (Inr ps, w)"
  using assms more_determines(5,6) [OF reaches_backends_more [OF assms(1)]] by (simp add: candidates_def)

lemma complete_body_trace:
  "complete_body S ro k m ms h t bypass start rid pair le w = (x, w') \<Longrightarrow>
     or_calls w' = or_calls w \<or> or_calls w' = or_calls w @ [b_id (fst pair)]"
  using complete_body_calls by blast

lemma exhausted_keeps [keeps_rules]:
  "keeps or_calls (complete_exhausted S ro k m start e)" "keeps or_output (complete_exhausted S ro k m start e)"
  "keeps or_calls (stream_exhausted S k m start e)" "keeps or_output (stream_exhausted S k m start e)"
  unfolding complete_exhausted_def stream_exhausted_def
  by (intro keeps_bind keeps_comb node_steps_keep_calls node_steps_keep_output emit_keeps)+

lemma exhausted_raises:
  "complete_exhausted S ro k m start e w \<noteq> (Inr r, w')" "stream_exhausted S k m start e w \<noteq> (Inr u, w')"
  by (auto simp: complete_exhausted_def stream_exhausted_def bindE_eq_Inr)

lemma subseq_distinct_subset: "subseq xs ys \<Longrightarrow> distinct ys \<Longrightarrow> distinct xs \<and> set xs \<subseteq> set ys"
  by (induction rule: list_emb.induct) auto

lemma prefix_last: "zs @ [a] = xs @ ys \<Longrightarrow> prefix xs zs \<Longrightarrow> ys \<noteq> [] \<and> last ys = a"
  by (auto simp: prefix_def)

lemma complete_walk_calls:
  assumes "complete_walk S ro k model ms bypass start rid ps w = (x, w')"
  shows "\<exists>tried. or_calls w' = or_calls w @ tried \<and> distinct tried \<and> set tried \<subseteq> set (ids ps) \<and>
    (\<forall>r. x = Inr r \<longrightarrow> (\<exists>(b, c) \<in> set ps. \<exists>n d completion. tried \<noteq> [] \<and> last tried = b_id b \<and>
       gv_complete S n c ms (b_model b) = (d, Inr completion) \<and> d < ro_timeout ro \<and>
       r = completion_result b completion))"
proof -
  let ?body = "complete_body S ro k model ms (prompt_hash (sv_sha256_hex S) model ms) (prompt_text ms) bypass start rid"
  obtain y w1 where f: "failover S (ro_policy ro) (request_features model ms) ?body ps None w = (y, w1)" by fastforce
  from failover_walk [OF f] obtain visits where
    walk: "walk S (ro_policy ro) (request_features model ms) ?body ps None w visits y w1" by blast
  from walk_calls [OF walk] complete_body_trace obtain tried where
    tried: "or_calls w1 = or_calls w @ tried" "subseq tried (ids visits)" by blast
  have "set (ids visits) \<subseteq> set (ids ps)" using walk_visits [OF walk] by auto
  then have sub: "distinct tried" "set tried \<subseteq> set (ids ps)"
    using walk_visits [OF walk] subseq_distinct_subset [OF tried(2)] by blast+
  show ?thesis
  proof (cases "\<exists>r. y = Inr (Inr r)")
    case True
    then obtain r where y: "y = Inr (Inr r)" by blast
    have x: "x = Inr r" "w' = w1" using assms f y by (auto simp: complete_walk_def)
    from walk_served_last [OF walk y] complete_body_trace obtain pair le1 w2 where
      served: "pair \<in> set ps" "prefix (or_calls w) (or_calls w2)" "?body pair le1 w2 = (Inr (Inr r), w1)" by blast
    obtain b c where pair: "pair = (b, c)" by (cases pair)
    have "or_calls w1 = or_calls w2 @ [b_id b]" using complete_body_calls [OF served(3)] pair by auto
    with tried(1) have last: "tried \<noteq> [] \<and> last tried = b_id b" using prefix_last served(2) by metis
    from complete_body_served [OF served(3) [unfolded pair]] last served(1) pair x tried(1) sub show ?thesis
      by (intro exI [of _ tried]) auto
  next
    case False
    have "or_calls w' = or_calls w1 \<and> (\<exists>e. x = Inl e)"
    proof (cases y)
      case (Inl e)
      with assms f show ?thesis by (auto simp: complete_walk_def)
    next
      case (Inr z)
      with False obtain le where "complete_exhausted S ro k model start le w1 = (x, w')"
        using assms f by (cases z) (auto simp: complete_walk_def)
      then show ?thesis
        using keepsD [OF exhausted_keeps(1)] exhausted_raises(1) by (cases x) fastforce+
    qed
    with tried(1) sub show ?thesis by (intro exI [of _ tried]) auto
  qed
qed

section \<open>Properties of completion\<close>

text \<open>
  C2. Failover is bounded and honest: whatever the routing policy, the clocks, Redis, the database
  and the backends do, a completion request calls each backend at most once, and only enabled
  candidates registered for the requested model. A result that is not from a cache is the answer
  of the last backend that was called, delivered before the timeout, with that backend's model and
  name; a result from a cache involves no backend at all.
\<close>

theorem complete_calls_candidates_once:
  assumes "handle_complete S ro k model ms bypass w = (x, w')"
  shows "\<exists>tried. or_calls w' = or_calls w @ tried \<and> distinct tried \<and>
    set tried \<subseteq> b_id ` set (at_model (gw_by_model w) model) \<and>
    (\<forall>r. x = Inr r \<longrightarrow>
       (if cr_cache_tier r = None
        then \<exists>b \<in> set (at_model (gw_by_model w) model). \<exists>c n d completion.
          map_of (gw_clients w) (b_id b) = Some c \<and> tried \<noteq> [] \<and> last tried = b_id b \<and>
          gv_complete S n c ms (b_model b) = (d, Inr completion) \<and> d < ro_timeout ro \<and>
          r = completion_result b completion
        else tried = [] \<and> cr_backend_name r = None \<and> cr_model r = model))"
  using assms
proof (cases rule: handle_complete_cases)
  case early
  then show ?thesis by (intro exI [of _ "[]"]) (auto simp: hit_result_def)
next
  case (walk start rid w1 ps)
  have cand: "candidates model w = (Inr ps, w)" by (rule candidates_at_walk [OF walk(1,2)])
  have w1: "or_calls w1 = or_calls w" by (rule more_determines(1) [OF reaches_backends_more [OF walk(1)]])
  have set: "set (ids ps) = b_id ` set (at_model (gw_by_model w) model)"
    unfolding candidates_members(1) [OF cand, symmetric] by (simp add: image_image)
  from complete_walk_calls [OF walk(4)] obtain tried where tried: "or_calls w' = or_calls w1 @ tried"
    "distinct tried" "set tried \<subseteq> set (ids ps)"
    and served: "\<And>r. x = Inr r \<Longrightarrow> \<exists>(b, c) \<in> set ps. \<exists>n d completion. tried \<noteq> [] \<and> last tried = b_id b \<and>
       gv_complete S n c ms (b_model b) = (d, Inr completion) \<and> d < ro_timeout ro \<and>
       r = completion_result b completion" by blast
  have "cr_cache_tier r = None \<and> (\<exists>b \<in> set (at_model (gw_by_model w) model). \<exists>c n d completion.
          map_of (gw_clients w) (b_id b) = Some c \<and> tried \<noteq> [] \<and> last tried = b_id b \<and>
          gv_complete S n c ms (b_model b) = (d, Inr completion) \<and> d < ro_timeout ro \<and>
          r = completion_result b completion)" if x: "x = Inr r" for r
  proof -
    from served [OF x] obtain b c n d completion where bc: "(b, c) \<in> set ps" "tried \<noteq> []" "last tried = b_id b"
      "gv_complete S n c ms (b_model b) = (d, Inr completion)" "d < ro_timeout ro"
      "r = completion_result b completion" by blast
    have "b \<in> set (map fst ps)" using bc(1) by force
    then have "b \<in> set (at_model (gw_by_model w) model)" by (simp only: candidates_members(1) [OF cand])
    moreover have "map_of (gw_clients w) (b_id b) = Some c" using candidates_members(2) [OF cand] bc(1) by blast
    moreover have "cr_cache_tier r = None" using bc(6) by (simp add: completion_result_def)
    ultimately show ?thesis using bc(2-6) by blast
  qed
  with tried w1 set show ?thesis by (intro exI [of _ tried]) auto
qed

section \<open>A concrete gateway\<close>

text \<open>
  A gateway with one registered backend in front of a Redis without any keys, to run the handlers
  on: every command succeeds and finds nothing.
\<close>

definition bare_redis :: "unit redis_api" where
  "bare_redis =
     \<lparr>rd_hget = (\<lambda>_ _. returnE None), rd_hset = (\<lambda>_ _. returnE ()), rd_get = (\<lambda>_. returnE None),
      rd_set_ex = (\<lambda>_ _ _. returnE ()), rd_lpush = (\<lambda>_ _. returnE ()), rd_ltrim = (\<lambda>_ _ _. returnE ()),
      rd_lrange = (\<lambda>_ _ _. returnE []), rd_zadd = (\<lambda>_ _ _. returnE ()), rd_zrem = (\<lambda>_ _. returnE ()),
      rd_zremrangebyscore = (\<lambda>_ _. returnE ()), rd_zrange = (\<lambda>_ _ _. returnE []),
      rd_expire = (\<lambda>_ _. returnE ()), rd_clock = (\<lambda>_. returnE ())\<rparr>"

definition example_orchestrator :: "'r RequestOrchestrator" where
  "example_orchestrator =
     \<lparr>ro_cache = \<lparr>tc_ttl_seconds = 3600, tc_similarity_threshold = 97 / 100\<rparr>,
      ro_breaker = \<lparr>cb_threshold = 5, cb_cooldown = 30\<rparr>, ro_latency_tracker = \<lparr>lt_window_size = 200\<rparr>,
      ro_policy = cost_select (1 / 2), ro_timeout = 30, ro_per_backend_concurrency = 16, ro_metrics = True\<rparr>"

definition example_key :: ApiKey where
  "example_key =
     \<lparr>ak_id = 5, ak_key_hash = ''h'', ak_name = ''k'', ak_token_budget = 1000, ak_window_seconds = 60,
      ak_enabled = True, ak_created_at = 0\<rparr>"

definition example_messages :: "ChatMessage list" where
  "example_messages = [\<lparr>m_role = ''user'', m_content = ''hi''\<rparr>]"

definition example_state :: "'r \<Rightarrow> 'r orchestrator_state" where
  "example_state r =
     (example_gateway_on r [example_row 1 ''a'' ''ollama'' 10]
        \<lparr>or_semaphores = Map.empty, or_calls = [], or_output = [], or_metrics = []\<rparr>)
     \<lparr>gw_clients := [(1, (0, OllamaClient ''http://x'' ''m'' ''a''))],
      gw_by_model := [''m'' \<mapsto> [example_backend 1 ''a'' 10 1]], gw_next_client := 1\<rparr>"

abbreviation example_world :: "'r redis_api \<Rightarrow> 'r orchestrator_services" where
  "example_world R \<equiv> example_calls_on R \<lparr>gv_slot_granted = (\<lambda>_. True)\<rparr>"

lemma bare_redis_sel [simp]:
  "rd_hget bare_redis k f = returnE None" "rd_hset bare_redis k fs = returnE ()" "rd_get bare_redis k = returnE None"
  "rd_zadd bare_redis k sc m = returnE ()" "rd_zremrangebyscore bare_redis k q = returnE ()"
  "rd_zrange bare_redis k i j = returnE []" "rd_expire bare_redis k n = returnE ()"
  "rd_clock bare_redis t = returnE ()"
  by (simp_all add: bare_redis_def)

lemma example_orchestrator_sel [simp]:
  "ro_policy example_orchestrator = cost_select (1 / 2)" "ro_timeout example_orchestrator = 30"
  "ro_per_backend_concurrency example_orchestrator = 16"
  by (simp_all add: example_orchestrator_def)

lemma example_state_sel [simp]:
  "gw_clients (example_state r) = [(1, (0, OllamaClient ''http://x'' ''m'' ''a''))]"
  "gw_by_model (example_state r) = [''m'' \<mapsto> [example_backend 1 ''a'' 10 1]]"
  "nd_ticks (example_state r) = 0" "or_calls (example_state r) = []" "or_output (example_state r) = []" "or_semaphores (example_state r) = Map.empty"
  by (simp_all add: example_state_def example_gateway_on_def example_node_on_def)

lemma example_candidates:
  "candidates ''m'' (example_state r) =
     (Inr [(example_backend 1 ''a'' 10 1, (0, OllamaClient ''http://x'' ''m'' ''a''))], example_state r)"
  by (simp add: candidates_def at_model_def example_backend_def)

theorem complete_calls_candidates_once_witness:
  "\<exists>tried. or_calls (snd (handle_complete (example_world bare_redis) example_orchestrator example_key ''m''
       example_messages True (example_state ()))) = tried \<and> distinct tried \<and> set tried \<subseteq> {1}"
  using complete_calls_candidates_once
    [of "example_world bare_redis" example_orchestrator example_key "''m''" example_messages True "example_state ()"
      "fst (handle_complete (example_world bare_redis) example_orchestrator example_key ''m'' example_messages True
         (example_state ()))"
      "snd (handle_complete (example_world bare_redis) example_orchestrator example_key ''m'' example_messages True
         (example_state ()))"]
  by (auto simp: at_model_def example_backend_def)

lemma walk_accounts:
  fixes w :: "('r, 'z) orchestrator_state_scheme"
  assumes "walk S policy features body remaining le w visits x w'" and "x = Inr (Inl le')"
    and body: "\<And>pair le w y w'. body pair le w = (Inr (Inl y), w') \<Longrightarrow>
      or_calls w' = or_calls w @ [b_id (fst pair)] \<and> y \<noteq> None \<or> or_calls w' = or_calls w \<and> y = le \<and> refused pair w"
  shows "\<exists>tried. or_calls w' = or_calls w @ tried \<and> subseq tried (ids visits) \<and>
    (le' = None \<longleftrightarrow> le = None \<and> tried = []) \<and>
    (\<forall>pair \<in> set visits. b_id (fst pair) \<notin> set tried \<longrightarrow> (\<exists>w1. refused pair w1))"
  using assms(1,2)
proof (induction rule: walk.induct)
  case (exhausted le w)
  then show ?case by simp
next
  case (failed remaining w pair rest w1 le le1 w2 visits x w3)
  then have k: "or_calls w1 = or_calls w" using keepsD [OF node_steps_keep_calls(10)] by blast
  from failed.IH failed.prems obtain tried where t: "or_calls w3 = or_calls w2 @ tried" "subseq tried (ids visits)"
    "le' = None \<longleftrightarrow> le1 = None \<and> tried = []"
    "\<forall>pair \<in> set visits. b_id (fst pair) \<notin> set tried \<longrightarrow> (\<exists>w1. refused pair w1)" by blast
  from body [OF failed.hyps(3)] show ?case
  proof
    assume "or_calls w2 = or_calls w1 @ [b_id (fst pair)] \<and> le1 \<noteq> None"
    with k t show ?thesis by (intro exI [of _ "b_id (fst pair) # tried"]) auto
  next
    assume "or_calls w2 = or_calls w1 \<and> le1 = le \<and> refused pair w1"
    with k t show ?thesis by (intro exI [of _ tried]) auto
  qed
qed auto


abbreviation down_world :: "unit orchestrator_services" where
  "down_world \<equiv> (example_world bare_redis)\<lparr>gv_complete := \<lambda>_ _ _ _. (1, Inl (BackendError ''down''))\<rparr>"

lemma example_reaches:
  "\<exists>rid w1. reaches_backends down_world example_orchestrator example_key ''m'' example_messages
     True (example_state ()) 0 rid w1"
  by (simp add: reaches_backends_def limiter_reserve_def lookup_def redis_call_def on_redis_def reserve_def
      reserve_script_def example_key_def example_messages_def estimate_tokens_def total_chars_def bindE_def)

lemma example_walk_fails:
  fixes w :: "unit orchestrator_state"
  assumes "or_semaphores w = Map.empty"
  shows "\<exists>w2. failover down_world (cost_select (1 / 2)) features
    (complete_body down_world example_orchestrator example_key ''m'' example_messages h t True start rid)
    [(example_backend 1 ''a'' 10 1, (0, OllamaClient ''http://x'' ''m'' ''a''))] None w =
    (Inr (Inl (Some (BackendError ''down''))), w2)"
  using assms
  by (simp add: failover.simps select_candidate_def redis_call_def on_redis_def cost_select_result bindE_def
      complete_body_def check_breaker_def allow_def allow_script_def under_semaphore_def semaphore_for_def
      acquire_def free_slots_def set_slots_def finallyE_def call_complete_def note_call_def tryE_def
      is_Exception_def is_blocked_def release_def complete_outcome_def record_outcome_def breaker_record_def
      record_script_def emit_def)


end
