(* ===== verification/Streaming.thy ===== *)
theory Streaming
  imports Pipeline
begin

text \<open>
  What the streaming handler of \<open>Orchestrator\<close> guarantees about the items it yields: the
  chunks of one backend, in order, then exactly one terminal result; failover only before the
  first chunk.
\<close>

section \<open>The chunks of one stream\<close>

fun texts :: "(rat \<times> StreamEvent) list \<Rightarrow> string list" where
  "texts [] = []"
| "texts ((_, Text chunk) # events) = chunk # texts events"
| "texts ((_, UsageEvent _) # events) = texts events"

lemma consume_stream_result:
  "consume_stream timeout events ending loc w = (x, w') \<Longrightarrow>
     \<exists>chunks loc' failure. x = Inr (loc', failure) \<and> w' = w\<lparr>or_output := or_output w @ map Inl chunks\<rparr> \<and>
       sl_accumulated loc' = sl_accumulated loc @ chunks \<and>
       (sl_any_yielded loc' \<longleftrightarrow> sl_any_yielded loc \<or> chunks \<noteq> []) \<and>
       prefix chunks (texts events) \<and> (failure = None \<longrightarrow> chunks = texts events)"
proof (induction timeout events ending loc arbitrary: w rule: consume_stream.induct)
  case (1 timeout finish failure loc)
  then show ?case by auto
next
  case (2 timeout arrival event events ending loc)
  show ?case
  proof (cases "arrival < timeout")
    case False
    with "2.prems" show ?thesis by auto
  next
    case True
    show ?thesis
    proof (cases event)
      case (UsageEvent u)
      with True "2.prems" "2.IH"(2) [of u w] show ?thesis by auto
    next
      case (Text chunk)
      let ?w = "w\<lparr>or_output := or_output w @ [Inl chunk]\<rparr>"
      let ?loc = "loc\<lparr>sl_accumulated := sl_accumulated loc @ [chunk], sl_any_yielded := True\<rparr>"
      have "consume_stream timeout events ending ?loc ?w = (x, w')"
        using True Text "2.prems" by (simp add: yield_item_def)
      from "2.IH"(1) [OF _ Text this] True obtain chunks loc' failure where
        "x = Inr (loc', failure)" "w' = ?w\<lparr>or_output := or_output ?w @ map Inl chunks\<rparr>"
        "sl_accumulated loc' = sl_accumulated ?loc @ chunks" "sl_any_yielded loc'"
        "prefix chunks (texts events)" "failure = None \<longrightarrow> chunks = texts events" by auto
      with Text show ?thesis by (intro exI [of _ "chunk # chunks"] exI [of _ loc'] exI [of _ failure]) simp
    qed
  qed
qed

text \<open>The chunks a state shows beyond those of an earlier one, as the stream of one call explains them.\<close>

definition streamed_from ::
  "('r, 's) orchestrator_services_scheme \<Rightarrow> ChatMessage list \<Rightarrow> Backend \<Rightarrow> live_client \<Rightarrow> string list \<Rightarrow> bool \<Rightarrow> bool" where
  "streamed_from S ms b c chunks whole \<longleftrightarrow>
     (\<exists>n. prefix chunks (texts (fst (gv_stream S n c ms (b_model b)))) \<and>
          (whole \<longrightarrow> chunks = texts (fst (gv_stream S n c ms (b_model b)))))"

lemma call_stream_result:
  assumes "call_stream S timeout ms b c w = (x, w')"
  shows "\<exists>chunks loc failure. x = Inr (loc, failure) \<and> or_calls w' = or_calls w @ [b_id b] \<and>
    or_output w' = or_output w @ map Inl chunks \<and> sl_accumulated loc = chunks \<and>
    (sl_any_yielded loc \<longleftrightarrow> chunks \<noteq> []) \<and> streamed_from S ms b c chunks (failure = None)"
proof -
  let ?n = "nd_ticks w"
  let ?w = "w\<lparr>or_calls := or_calls w @ [b_id b], nd_ticks := Suc ?n\<rparr>"
  obtain events ending where a: "gv_stream S ?n c ms (b_model b) = (events, ending)"
    by (cases "gv_stream S ?n c ms (b_model b)")
  with assms have "consume_stream timeout events ending no_locals ?w = (x, w')"
    by (simp add: call_stream_def note_call_def)
  from consume_stream_result [OF this] a show ?thesis
    by (force simp: streamed_from_def no_locals_def intro: exI [of _ ?n])
qed

lemma stream_attempt_result:
  assumes "stream_attempt S ro ms b c w = (x, w')"
  shows "(or_output w' = or_output w \<and> or_calls w' = or_calls w \<and>
       (\<forall>loc failure. x = Inr (loc, failure) \<longrightarrow> loc = no_locals \<and> failure \<noteq> None)) \<or>
     (\<exists>chunks. or_output w' = or_output w @ map Inl chunks \<and> or_calls w' = or_calls w @ [b_id b] \<and>
       streamed_from S ms b c chunks False \<and>
       (\<forall>loc failure. x = Inr (loc, failure) \<longrightarrow> sl_accumulated loc = chunks \<and>
          (sl_any_yielded loc \<longleftrightarrow> chunks \<noteq> []) \<and> streamed_from S ms b c chunks (failure = None)))"
proof -
  let ?call = "under_semaphore S (ro_per_backend_concurrency ro) (b_id b) (call_stream S (ro_timeout ro) ms b c)"
  let ?k = "\<lambda>outcome. case outcome of Inl exc \<Rightarrow> returnE (no_locals, Some exc)
    | Inr (locals, None) \<Rightarrow> returnE (locals, None)
    | Inr (locals, Some exc) \<Rightarrow> if is_Exception exc then returnE (locals, Some exc) else raiseE exc"
  obtain y w1 where call: "?call w = (y, w1)" by fastforce
  have "bindE (tryE ?call) ?k w = (x, w')" using assms unfolding stream_attempt_def .
  from this call have split: "(\<forall>e. y = Inl e \<longrightarrow> is_Exception e) \<and> ?k y w1 = (x, w') \<or>
      (\<exists>e. y = Inl e \<and> \<not> is_Exception e \<and> x = Inl e \<and> w' = w1)"
    by (rule bindE_tryE)
  then have w': "w' = w1" by (auto split: sum.splits prod.splits option.splits if_splits)
  from call show ?thesis
  proof (cases rule: under_semaphore_cases)
    case refused
    with split w' show ?thesis by (auto simp: is_Exception_def)
  next
    case blocked
    with split w' show ?thesis by auto
  next
    case (ran w2 w3)
    from call_stream_result [OF ran(1)] obtain chunks loc failure where
      y: "y = Inr (loc, failure)" and r: "or_calls w3 = or_calls w2 @ [b_id b]"
      "or_output w3 = or_output w2 @ map Inl chunks" "sl_accumulated loc = chunks"
      "sl_any_yielded loc \<longleftrightarrow> chunks \<noteq> []" "streamed_from S ms b c chunks (failure = None)" by blast
    have "x = Inr (loc, failure) \<or> (\<exists>e. x = Inl e)" using split y by (auto split: option.splits if_splits)
    moreover have "streamed_from S ms b c chunks False" using r(5) by (auto simp: streamed_from_def)
    ultimately show ?thesis using ran(2-5) r w' by (intro disjI2 exI [of _ chunks]) auto
  qed
qed

section \<open>One round of the walk\<close>

text \<open>An action that yields one given item as its last step, and nothing when it raises.\<close>

definition yields_last :: "string + CompletionResult \<Rightarrow> (('r, 'z) orchestrator_state_scheme, 'a) act \<Rightarrow> bool" where
  "yields_last item m \<longleftrightarrow>
     (\<forall>w x w'. m w = (x, w') \<longrightarrow> or_output w' = or_output w @ (case x of Inl _ \<Rightarrow> [] | Inr _ \<Rightarrow> [item]))"

lemma yields_lastD:
  "yields_last item m \<Longrightarrow> m w = (x, w') \<Longrightarrow>
     or_output w' = or_output w @ (case x of Inl _ \<Rightarrow> [] | Inr _ \<Rightarrow> [item])"
  unfolding yields_last_def by blast

lemma yields_last_bind: "keeps or_output m \<Longrightarrow> (\<And>x. yields_last item (k x)) \<Longrightarrow> yields_last item (bindE m k)"
  unfolding yields_last_def bindE_def by (auto split: prod.splits sum.splits dest: keepsD)

lemma yields_last_yield: "yields_last item (yield_item item)"
  by (simp add: yields_last_def yield_item_def)

lemma stream_success_yields:
  "yields_last (Inr (stream_result b loc)) (stream_success S ro k m h t bypass start rid b loc)"
  unfolding stream_success_def Let_def
  by (intro yields_last_bind yields_last_yield node_steps_keep_output emit_keeps keeps_if keeps_comb)

lemma stream_outcome_result:
  assumes "stream_outcome S ro k m h t bypass start rid b (loc, failure) w = (x, w')"
  shows "or_calls w' = or_calls w \<and>
    (case x of
       Inr (Inl le) \<Rightarrow> le \<noteq> None \<and> failure \<noteq> None \<and> \<not> sl_any_yielded loc \<and> or_output w' = or_output w
     | Inr (Inr _) \<Rightarrow> failure = None \<and> or_output w' = or_output w @ [Inr (stream_result b loc)]
     | Inl _ \<Rightarrow> or_output w' = or_output w)"
proof (cases failure)
  case None
  obtain y w1 where s: "stream_success S ro k m h t bypass start rid b loc w = (y, w1)" by fastforce
  have "or_calls w1 = or_calls w" by (rule keepsD [OF success_keeps_calls(2) s])
  moreover have "or_output w1 = or_output w @ (case y of Inl _ \<Rightarrow> [] | Inr _ \<Rightarrow> [Inr (stream_result b loc)])"
    by (rule yields_lastD [OF stream_success_yields s])
  ultimately show ?thesis using assms None s by (cases y) (auto simp: stream_outcome_def bindE_def)
next
  case (Some exc)
  obtain y w1 where s: "record_outcome S (ro_breaker ro) b False w = (y, w1)" by fastforce
  have "or_calls w1 = or_calls w" "or_output w1 = or_output w"
    using keepsD [OF node_steps_keep_calls(5) s] keepsD [OF node_steps_keep_output(5) s] by simp_all
  with assms Some s show ?thesis by (cases y) (auto simp: stream_outcome_def bindE_def split: if_splits)
qed

lemma stream_body_result:
  assumes "stream_body S ro k m ms h t bypass start rid (b, c) le w = (x, w')"
  shows "(or_calls w' = or_calls w \<and> or_output w' = or_output w \<and> (\<forall>u. x \<noteq> Inr (Inr u))) \<or>
    or_calls w' = or_calls w @ [b_id b] \<and>
      (case x of
         Inr (Inl _) \<Rightarrow> or_output w' = or_output w
       | Inr (Inr _) \<Rightarrow> \<exists>chunks loc. or_output w' = or_output w @ map Inl chunks @ [Inr (stream_result b loc)] \<and>
           sl_accumulated loc = chunks \<and> streamed_from S ms b c chunks True
       | Inl _ \<Rightarrow> \<exists>chunks. or_output w' = or_output w @ map Inl chunks \<and> streamed_from S ms b c chunks False)"
proof -
  obtain r w1 where chk: "check_breaker S (ro_breaker ro) b w = (r, w1)" by fastforce
  have k1: "or_calls w1 = or_calls w" "or_output w1 = or_output w"
    using keepsD [OF node_steps_keep_calls(4) chk] keepsD [OF node_steps_keep_output(4) chk] by simp_all
  show ?thesis
  proof (cases "r = Inr True")
    case False
    then have "r = Inr False \<or> (\<exists>e. r = Inl e)" by (cases r) auto
    with assms chk k1 show ?thesis by (auto simp: stream_body_def bindE_def)
  next
    case True
    obtain y w2 where att: "stream_attempt S ro ms b c w1 = (y, w2)" by fastforce
    show ?thesis
    proof (cases y)
      case (Inl e)
      with assms chk True att have "x = Inl e" "w' = w2" by (simp_all add: stream_body_def bindE_def)
      with stream_attempt_result [OF att] k1 show ?thesis by auto
    next
      case (Inr out)
      obtain loc failure where out: "out = (loc, failure)" by (cases out)
      have "stream_outcome S ro k m h t bypass start rid b (loc, failure) w2 = (x, w')"
        using assms chk True att Inr out by (simp add: stream_body_def bindE_def)
      note o = stream_outcome_result [OF this]
      from stream_attempt_result [OF att] show ?thesis
      proof
        assume "or_output w2 = or_output w1 \<and> or_calls w2 = or_calls w1 \<and>
          (\<forall>loc failure. y = Inr (loc, failure) \<longrightarrow> loc = no_locals \<and> failure \<noteq> None)"
        with o Inr out k1 show ?thesis by (auto split: sum.splits)
      next
        assume "\<exists>chunks. or_output w2 = or_output w1 @ map Inl chunks \<and> or_calls w2 = or_calls w1 @ [b_id b] \<and>
          streamed_from S ms b c chunks False \<and>
          (\<forall>loc failure. y = Inr (loc, failure) \<longrightarrow> sl_accumulated loc = chunks \<and>
             (sl_any_yielded loc \<longleftrightarrow> chunks \<noteq> []) \<and> streamed_from S ms b c chunks (failure = None))"
        then obtain chunks where "or_output w2 = or_output w1 @ map Inl chunks"
          "or_calls w2 = or_calls w1 @ [b_id b]" "streamed_from S ms b c chunks False"
          "sl_accumulated loc = chunks" "sl_any_yielded loc \<longleftrightarrow> chunks \<noteq> []"
          "streamed_from S ms b c chunks (failure = None)"
          using Inr out by blast
        with o k1 show ?thesis by (intro disjI2) (auto split: sum.splits)
      qed
    qed
  qed
qed

section \<open>The walk and the handler\<close>

lemma walk_output:
  fixes w :: "('r, 'z) orchestrator_state_scheme"
  assumes "walk S policy features body remaining le w visits x w'"
    and quiet: "\<And>pair le w y w'. body pair le w = (Inr (Inl y), w') \<Longrightarrow> or_output w' = or_output w"
    and calls: "\<And>pair le w x w'. body pair le w = (x, w') \<Longrightarrow>
      or_calls w' = or_calls w \<or> or_calls w' = or_calls w @ [b_id (fst pair)]"
  shows "or_output w' = or_output w \<and> (\<forall>u. x \<noteq> Inr (Inr u)) \<or>
    (\<exists>pair le1 w1. pair \<in> set remaining \<and> body pair le1 w1 = (x, w') \<and> or_output w1 = or_output w \<and>
       prefix (or_calls w) (or_calls w1))"
  using assms(1)
proof (induction rule: walk.induct)
  case (exhausted le w)
  then show ?case by simp
next
  case (unselectable remaining w e w1 le)
  then have "or_output w1 = or_output w" using keepsD [OF node_steps_keep_output(10)] by blast
  then show ?case by simp
next
  case (raised remaining w pair rest w1 le e w2)
  have "or_output w1 = or_output w" "or_calls w1 = or_calls w"
    using raised(2) keepsD [OF node_steps_keep_output(10)] keepsD [OF node_steps_keep_calls(10)] by blast+
  then have "or_output w1 = or_output w" "prefix (or_calls w) (or_calls w1)" by simp_all
  with raised(3) select_candidate_result(1) [OF raised(2)] show ?case by blast
next
  case (served remaining w pair rest w1 le y w2)
  have "or_output w1 = or_output w" "or_calls w1 = or_calls w"
    using served(2) keepsD [OF node_steps_keep_output(10)] keepsD [OF node_steps_keep_calls(10)] by blast+
  then have "or_output w1 = or_output w" "prefix (or_calls w) (or_calls w1)" by simp_all
  with served(3) select_candidate_result(1) [OF served(2)] show ?case by blast
next
  case (failed remaining w pair rest w1 le le' w2 visits x w3)
  have k: "or_output w1 = or_output w" "or_calls w1 = or_calls w"
    using failed(2) keepsD [OF node_steps_keep_output(10)] keepsD [OF node_steps_keep_calls(10)] by blast+
  have k2: "or_output w2 = or_output w" "prefix (or_calls w) (or_calls w2)"
    using quiet [OF failed(3)] calls [OF failed(3)] k by auto
  have "set rest \<subseteq> set remaining" using select_candidate_result(2) [OF failed(2)] by auto
  from failed.IH show ?case
  proof
    assume "or_output w3 = or_output w2 \<and> (\<forall>u. x \<noteq> Inr (Inr u))"
    with k2(1) show ?thesis by simp
  next
    assume "\<exists>pair le1 w1. pair \<in> set rest \<and> body pair le1 w1 = (x, w3) \<and> or_output w1 = or_output w2 \<and>
       prefix (or_calls w2) (or_calls w1)"
    then obtain q le1 w4 where q: "q \<in> set rest" "body q le1 w4 = (x, w3)" "or_output w4 = or_output w2"
      "prefix (or_calls w2) (or_calls w4)" by blast
    have "prefix (or_calls w) (or_calls w4)" using k2(2) q(4) by (rule prefix_order.trans)
    moreover have "q \<in> set remaining" using q(1) \<open>set rest \<subseteq> set remaining\<close> by blast
    moreover have "or_output w4 = or_output w" using q(3) k2(1) by simp
    ultimately show ?thesis using q(2) by blast
  qed
qed

lemma stream_body_quiet:
  "stream_body S ro k m ms h t bypass start rid pair le w = (Inr (Inl y), w') \<Longrightarrow> or_output w' = or_output w"
  using stream_body_result [of S ro k m ms h t bypass start rid "fst pair" "snd pair" le w "Inr (Inl y)" w'] by auto

lemma stream_body_trace:
  "stream_body S ro k m ms h t bypass start rid pair le w = (x, w') \<Longrightarrow>
     or_calls w' = or_calls w \<or> or_calls w' = or_calls w @ [b_id (fst pair)]"
  using stream_body_result [of S ro k m ms h t bypass start rid "fst pair" "snd pair" le w x w'] by auto

text \<open>
  What a run of the handler may have yielded beyond the earlier output: with a result, the complete
  stream of the last backend called and the terminal item built from it; with an exception, a part
  of that stream and no terminal item.
\<close>

definition one_stream ::
  "('r, 's) orchestrator_services_scheme \<Rightarrow> ChatMessage list \<Rightarrow> (Backend \<times> live_client) list \<Rightarrow> uuid list \<Rightarrow>
   exn + unit \<Rightarrow> (string + CompletionResult) list \<Rightarrow> bool" where
  "one_stream S ms ps tried x items \<longleftrightarrow>
     (case x of
        Inr _ \<Rightarrow> \<exists>(b, c) \<in> set ps. \<exists>chunks loc. items = map Inl chunks @ [Inr (stream_result b loc)] \<and>
          sl_accumulated loc = chunks \<and> streamed_from S ms b c chunks True \<and> tried \<noteq> [] \<and> last tried = b_id b
      | Inl _ \<Rightarrow> items = [] \<or>
          (\<exists>(b, c) \<in> set ps. \<exists>chunks. items = map Inl chunks \<and> streamed_from S ms b c chunks False \<and>
             tried \<noteq> [] \<and> last tried = b_id b))"

lemma stream_walk_end:
  assumes "stream_walk S ro k model ms bypass start rid ps w = (x, w')"
    and "failover S (ro_policy ro) (request_features model ms)
      (stream_body S ro k model ms (prompt_hash (sv_sha256_hex S) model ms) (prompt_text ms) bypass start rid) ps None w = (y, w1)"
  shows "or_calls w' = or_calls w1 \<and> or_output w' = or_output w1 \<and>
    (case y of Inl e \<Rightarrow> x = Inl e | Inr (Inl _) \<Rightarrow> (\<exists>e. x = Inl e) | Inr (Inr _) \<Rightarrow> x = Inr ())"
proof (cases "\<exists>le. y = Inr (Inl le)")
  case True
  then obtain le where "y = Inr (Inl le)" by blast
  with assms have ex: "stream_exhausted S k model start le w1 = (x, w')" by (simp add: stream_walk_def)
  then have "\<exists>e. x = Inl e" using exhausted_raises(2) by (cases x) fastforce+
  with keepsD [OF exhausted_keeps(3) ex] keepsD [OF exhausted_keeps(4) ex] \<open>y = Inr (Inl le)\<close> show ?thesis by simp
next
  case False
  with assms show ?thesis by (cases y) (auto simp: stream_walk_def split: sum.splits)
qed

lemma stream_walk_yields:
  assumes "stream_walk S ro k model ms bypass start rid ps w = (x, w')"
  shows "\<exists>tried items. or_calls w' = or_calls w @ tried \<and> distinct tried \<and> set tried \<subseteq> set (ids ps) \<and>
    or_output w' = or_output w @ items \<and> one_stream S ms ps tried x items"
proof -
  let ?body = "stream_body S ro k model ms (prompt_hash (sv_sha256_hex S) model ms) (prompt_text ms) bypass start rid"
  obtain y w1 where f: "failover S (ro_policy ro) (request_features model ms) ?body ps None w = (y, w1)" by fastforce
  from failover_walk [OF f] obtain visits where
    walk: "walk S (ro_policy ro) (request_features model ms) ?body ps None w visits y w1" by blast
  from walk_calls [OF walk] stream_body_trace obtain tried where
    tried: "or_calls w1 = or_calls w @ tried" "subseq tried (ids visits)" by blast
  have "set (ids visits) \<subseteq> set (ids ps)" using walk_visits [OF walk] by auto
  then have sub: "distinct tried" "set tried \<subseteq> set (ids ps)"
    using walk_visits [OF walk] subseq_distinct_subset [OF tried(2)] by blast+
  note after = stream_walk_end [OF assms f]
  have "\<exists>items. or_output w1 = or_output w @ items \<and> one_stream S ms ps tried x items"
  proof (cases "or_output w1 = or_output w \<and> (\<forall>u. y \<noteq> Inr (Inr u))")
    case True
    then have "\<exists>e. x = Inl e" using after by (auto split: sum.splits)
    with True show ?thesis by (intro exI [of _ "[]"]) (auto simp: one_stream_def)
  next
    case False
    have "or_output w1 = or_output w \<and> (\<forall>u. y \<noteq> Inr (Inr u)) \<or>
      (\<exists>pair le1 w2. pair \<in> set ps \<and> ?body pair le1 w2 = (y, w1) \<and> or_output w2 = or_output w \<and>
         prefix (or_calls w) (or_calls w2))"
      by (rule walk_output [OF walk]) (erule stream_body_quiet, erule stream_body_trace)
    with False obtain pair le1 w2 where
      last: "pair \<in> set ps" "?body pair le1 w2 = (y, w1)" "or_output w2 = or_output w"
      "prefix (or_calls w) (or_calls w2)" by blast
    obtain b c where pair: "pair = (b, c)" by (cases pair)
    from stream_body_result [OF last(2) [unfolded pair]] False last(3)
    have called: "or_calls w1 = or_calls w2 @ [b_id b]" and
      out: "case y of Inr (Inl _) \<Rightarrow> or_output w1 = or_output w2
       | Inr (Inr _) \<Rightarrow> \<exists>chunks loc. or_output w1 = or_output w2 @ map Inl chunks @ [Inr (stream_result b loc)] \<and>
           sl_accumulated loc = chunks \<and> streamed_from S ms b c chunks True
       | Inl _ \<Rightarrow> \<exists>chunks. or_output w1 = or_output w2 @ map Inl chunks \<and> streamed_from S ms b c chunks False"
      by auto
    have tl: "tried \<noteq> [] \<and> last tried = b_id b" using prefix_last called tried(1) last(4) by metis
    consider e where "y = Inl e" | u where "y = Inr (Inr u)" using False out last(3) by (cases y) (auto split: sum.splits)
    then show ?thesis
    proof cases
      case 1
      with out after obtain chunks where "or_output w1 = or_output w2 @ map Inl chunks"
        "streamed_from S ms b c chunks False" "x = Inl e" by auto
      with tl last(1,3) pair show ?thesis by (intro exI [of _ "map Inl chunks"]) (auto simp: one_stream_def)
    next
      case 2
      with out after obtain loc where "or_output w1 = or_output w2 @ map Inl (sl_accumulated loc) @ [Inr (stream_result b loc)]"
        "streamed_from S ms b c (sl_accumulated loc) True" "x = Inr ()" by auto
      with tl last(1,3) pair show ?thesis
        by (intro exI [of _ "map Inl (sl_accumulated loc) @ [Inr (stream_result b loc)]"]) (auto simp: one_stream_def)
    qed
  qed
  with after tried(1) sub show ?thesis by auto
qed

lemma handle_stream_cases:
  assumes "handle_stream S ro k model ms bypass w = (x, w')"
  obtains (refused) e where "x = Inl e" "or_calls w' = or_calls w" "or_output w' = or_output w"
  | (hit) h where "x = Inr ()" "or_calls w' = or_calls w"
      "or_output w' = or_output w @ [Inl (ch_content h), Inr (hit_result model h)]"
  | (walk) start rid w1 ps where "reaches_backends S ro k model ms bypass w start rid w1"
      "candidates model w1 = (Inr ps, w1)" "ps \<noteq> []"
      "stream_walk S ro k model ms bypass start rid ps w1 = (x, w')"
proof -
  let ?h = "prompt_hash (sv_sha256_hex S) model ms" and ?t = "prompt_text ms"
  obtain start w0 where r: "reading (sv_perf_counter S) w = (Inr start, w0)" by simp
  have k0: "or_calls w0 = or_calls w" "or_output w0 = or_output w" using r by auto
  obtain rv w1 where rsv: "limiter_reserve S k (estimate_tokens ms) w0 = (rv, w1)" by fastforce
  have k1: "or_calls w1 = or_calls w0" "or_output w1 = or_output w0"
    using keepsD [OF node_steps_keep_calls(2) rsv] keepsD [OF node_steps_keep_output(2) rsv] by simp_all
  consider "rv = Inr None" | e where "rv = Inl e" | rid where "rv = Inr (Some rid)" by (metis option.exhaust sumE)
  then show ?thesis
  proof cases
    case 3
    obtain hv w2 where look: "lookup S ro bypass model ?h ?t w1 = (hv, w2)" by fastforce
    have k2: "or_calls w2 = or_calls w1" "or_output w2 = or_output w1"
      using keepsD [OF node_steps_keep_calls(8) look] keepsD [OF node_steps_keep_output(8) look] by simp_all
    consider "hv = Inr None" | e where "hv = Inl e" | h where "hv = Inr (Some h)" by (metis option.exhaust sumE)
    then show ?thesis
    proof cases
      case 1
      with r rsv 3 look have reach: "reaches_backends S ro k model ms bypass w start rid w2"
        by (auto simp: reaches_backends_def)
      obtain cv where cand: "candidates model w2 = (cv, w2)" by (simp add: candidates_def)
      consider e where "cv = Inl e" | "cv = Inr []" | ps where "cv = Inr ps" "ps \<noteq> []" by (cases cv) auto
      then show ?thesis
      proof cases
        case ps: (3 ps)
        have "stream_walk S ro k model ms bypass start rid ps w2 = (x, w')"
          using assms r rsv \<open>rv = Inr (Some rid)\<close> look 1 cand ps by (simp add: handle_stream_def bindE_def)
        with reach cand ps walk show ?thesis by metis
      qed (use assms r rsv \<open>rv = Inr (Some rid)\<close> look 1 cand k0 k1 k2 refused in
          \<open>auto simp: handle_stream_def bindE_def\<close>)
    next
      case (3 h)
      obtain sv w3 where serve: "serve_hit S ro k model start rid h w2 = (sv, w3)" by fastforce
      have k3: "or_calls w3 = or_calls w2" "or_output w3 = or_output w2"
        using keepsD [OF success_keeps_calls(3) serve] keepsD [OF complete_success_keeps_output(2) serve]
        by simp_all
      show ?thesis
      proof (cases sv)
        case (Inl e)
        with assms r rsv \<open>rv = Inr (Some rid)\<close> look 3 serve k0 k1 k2 k3 refused show ?thesis
          by (auto simp: handle_stream_def bindE_def)
      next
        case (Inr u)
        with assms r rsv \<open>rv = Inr (Some rid)\<close> look 3 serve k0 k1 k2 k3 hit [of h] show ?thesis
          by (auto simp: handle_stream_def bindE_def yield_item_def)
      qed
    qed (use assms r rsv 3 look k0 k1 k2 refused in \<open>auto simp: handle_stream_def bindE_def\<close>)
  qed (use assms r rsv k0 k1 refused in \<open>auto simp: handle_stream_def bindE_def\<close>)
qed

lemma stream_items:
  assumes "handle_stream S ro k model ms bypass w = (x, w')"
  shows "\<exists>chunks. case x of
      Inr _ \<Rightarrow> \<exists>r. or_output w' = or_output w @ map Inl chunks @ [Inr r] \<and> cr_content r = concat chunks
    | Inl _ \<Rightarrow> or_output w' = or_output w @ map Inl chunks"
  using assms
proof (cases rule: handle_stream_cases)
  case (refused e)
  then show ?thesis by (intro exI [of _ "[]"]) simp
next
  case (hit h)
  then show ?thesis by (intro exI [of _ "[ch_content h]"]) (simp add: hit_result_def)
next
  case (walk start rid w1 ps)
  have w1: "or_output w1 = or_output w" by (rule more_determines(2) [OF reaches_backends_more [OF walk(1)]])
  from stream_walk_yields [OF walk(4)] obtain tried items where items: "or_output w' = or_output w1 @ items"
    "one_stream S ms ps tried x items" by blast
  show ?thesis
  proof (cases x)
    case (Inl e)
    with items(2) obtain chunks where "items = map Inl chunks" by (auto simp: one_stream_def)
    with Inl items(1) w1 show ?thesis by (intro exI [of _ chunks]) simp
  next
    case (Inr u)
    with items(2) obtain b loc where "items = map Inl (sl_accumulated loc) @ [Inr (stream_result b loc)]"
      by (auto simp: one_stream_def)
    with Inr items(1) w1 show ?thesis by (intro exI [of _ "sl_accumulated loc"]) (simp add: stream_result_def)
  qed
qed

section \<open>Property\<close>

text \<open>
  C1. Streams are never spliced. Whatever the environment does, the items one streaming request
  yields are text chunks followed, exactly when the handler returns normally, by one terminal
  result whose content is the concatenation of the chunks. Chunks that are not from a cache all
  come, in order, from one stream of the last backend that was called, all of it when the request
  succeeds, a part of it when it raises: after the first chunk no other backend is tried. Each
  candidate is called at most once.
\<close>

theorem stream_never_splices:
  assumes "handle_stream S ro k model ms bypass w = (x, w')"
  shows "\<exists>tried chunks. or_calls w' = or_calls w @ tried \<and> distinct tried \<and>
    set tried \<subseteq> b_id ` set (at_model (gw_by_model w) model) \<and>
    (case x of
       Inr _ \<Rightarrow> \<exists>r. or_output w' = or_output w @ map Inl chunks @ [Inr r] \<and> cr_content r = concat chunks \<and>
         (if cr_cache_tier r = None
          then \<exists>b \<in> set (at_model (gw_by_model w) model). \<exists>c. map_of (gw_clients w) (b_id b) = Some c \<and>
            tried \<noteq> [] \<and> last tried = b_id b \<and> streamed_from S ms b c chunks True \<and>
            cr_backend_name r = Some (b_name b) \<and> cr_model r = b_model b
          else tried = [] \<and> cr_backend_name r = None)
     | Inl _ \<Rightarrow> or_output w' = or_output w @ map Inl chunks \<and>
         (chunks = [] \<or> (\<exists>b \<in> set (at_model (gw_by_model w) model). \<exists>c. map_of (gw_clients w) (b_id b) = Some c \<and>
            tried \<noteq> [] \<and> last tried = b_id b \<and> streamed_from S ms b c chunks False)))"
  using assms
proof (cases rule: handle_stream_cases)
  case (refused e)
  then show ?thesis by (intro exI [of _ "[]"]) auto
next
  case (hit h)
  then show ?thesis
    by (intro exI [of _ "[]"] exI [of _ "[ch_content h]"]) (auto simp: hit_result_def)
next
  case (walk start rid w1 ps)
  have cand: "candidates model w = (Inr ps, w)" by (rule candidates_at_walk [OF walk(1,2)])
  note more = reaches_backends_more [OF walk(1)]
  have set: "set (ids ps) = b_id ` set (at_model (gw_by_model w) model)"
    unfolding candidates_members(1) [OF cand, symmetric] by (simp add: image_image)
  have mem: "b \<in> set (at_model (gw_by_model w) model)" "map_of (gw_clients w) (b_id b) = Some c" if "(b, c) \<in> set ps" for b c
  proof -
    have "b \<in> set (map fst ps)" using that by force
    then show "b \<in> set (at_model (gw_by_model w) model)" by (simp only: candidates_members(1) [OF cand])
    show "map_of (gw_clients w) (b_id b) = Some c" using candidates_members(2) [OF cand] that by blast
  qed
  from stream_walk_yields [OF walk(4)] obtain tried items where t: "or_calls w' = or_calls w1 @ tried"
    "distinct tried" "set tried \<subseteq> set (ids ps)" "or_output w' = or_output w1 @ items"
    "one_stream S ms ps tried x items" by blast
  show ?thesis
  proof (cases x)
    case (Inl e)
    with t(5) obtain chunks where "items = map Inl chunks" "chunks = [] \<or> (\<exists>(b, c) \<in> set ps.
        streamed_from S ms b c chunks False \<and> tried \<noteq> [] \<and> last tried = b_id b)"
      by (auto simp: one_stream_def)
    with Inl t(1-4) set mem more_determines(1,2) [OF more] show ?thesis
      by (intro exI [of _ tried] exI [of _ chunks]) force
  next
    case (Inr u)
    with t(5) obtain b c loc where bc: "(b, c) \<in> set ps" "items = map Inl (sl_accumulated loc) @ [Inr (stream_result b loc)]"
      "streamed_from S ms b c (sl_accumulated loc) True" "tried \<noteq> []" "last tried = b_id b"
      by (auto simp: one_stream_def)
    have key: "\<exists>b' \<in> set (at_model (gw_by_model w) model). \<exists>c'. map_of (gw_clients w) (b_id b') = Some c' \<and>
        tried \<noteq> [] \<and> last tried = b_id b' \<and> streamed_from S ms b' c' (sl_accumulated loc) True \<and>
        cr_backend_name (stream_result b loc) = Some (b_name b') \<and> cr_model (stream_result b loc) = b_model b'"
      using mem [OF bc(1)] bc(3-5) by (intro bexI [of _ b] exI [of _ c]) (simp_all add: stream_result_def)
    have "cr_cache_tier (stream_result b loc) = None" "cr_content (stream_result b loc) = concat (sl_accumulated loc)"
      by (simp_all add: stream_result_def)
    with key Inr t(1-4) bc(2) set more_determines(1,2) [OF more] show ?thesis
      by (intro exI [of _ tried] exI [of _ "sl_accumulated loc"]) simp
  qed
qed

theorem stream_never_splices_witness:
  "let run = handle_stream (example_world bare_redis) example_orchestrator example_key ''m'' example_messages True
       (example_state ()) in
   \<exists>tried. or_calls (snd run) = tried \<and> distinct tried \<and> set tried \<subseteq> {1} \<and>
     (\<forall>u. fst run = Inr u \<longrightarrow> (\<exists>chunks r. or_output (snd run) = map Inl chunks @ [Inr r] \<and> cr_content r = concat chunks))"
proof -
  let ?run = "handle_stream (example_world bare_redis) example_orchestrator example_key ''m'' example_messages True
       (example_state ())"
  have "?run = (fst ?run, snd ?run)" by simp
  from stream_never_splices [OF this] show ?thesis
    unfolding Let_def by (auto simp: at_model_def example_backend_def)
qed

end
