(* ===== verification/Contracts.thy ===== *)
theory Contracts
  imports Streaming
begin

text \<open>
  Contracts of actions: \<open>ensures P m Q\<close> says that from a state with \<open>P\<close> the action \<open>m\<close> ends in an
  outcome and a state with \<open>Q\<close>, \<open>maintains I m\<close> that it keeps the assertion \<open>I\<close> however it ends.
  There is one rule per combinator and one for the failover loop, and both handlers are cut once
  into their steps, so that a property of the handlers needs only the contracts of the steps it
  is about.
\<close>

section \<open>Contracts and their rules\<close>

definition ensures :: "('s \<Rightarrow> bool) \<Rightarrow> ('s, 'a) act \<Rightarrow> (exn + 'a \<Rightarrow> 's \<Rightarrow> bool) \<Rightarrow> bool" where
  "ensures P m Q \<longleftrightarrow> (\<forall>s. P s \<longrightarrow> (case m s of (x, s') \<Rightarrow> Q x s'))"

abbreviation maintains :: "('s \<Rightarrow> bool) \<Rightarrow> ('s, 'a) act \<Rightarrow> bool" where
  "maintains I m \<equiv> ensures I m (\<lambda>_. I)"

lemma ensuresD: "ensures P m Q \<Longrightarrow> P s \<Longrightarrow> m s = (x, s') \<Longrightarrow> Q x s'"
  by (auto simp: ensures_def)

lemma ensuresI: "(\<And>s x s'. P s \<Longrightarrow> m s = (x, s') \<Longrightarrow> Q x s') \<Longrightarrow> ensures P m Q"
  by (auto simp: ensures_def)

lemma ensures_weaken: "ensures P m Q \<Longrightarrow> (\<And>x s. Q x s \<Longrightarrow> R x s) \<Longrightarrow> ensures P m R"
  by (auto simp: ensures_def)

lemma ensures_bind:
  assumes "ensures P m (\<lambda>x s. case x of Inl e \<Rightarrow> Q (Inl e) s | Inr y \<Rightarrow> R y s)" and "\<And>y. ensures (R y) (k y) Q"
  shows "ensures P (bindE m k) Q"
proof (rule ensuresI)
  fix s x s' assume s: "P s" and run: "bindE m k s = (x, s')"
  obtain y t where m: "m s = (y, t)" by fastforce
  from ensuresD [OF assms(1) s m] run m assms(2) show "Q x s'"
    by (cases y) (auto dest: ensuresD)
qed

lemma ensures_then:
  assumes "maintains I m" and "\<And>e s. I s \<Longrightarrow> Q (Inl e) s" and "\<And>y. ensures I (k y) Q"
  shows "ensures I (bindE m k) Q"
proof (rule ensures_bind [where R = "\<lambda>_. I"])
  show "ensures I m (\<lambda>x s. case x of Inl e \<Rightarrow> Q (Inl e) s | Inr _ \<Rightarrow> I s)"
    using assms(1) by (rule ensures_weaken) (auto intro: assms(2) split: sum.splits)
qed (rule assms(3))

lemma ensures_try:
  assumes "ensures P m (\<lambda>x s. case x of Inl e \<Rightarrow> (if is_Exception e then Q (Inr (Inl e)) s else Q (Inl e) s)
    | Inr y \<Rightarrow> Q (Inr (Inr y)) s)"
  shows "ensures P (tryE m) Q"
proof (rule ensuresI)
  fix s x s' assume s: "P s" and run: "tryE m s = (x, s')"
  obtain y t where m: "m s = (y, t)" by fastforce
  from ensuresD [OF assms s m] run m show "Q x s'"
    by (cases y) (auto simp: tryE_def split: if_splits)
qed

lemma ensures_if: "(b \<Longrightarrow> ensures P m Q) \<Longrightarrow> (\<not> b \<Longrightarrow> ensures P n Q) \<Longrightarrow> ensures P (if b then m else n) Q"
  by simp

lemma ensures_option:
  "(x = None \<Longrightarrow> ensures P m Q) \<Longrightarrow> (\<And>y. x = Some y \<Longrightarrow> ensures P (n y) Q) \<Longrightarrow>
     ensures P (case x of None \<Rightarrow> m | Some y \<Rightarrow> n y) Q"
  by (cases x) simp_all

lemma ensures_sum:
  "(\<And>y. x = Inl y \<Longrightarrow> ensures P (m y) Q) \<Longrightarrow> (\<And>y. x = Inr y \<Longrightarrow> ensures P (n y) Q) \<Longrightarrow>
     ensures P (case x of Inl y \<Rightarrow> m y | Inr y \<Rightarrow> n y) Q"
  by (cases x) simp_all

lemma ensures_return: "(\<And>s. P s \<Longrightarrow> Q (Inr x) s) \<Longrightarrow> ensures P (returnE x) Q"
  by (simp add: ensures_def)

lemma ensures_raise: "(\<And>s. P s \<Longrightarrow> Q (Inl e) s) \<Longrightarrow> ensures P (raiseE e) Q"
  by (simp add: ensures_def)

lemma maintains_of_keeps: "keeps f m \<Longrightarrow> maintains (\<lambda>w. P (f w)) m"
  unfolding ensures_def keeps_def by (metis (mono_tags, lifting) case_prod_beta)

lemma maintains_of_keeps2: "keeps f m \<Longrightarrow> keeps g m \<Longrightarrow> maintains (\<lambda>w. P (f w) (g w)) m"
  unfolding ensures_def keeps_def by (metis (mono_tags, lifting) case_prod_beta)

lemma maintains_bind: "maintains I m \<Longrightarrow> (\<And>y. maintains I (k y)) \<Longrightarrow> maintains I (bindE m k)"
  by (rule ensures_then)

lemma maintains_comb:
  "maintains I (returnE x)" "maintains I (raiseE e)" "maintains I (liftE y)" "maintains I (state_read f)"
  by (simp_all add: ensures_def)

lemma maintains_try: "maintains I m \<Longrightarrow> maintains I (tryE m)"
  by (rule ensures_try) (auto simp: ensures_def split: sum.splits)

lemma maintains_finally: "maintains I m \<Longrightarrow> maintains I c \<Longrightarrow> maintains I (finallyE m c)"
proof (rule ensuresI)
  fix s x s' assume m: "maintains I m" and c: "maintains I c" and s: "I s" and run: "finallyE m c s = (x, s')"
  obtain y t where y: "m s = (y, t)" by fastforce
  obtain z u where z: "c t = (z, u)" by fastforce
  have "I t" by (rule ensuresD [OF m s y])
  with ensuresD [OF c _ z] run y z show "I s'" by (cases z) (auto simp: finallyE_def split: if_splits)
qed

lemmas maintains_rules = maintains_bind maintains_comb maintains_try maintains_finally ensures_if ensures_option
  ensures_sum

text \<open>
  The failover loop: an assertion that the selection maintains, and that every round which goes on
  maintains, holds whenever the loop ends, together with what the last round ensures.
\<close>

lemma ensures_failover:
  assumes select: "\<And>rest. maintains I (select_candidate S policy features rest)"
    and body: "\<And>pair le. pair \<in> A \<Longrightarrow>
      ensures I (body pair le) (\<lambda>x s. case x of Inr (Inl _) \<Rightarrow> I s | _ \<Rightarrow> Q x s)"
    and stop: "\<And>x s. I s \<Longrightarrow> (\<forall>r. x \<noteq> Inr (Inr r)) \<Longrightarrow> Q x s"
    and "set remaining \<subseteq> A"
  shows "ensures I (failover S policy features body remaining le) Q"
proof (rule ensuresI)
  fix w x w' assume w: "I w" and run: "failover S policy features body remaining le w = (x, w')"
  from failover_walk [OF run] obtain visits where "walk S policy features body remaining le w visits x w'" by blast
  then show "Q x w'" using w assms(4)
  proof (induction rule: walk.induct)
    case (exhausted le w)
    then show ?case by (simp add: stop)
  next
    case (unselectable remaining w e w1 le)
    then have "I w1" using ensuresD [OF select] by blast
    then show ?case by (simp add: stop)
  next
    case (raised remaining w pair rest w1 le e w2)
    then have "I w1" using ensuresD [OF select] by blast
    moreover have "pair \<in> A" using raised select_candidate_result(1) by blast
    ultimately show ?case using ensuresD [OF body _ raised.hyps(3)] by fastforce
  next
    case (served remaining w pair rest w1 le r w2)
    then have "I w1" using ensuresD [OF select] by blast
    moreover have "pair \<in> A" using served select_candidate_result(1) by blast
    ultimately show ?case using ensuresD [OF body _ served.hyps(3)] by fastforce
  next
    case (failed remaining w pair rest w1 le le' w2 visits x w3)
    then have "I w1" using ensuresD [OF select] by blast
    moreover have "pair \<in> A" using failed select_candidate_result(1) by blast
    ultimately have "I w2" using ensuresD [OF body _ failed.hyps(3)] by fastforce
    moreover have "set rest \<subseteq> A" using failed.prems select_candidate_result(2) [OF failed.hyps(2)] by auto
    ultimately show ?case by (rule failed.IH)
  qed
qed

section \<open>What a call keeps\<close>

lemma consume_keeps_fields:
  "(\<And>w t. f (w\<lparr>or_output := t\<rparr>) = f w) \<Longrightarrow> keeps f (consume_stream timeout events ending locals)"
  by (induction timeout events ending locals rule: consume_stream.induct)
    (auto intro!: keeps_bind keeps_comb keeps_write simp: yield_item_def split: StreamEvent.splits)

lemma under_semaphore_keeps:
  assumes "keeps f body" and "\<And>w n. f (w\<lparr>nd_ticks := n\<rparr>) = f w" and "\<And>w s. f (w\<lparr>or_semaphores := s\<rparr>) = f w"
  shows "keeps f (under_semaphore S limit u body)"
  unfolding under_semaphore_def semaphore_for_def acquire_def release_def
  by (intro keeps_bind keeps_finally keeps_option keeps_if keeps_comb keeps_write keeps_reading assms(1))
    (auto simp: set_slots_def assms(2,3))

lemma calls_keep:
  assumes "\<And>w n. f (w\<lparr>nd_ticks := n\<rparr>) = f w" and "\<And>w c. f (w\<lparr>or_calls := c\<rparr>) = f w"
  shows "keeps f (call_complete S t ms b c)"
    and "(\<And>es fin loc. keeps f (consume_stream t es fin loc)) \<Longrightarrow> keeps f (call_stream S t ms b c)"
  unfolding call_complete_def call_stream_def note_call_def Let_def
  by (auto intro!: keeps_bind keeps_write keeps_reading keeps_comb assms split: prod.splits)

section \<open>Both handlers in steps\<close>

lemma ensures_candidates:
  assumes go: "\<And>w ps. I w \<Longrightarrow> candidates model w = (Inr ps, w) \<Longrightarrow> ensures I (go ps) Q"
    and stop: "\<And>e w. I w \<Longrightarrow> Q (Inl e) w"
  shows "ensures I (bindE (candidates model) (\<lambda>ps. if ps = [] then raiseE NoBackendsAvailable else go ps)) Q"
proof (rule ensuresI)
  fix w x w' assume w: "I w"
    and run: "bindE (candidates model) (\<lambda>ps. if ps = [] then raiseE NoBackendsAvailable else go ps) w = (x, w')"
  obtain y where y: "candidates model w = (y, w)" by (simp add: candidates_def)
  show "Q x w'"
  proof (cases "\<exists>ps. y = Inr ps \<and> ps \<noteq> []")
    case True
    with run y w show ?thesis using ensuresD [OF go [OF w] w] by auto
  next
    case False
    with y run w stop show ?thesis by (cases y) auto
  qed
qed

text \<open>
  \<open>pipeline_steps\<close> collects the steps of the handlers that keep an assertion \<open>I\<close>: everything up to
  the moment a request is answered or given up. The lemmas of the locale then reduce a contract of
  a handler to contracts of its three endings.
\<close>

locale pipeline_steps =
  fixes S :: "('r, 's) orchestrator_services_scheme" and ro :: "'r RequestOrchestrator" and k :: ApiKey
    and bypass :: bool and I :: "('r, 'z) orchestrator_state_scheme \<Rightarrow> bool"
  assumes ticks: "I w \<Longrightarrow> I (w\<lparr>nd_ticks := Suc (nd_ticks w)\<rparr>)"
    and reserve_step: "maintains I (limiter_reserve S k est)"
    and lookup_step: "maintains I (lookup S ro bypass model h t)"
    and select_step: "maintains I (select_candidate S (ro_policy ro) features rest)"
    and breaker_step: "maintains I (check_breaker S (ro_breaker ro) b)"
    and complete_step: "maintains I (under_semaphore S (ro_per_backend_concurrency ro) (b_id b) (call_complete S (ro_timeout ro) ms b c))"
    and stream_step: "maintains I (under_semaphore S (ro_per_backend_concurrency ro) (b_id b) (call_stream S (ro_timeout ro) ms b c))"
    and failure_step: "maintains I (record_outcome S (ro_breaker ro) b False)"
    and metric_step: "maintains I (emit ro event)"
begin

lemma clock_step: "maintains I (reading source)"
  by (rule ensuresI) (auto intro: ticks)

lemma complete_body_step:
  assumes success: "\<And>completion. ensures I
      (complete_success S ro k model h t bypass start rid (fst pair) completion) Q"
    and stop: "\<And>e w. I w \<Longrightarrow> Q (Inl e) w"
  shows "ensures I (complete_body S ro k model ms h t bypass start rid pair le)
    (\<lambda>x w. case x of Inl e \<Rightarrow> Q (Inl e) w | Inr (Inl _) \<Rightarrow> I w | Inr (Inr r) \<Rightarrow> Q (Inr r) w)" (is "ensures I _ ?Q")
proof -
  obtain b c where pair: "pair = (b, c)" by (cases pair)
  have tried: "maintains I (tryE (under_semaphore S (ro_per_backend_concurrency ro) (b_id b)
      (call_complete S (ro_timeout ro) ms b c)))"
    by (rule ensures_try, rule ensures_weaken [OF complete_step]) (auto split: sum.splits)
  have answered: "ensures I (bindE (complete_success S ro k model h t bypass start rid b completion)
      (\<lambda>r. returnE (Inr r))) ?Q" for completion
    by (rule ensures_bind [where R = "\<lambda>r. Q (Inr r)"], rule ensures_weaken [OF success [of completion, unfolded pair fst_conv]])
      (auto intro: ensures_return split: sum.splits)
  have after: "ensures I (complete_outcome S ro k model h t bypass start rid b out) ?Q" for out
    unfolding complete_outcome_def
    by (intro ensures_sum answered ensures_then [OF failure_step] ensures_then [OF metric_step] ensures_return)
      (auto intro: stop)
  show ?thesis
    unfolding complete_body_def pair Let_def prod.case
    by (intro ensures_then [OF breaker_step] ensures_if ensures_return ensures_then [OF tried] after) (auto intro: stop)
qed

lemma complete_walk_step:
  assumes success: "\<And>b c completion. (b, c) \<in> set ps \<Longrightarrow>
      ensures I (complete_success S ro k model (prompt_hash (sv_sha256_hex S) model ms) (prompt_text ms) bypass start rid b completion) Q"
    and exhausted: "\<And>le. ensures I (complete_exhausted S ro k model start le) Q"
    and stop: "\<And>e w. I w \<Longrightarrow> Q (Inl e) w"
  shows "ensures I (complete_walk S ro k model ms bypass start rid ps) Q"
proof -
  let ?body = "complete_body S ro k model ms (prompt_hash (sv_sha256_hex S) model ms) (prompt_text ms) bypass start rid"
  have "ensures I (failover S (ro_policy ro) (request_features model ms) ?body ps None)
    (\<lambda>x w. case x of Inl e \<Rightarrow> Q (Inl e) w | Inr (Inl _) \<Rightarrow> I w | Inr (Inr r) \<Rightarrow> Q (Inr r) w)"
  proof (rule ensures_failover [OF select_step, where A = "set ps"])
    fix pair le assume "pair \<in> set ps"
    then have "\<And>completion. ensures I (complete_success S ro k model (prompt_hash (sv_sha256_hex S) model ms)
        (prompt_text ms) bypass start rid (fst pair) completion) Q" using success by (metis prod.collapse)
    from complete_body_step [OF this stop]
    show "ensures I (?body pair le) (\<lambda>x w. case x of Inr (Inl _) \<Rightarrow> I w
      | _ \<Rightarrow> (case x of Inl e \<Rightarrow> Q (Inl e) w | Inr (Inl _) \<Rightarrow> I w | Inr (Inr r) \<Rightarrow> Q (Inr r) w))"
      by (rule ensures_weaken) (auto split: sum.splits)
  qed (auto intro: stop split: sum.splits)
  then show ?thesis
    unfolding complete_walk_def
    by (rule ensures_bind [where R = "\<lambda>y w. case y of Inl _ \<Rightarrow> I w | Inr r \<Rightarrow> Q (Inr r) w", OF ensures_weaken])
      (auto intro: ensures_return exhausted split: sum.splits)
qed

lemma handle_complete_step:
  assumes hit: "\<And>start rid h. ensures I (serve_hit S ro k model start rid h)
      (\<lambda>x w. case x of Inl e \<Rightarrow> Q (Inl e) w | Inr _ \<Rightarrow> Q (Inr (hit_result model h)) w)"
    and success: "\<And>w ps start rid b c completion. I w \<Longrightarrow> candidates model w = (Inr ps, w) \<Longrightarrow> (b, c) \<in> set ps \<Longrightarrow>
      ensures I (complete_success S ro k model (prompt_hash (sv_sha256_hex S) model ms) (prompt_text ms) bypass start rid b completion) Q"
    and exhausted: "\<And>start le. ensures I (complete_exhausted S ro k model start le) Q"
    and stop: "\<And>e w. I w \<Longrightarrow> Q (Inl e) w"
  shows "ensures I (handle_complete S ro k model ms bypass) Q"
proof -
  have cand: "ensures I (bindE (candidates model) (\<lambda>remaining. if remaining = [] then raiseE NoBackendsAvailable
      else complete_walk S ro k model ms bypass start rid remaining)) Q" for start rid
    by (rule ensures_candidates, rule complete_walk_step [OF success exhausted stop]) (auto intro: stop)
  show ?thesis
    unfolding handle_complete_def
    by (intro ensures_then [OF clock_step] ensures_then [OF reserve_step] ensures_option ensures_then [OF lookup_step]
        ensures_raise cand ensures_bind [OF hit] ensures_return stop) (auto intro: stop)
qed

lemma stream_body_step:
  assumes success: "\<And>locals. ensures I (stream_success S ro k model h t bypass start rid (fst pair) locals) Q"
    and stop: "\<And>e w. I w \<Longrightarrow> Q (Inl e) w"
  shows "ensures I (stream_body S ro k model ms h t bypass start rid pair le)
    (\<lambda>x w. case x of Inl e \<Rightarrow> Q (Inl e) w | Inr (Inl _) \<Rightarrow> I w | Inr (Inr r) \<Rightarrow> Q (Inr r) w)" (is "ensures I _ ?Q")
proof -
  obtain b c where pair: "pair = (b, c)" by (cases pair)
  have tried: "maintains I (tryE (under_semaphore S (ro_per_backend_concurrency ro) (b_id b)
      (call_stream S (ro_timeout ro) ms b c)))"
    by (rule ensures_try, rule ensures_weaken [OF stream_step]) (auto split: sum.splits)
  have attempt: "maintains I (stream_attempt S ro ms b c)"
    unfolding stream_attempt_def
    by (rule ensures_then [OF tried]) (auto intro!: ensures_return ensures_raise split: sum.splits prod.splits option.splits)
  have answered: "ensures I (bindE (stream_success S ro k model h t bypass start rid b locals)
      (\<lambda>_. returnE (Inr ()))) ?Q" for locals
    by (rule ensures_bind [where R = "\<lambda>r. Q (Inr r)"], rule ensures_weaken [OF success [of locals, unfolded pair fst_conv]])
      (auto intro: ensures_return split: sum.splits)
  have after: "ensures I (stream_outcome S ro k model h t bypass start rid b out) ?Q" for out
    unfolding stream_outcome_def
    by (intro ensures_option answered ensures_then [OF failure_step] ensures_if ensures_raise ensures_return)
      (auto intro: stop)
  show ?thesis
    unfolding stream_body_def pair Let_def prod.case
    by (intro ensures_then [OF breaker_step] ensures_if ensures_return ensures_then [OF attempt] after) (auto intro: stop)
qed

lemma stream_walk_step:
  assumes success: "\<And>b c locals. (b, c) \<in> set ps \<Longrightarrow>
      ensures I (stream_success S ro k model (prompt_hash (sv_sha256_hex S) model ms) (prompt_text ms) bypass start rid b locals) Q"
    and exhausted: "\<And>le. ensures I (stream_exhausted S k model start le) Q"
    and stop: "\<And>e w. I w \<Longrightarrow> Q (Inl e) w"
  shows "ensures I (stream_walk S ro k model ms bypass start rid ps) Q"
proof -
  let ?body = "stream_body S ro k model ms (prompt_hash (sv_sha256_hex S) model ms) (prompt_text ms) bypass start rid"
  have "ensures I (failover S (ro_policy ro) (request_features model ms) ?body ps None)
    (\<lambda>x w. case x of Inl e \<Rightarrow> Q (Inl e) w | Inr (Inl _) \<Rightarrow> I w | Inr (Inr r) \<Rightarrow> Q (Inr r) w)"
  proof (rule ensures_failover [OF select_step, where A = "set ps"])
    fix pair le assume "pair \<in> set ps"
    then have "\<And>locals. ensures I (stream_success S ro k model (prompt_hash (sv_sha256_hex S) model ms)
        (prompt_text ms) bypass start rid (fst pair) locals) Q" using success by (metis prod.collapse)
    from stream_body_step [OF this stop]
    show "ensures I (?body pair le) (\<lambda>x w. case x of Inr (Inl _) \<Rightarrow> I w
      | _ \<Rightarrow> (case x of Inl e \<Rightarrow> Q (Inl e) w | Inr (Inl _) \<Rightarrow> I w | Inr (Inr r) \<Rightarrow> Q (Inr r) w))"
      by (rule ensures_weaken) (auto split: sum.splits)
  qed (auto intro: stop split: sum.splits)
  then show ?thesis
    unfolding stream_walk_def
    by (rule ensures_bind [where R = "\<lambda>y w. case y of Inl _ \<Rightarrow> I w | Inr r \<Rightarrow> Q (Inr r) w", OF ensures_weaken])
      (auto intro: ensures_return exhausted split: sum.splits)
qed

lemma handle_stream_step:
  assumes hit: "\<And>start rid h. ensures I (bindE (serve_hit S ro k model start rid h) (\<lambda>_.
      bindE (yield_item (Inl (ch_content h))) (\<lambda>_. yield_item (Inr (hit_result model h))))) Q"
    and success: "\<And>w ps start rid b c locals. I w \<Longrightarrow> candidates model w = (Inr ps, w) \<Longrightarrow> (b, c) \<in> set ps \<Longrightarrow>
      ensures I (stream_success S ro k model (prompt_hash (sv_sha256_hex S) model ms) (prompt_text ms) bypass start rid b locals) Q"
    and exhausted: "\<And>start le. ensures I (stream_exhausted S k model start le) Q"
    and stop: "\<And>e w. I w \<Longrightarrow> Q (Inl e) w"
  shows "ensures I (handle_stream S ro k model ms bypass) Q"
proof -
  have cand: "ensures I (bindE (candidates model) (\<lambda>remaining. if remaining = [] then raiseE NoBackendsAvailable
      else stream_walk S ro k model ms bypass start rid remaining)) Q" for start rid
    by (rule ensures_candidates, rule stream_walk_step [OF success exhausted stop]) (auto intro: stop)
  show ?thesis
    unfolding handle_stream_def
    by (intro ensures_then [OF clock_step] ensures_then [OF reserve_step] ensures_option ensures_then [OF lookup_step]
        ensures_raise cand hit stop) (auto intro: stop)
qed

end

text \<open>When the steps of the endings keep the assertion too, both handlers do.\<close>

locale pipeline_invariant = pipeline_steps S ro k bypass I
  for S :: "('r, 's) orchestrator_services_scheme" and ro k bypass
    and I :: "('r, 'z) orchestrator_state_scheme \<Rightarrow> bool" +
  assumes success_step: "maintains I (record_outcome S (ro_breaker ro) b True)"
    and latency_step: "maintains I (record_latency S (ro_latency_tracker ro) b ms)"
    and put_step: "\<not> bypass \<Longrightarrow> maintains I (cache_put S (ro_cache ro) model h t content i j)"
    and settle_step: "maintains I (limiter_reconcile S k rid n)"
    and log_step: "maintains I (log_request S k model ms status bid tier i j cost reason)"
    and output_step: "I w \<Longrightarrow> I (w\<lparr>or_output := items\<rparr>)"
begin

lemma elapsed_step: "maintains I (elapsed_ms S start)"
  unfolding elapsed_ms_def by (intro maintains_rules clock_step)

lemma yield_step: "maintains I (yield_item item)"
  by (rule ensuresI) (auto simp: yield_item_def intro: output_step)

lemma put_unless_bypassed:
  "maintains I (if bypass then returnE () else cache_put S (ro_cache ro) model h t content i j)"
  by (intro ensures_if maintains_comb put_step)

lemma ending_steps:
  "maintains I (serve_hit S ro k model start rid hit)"
  "maintains I (complete_success S ro k model h t bypass start rid b completion)"
  "maintains I (stream_success S ro k model h t bypass start rid b locals)"
  "maintains I (complete_exhausted S ro k model start le)"
  "maintains I (stream_exhausted S k model start le)"
  unfolding serve_hit_def complete_success_def stream_success_def complete_exhausted_def stream_exhausted_def Let_def
  by (intro maintains_bind maintains_comb put_unless_bypassed elapsed_step success_step latency_step settle_step log_step
      metric_step yield_step)+

lemma handlers_maintain:
  "maintains I (handle_complete S ro k model ms bypass)" "maintains I (handle_stream S ro k model ms bypass)"
proof -
  show "maintains I (handle_complete S ro k model ms bypass)"
    by (rule handle_complete_step) (auto intro: ending_steps ensures_weaken [OF ending_steps(1)] split: sum.splits)
  show "maintains I (handle_stream S ro k model ms bypass)"
    by (rule handle_stream_step) (auto intro!: maintains_bind ending_steps yield_step)
qed

end

end
