(* ===== verification/Accounting.thy ===== *)
theory Accounting
  imports Contracts
begin

text \<open>
  The request log: which row a request leaves in \<open>request_log\<close>, for each way it can end.
\<close>

section \<open>Steps that write no row\<close>

definition request_log :: "('r, 'z) node_scheme \<Rightarrow> RequestLogModel list" where
  "request_log w = db_request_log (nd_db w)"

lemma request_log_upd [simp]:
  "request_log (w\<lparr>nd_ticks := n\<rparr>) = request_log w" "request_log (w\<lparr>nd_redis := r\<rparr>) = request_log w"
  "request_log (w\<lparr>nd_embeddings := e\<rparr>) = request_log w" "request_log (w\<lparr>nd_embeddings_resolved := b\<rparr>) = request_log w"
  "request_log (w\<lparr>nd_db := d\<rparr>) = db_request_log d"
  by (simp_all add: request_log_def)

lemma request_log_upd_gateway [simp]:
  fixes w :: "('r, 'z) orchestrator_state_scheme"
  shows "request_log (w\<lparr>or_calls := c\<rparr>) = request_log w" "request_log (w\<lparr>or_output := t\<rparr>) = request_log w"
    "request_log (w\<lparr>or_metrics := m\<rparr>) = request_log w" "request_log (w\<lparr>or_semaphores := s\<rparr>) = request_log w"
  by (simp_all add: request_log_def)

lemma node_steps_keep_log [keeps_rules]:
  "keeps request_log (elapsed_ms S start)"
  "keeps request_log (limiter_reserve S k est)"
  "keeps request_log (limiter_reconcile S k rid n)"
  "keeps request_log (check_breaker S cb b)"
  "keeps request_log (record_outcome S cb b ok)"
  "keeps request_log (record_latency S lt b ms)"
  "keeps request_log (lookup S ro bypass m h t)"
  "keeps request_log (select_candidate S policy features remaining)"
  unfolding elapsed_ms_def limiter_reserve_def limiter_reconcile_def check_breaker_def record_outcome_def
    record_latency_def lookup_def select_candidate_def
  by (intro keeps_bind keeps_reading keeps_redis_call keeps_comb keeps_if keeps_option cache_get_keeps; simp)+

lemma cache_put_keeps_log [keeps_rules]: "keeps request_log (cache_put S tc m h t c i j)"
proof -
  have "keeps request_log (on_db (cache_entry_insert u ts m h e c i j))" for u ts e
    by (rule keeps_on_db_part [where g = db_request_log])
      (auto simp: cache_entry_insert_def insert_cache_entry_def request_log_def)
  then show ?thesis
    unfolding cache_put_def semantic_put_def
    by (intro keeps_bind keeps_redis_call keeps_option keeps_comb keeps_reading semantic_embed_keeps; simp)
qed

lemma emit_keeps_log [keeps_rules]: "keeps request_log (emit ro x)" "keeps gw_by_model (emit ro x)"
  unfolding emit_def by (intro keeps_if keeps_write keeps_comb; simp)+

lemma gw_by_model_of_more: "keeps node.more m \<Longrightarrow> keeps gw_by_model m"
proof (erule keeps_of_more)
  fix w w' :: "('r, 'z) gateway_scheme"
  assume "node.more w' = node.more w"
  then show "gw_by_model w' = gw_by_model w" by (cases w; cases w'; simp)
qed

lemmas node_steps_keep_models [keeps_rules] = node_steps_keep_more [THEN gw_by_model_of_more]

lemmas consume_stream_keeps [keeps_rules] = consume_keeps_fields [of request_log] consume_keeps_fields [of gw_by_model]

section \<open>The row of a request\<close>

definition logged ::
  "ApiKey \<Rightarrow> string \<Rightarrow> int \<Rightarrow> uuid option \<Rightarrow> string option \<Rightarrow> int \<Rightarrow> int \<Rightarrow> rat \<Rightarrow> string option \<Rightarrow> RequestLogModel \<Rightarrow> bool" where
  "logged k model status backend_id tier tokens_in tokens_out cost reason row \<longleftrightarrow>
     rlm_api_key_id row = ak_id k \<and> rlm_model row = model \<and> rlm_status row = status \<and>
     rlm_backend_id row = backend_id \<and> rlm_cache_tier row = tier \<and> rlm_tokens_in row = tokens_in \<and>
     rlm_tokens_out row = tokens_out \<and> rlm_cost row = numeric6 cost \<and> rlm_finish_reason row = reason"

lemma guarded: "(if c then (Inl e, d) else y) = (x, d') \<Longrightarrow> x = Inl e \<and> d' = d \<or> y = (x, d')"
  by (cases c) auto

lemma insert_request_log_result:
  "insert_request_log row d = (x, d') \<Longrightarrow>
     case x of Inl _ \<Rightarrow> d' = d
     | Inr _ \<Rightarrow> db_request_log d' = db_request_log d @ [row\<lparr>rlm_cost := numeric6 (rlm_cost row)\<rparr>]"
  unfolding insert_request_log_def
  by (drule guarded, erule disjE, simp)+ auto

lemma log_request_row:
  fixes S :: "('r, 's) services_scheme"
  shows "ensures (\<lambda>w :: ('r, 'z) node_scheme. request_log w = L) (log_request S k model ms status bid tier i j cost reason)
     (\<lambda>x w. case x of Inl _ \<Rightarrow> request_log w = L
        | Inr _ \<Rightarrow> \<exists>row. request_log w = L @ [row] \<and> logged k model status bid tier i j cost reason row)"
proof (rule ensuresI)
  fix w w' :: "('r, 'z) node_scheme" and x
  assume L: "request_log w = L" and run: "log_request S k model ms status bid tier i j cost reason w = (x, w')"
  define row where "row =
    \<lparr>rlm_id = sv_uuid4 S (nd_ticks w), rlm_api_key_id = ak_id k, rlm_backend_id = bid, rlm_cache_tier = tier,
     rlm_model = model, rlm_tokens_in = i, rlm_tokens_out = j, rlm_cost = cost, rlm_latency_ms = ms,
     rlm_status = status, rlm_finish_reason = reason, rlm_ts = sv_db_now S (Suc (nd_ticks w))\<rparr>"
  obtain y d where ins: "insert_request_log row (nd_db w) = (y, d)" by fastforce
  from insert_request_log_result [OF ins] run L ins show "case x of Inl _ \<Rightarrow> request_log w' = L
      | Inr _ \<Rightarrow> \<exists>row. request_log w' = L @ [row] \<and> logged k model status bid tier i j cost reason row"
    by (cases y) (auto simp: log_request_def on_db_def request_log_insert_def row_def logged_def bindE_def
        request_log_def)
qed

text \<open>A metric or a yielded item never raises.\<close>

lemma ensures_emit:
  "(\<And>w m. J w \<Longrightarrow> J (w\<lparr>or_metrics := m\<rparr>)) \<Longrightarrow> ensures J (k ()) Q \<Longrightarrow> ensures J (bindE (emit ro x) k) Q"
  by (rule ensuresI) (auto simp: emit_def dest: ensuresD split: if_splits)

lemma ensures_last_emit:
  "(\<And>w m. J w \<Longrightarrow> Q (Inr ()) w \<and> Q (Inr ()) (w\<lparr>or_metrics := m\<rparr>)) \<Longrightarrow> ensures J (emit ro x) Q"
  by (rule ensuresI) (auto simp: emit_def split: if_splits)

lemma ensures_log:
  fixes S :: "('r, 's) services_scheme"
  assumes "\<And>e w. request_log w = L \<Longrightarrow> Q (Inl e) w"
    and "ensures (\<lambda>w :: ('r, 'z) node_scheme.
      \<exists>row. request_log w = L @ [row] \<and> logged k model status bid tier i j cost reason row) (next ()) Q"
  shows "ensures (\<lambda>w. request_log w = L) (bindE (log_request S k model ms status bid tier i j cost reason) next) Q"
proof (rule ensures_bind)
  show "ensures (\<lambda>w :: ('r, 'z) node_scheme. request_log w = L) (log_request S k model ms status bid tier i j cost reason)
     (\<lambda>x w. case x of Inl e \<Rightarrow> Q (Inl e) w
        | Inr _ \<Rightarrow> \<exists>row. request_log w = L @ [row] \<and> logged k model status bid tier i j cost reason row)"
    by (rule ensures_weaken [OF log_request_row]) (auto intro: assms(1) split: sum.splits)
qed (use assms(2) in simp)

lemma ensures_unlogged:
  "keeps request_log m \<Longrightarrow> (\<And>e w. request_log w = L \<Longrightarrow> Q (Inl e) w) \<Longrightarrow>
     (\<And>y. ensures (\<lambda>w. request_log w = L) (k y) Q) \<Longrightarrow> ensures (\<lambda>w. request_log w = L) (bindE m k) Q"
  by (rule ensures_then [OF maintains_of_keeps])

lemmas log_steps = node_steps_keep_log cache_put_keeps_log keeps_if [OF keeps_comb(1) cache_put_keeps_log]

lemma serve_hit_row:
  fixes S :: "('r, 's) services_scheme"
  shows "ensures (\<lambda>w :: ('r, 'z) orchestrator_state_scheme. request_log w = L) (serve_hit S ro k model start rid h)
    (\<lambda>x w. case x of Inl _ \<Rightarrow> request_log w = L
       | Inr _ \<Rightarrow> \<exists>row. request_log w = L @ [row] \<and> logged k model 200 None (Some (cache_tier_value (ch_tier h)))
           (ch_tokens_in h) (ch_tokens_out h) 0 None row)"
  unfolding serve_hit_def
  by (rule ensures_unlogged [OF log_steps(3)], simp, rule ensures_unlogged [OF log_steps(1)], simp,
      rule ensures_log, simp, rule ensures_last_emit, simp)

lemma complete_success_row:
  fixes S :: "('r, 's) services_scheme"
  shows "ensures (\<lambda>w :: ('r, 'z) orchestrator_state_scheme. request_log w = L)
    (complete_success S ro k model h t bypass start rid b completion)
    (\<lambda>x w. case x of Inl _ \<Rightarrow> request_log w = L
       | Inr r \<Rightarrow> r = completion_result b completion \<and> (\<exists>row. request_log w = L @ [row] \<and>
           logged k model 200 (Some (b_id b)) None (c_tokens_in completion) (c_tokens_out completion)
             (request_cost b (c_tokens_in completion) (c_tokens_out completion)) (Some ''stop'') row))"
  unfolding complete_success_def
  by (rule ensures_unlogged [OF log_steps(1)], simp, rule ensures_unlogged [OF log_steps(5)], simp,
      rule ensures_unlogged [OF log_steps(6)], simp, rule ensures_unlogged [OF log_steps(10)], simp,
      rule ensures_unlogged [OF log_steps(3)], simp, rule ensures_log, simp,
      rule ensures_emit, simp, rule ensures_emit, simp, rule ensures_return, simp)

lemma stream_success_row:
  fixes S :: "('r, 's) services_scheme"
  shows "ensures (\<lambda>w :: ('r, 'z) orchestrator_state_scheme. request_log w = L)
    (stream_success S ro k model h t bypass start rid b locals)
    (\<lambda>x w. case x of Inl _ \<Rightarrow> request_log w = L
       | Inr _ \<Rightarrow> \<exists>items row. or_output w = items @ [Inr (stream_result b locals)] \<and> request_log w = L @ [row] \<and>
           logged k model 200 (Some (b_id b)) None (usage_tokens_in locals) (usage_tokens_out locals)
             (request_cost b (usage_tokens_in locals) (usage_tokens_out locals)) (Some (usage_finish_reason locals)) row)"
  unfolding stream_success_def Let_def
  by (rule ensures_unlogged [OF log_steps(1)], simp, rule ensures_unlogged [OF log_steps(5)], simp,
      rule ensures_unlogged [OF log_steps(6)], simp, rule ensures_unlogged [OF log_steps(10)], simp,
      rule ensures_unlogged [OF log_steps(3)], simp, rule ensures_log, simp,
      rule ensures_emit, simp, rule ensuresI, auto simp: yield_item_def)

lemma exhausted_row:
  fixes S :: "('r, 's) services_scheme"
  shows "ensures (\<lambda>w :: ('r, 'z) orchestrator_state_scheme. request_log w = L) (complete_exhausted S ro k model start le)
      (\<lambda>x w. \<exists>e. x = Inl e \<and> (request_log w = L \<or> e = AllBackendsUnavailable le \<and>
         (\<exists>row. request_log w = L @ [row] \<and> logged k model 503 None None 0 0 0 None row)))"
    and "ensures (\<lambda>w :: ('r, 'z) orchestrator_state_scheme. request_log w = L) (stream_exhausted S k model start le)
      (\<lambda>x w. \<exists>e. x = Inl e \<and> (request_log w = L \<or> e = AllBackendsUnavailable le \<and>
         (\<exists>row. request_log w = L @ [row] \<and> logged k model 503 None None 0 0 0 None row)))"
  unfolding complete_exhausted_def stream_exhausted_def
  by (rule ensures_unlogged [OF log_steps(1)], simp, rule ensures_log, simp, rule ensures_emit, simp,
      rule ensures_raise, simp)
    (rule ensures_unlogged [OF log_steps(1)], simp, rule ensures_log, simp, rule ensures_raise, simp)

section \<open>The log of both handlers\<close>

definition log_at ::
  "RequestLogModel list \<Rightarrow> (string \<rightharpoonup> Backend list) \<Rightarrow> ('r, 'z) gateway_scheme \<Rightarrow> bool" where
  "log_at L pool w \<longleftrightarrow> request_log w = L \<and> gw_by_model w = pool"

lemma log_at_keeps: "keeps request_log m \<Longrightarrow> keeps gw_by_model m \<Longrightarrow> maintains (log_at L pool) m"
  unfolding log_at_def by (rule maintains_of_keeps2 [where P = "\<lambda>l p. l = L \<and> p = pool"])

lemma log_at_weaken:
  "ensures (\<lambda>w. request_log w = L) m Q \<Longrightarrow> (\<And>x w. Q x w \<Longrightarrow> R x w) \<Longrightarrow> ensures (log_at L pool) m R"
  by (auto simp: ensures_def log_at_def)

interpretation log: pipeline_steps S ro k bypass "log_at L pool" for S ro k bypass L pool
proof unfold_locales
  show "maintains (log_at L pool) (under_semaphore S (ro_per_backend_concurrency ro) (b_id b)
      (call_complete S (ro_timeout ro) ms b c))" for b ms c
    by (intro log_at_keeps under_semaphore_keeps calls_keep(1)) simp_all
  show "maintains (log_at L pool) (under_semaphore S (ro_per_backend_concurrency ro) (b_id b)
      (call_stream S (ro_timeout ro) ms b c))" for b ms c
    by (intro log_at_keeps under_semaphore_keeps calls_keep(2) consume_stream_keeps) simp_all
qed (auto simp: log_at_def intro!: log_at_keeps log_steps node_steps_keep_models emit_keeps_log)

text \<open>What the log says of an answer, and of a request that was given up.\<close>

definition answer_logged ::
  "ApiKey \<Rightarrow> string \<Rightarrow> Backend list \<Rightarrow> CompletionResult \<Rightarrow> RequestLogModel \<Rightarrow> bool" where
  "answer_logged k model pool r row \<longleftrightarrow>
     (\<exists>bid cost. logged k model 200 bid (map_option cache_tier_value (cr_cache_tier r)) (cr_tokens_in r)
        (cr_tokens_out r) cost (cr_finish_reason r) row \<and>
        (case cr_cache_tier r of
           Some _ \<Rightarrow> bid = None \<and> cost = 0
         | None \<Rightarrow> \<exists>b \<in> set pool. bid = Some (b_id b) \<and> cr_backend_name r = Some (b_name b) \<and>
             cost = request_cost b (cr_tokens_in r) (cr_tokens_out r)))"

definition failure_logged :: "ApiKey \<Rightarrow> string \<Rightarrow> exn \<Rightarrow> RequestLogModel list \<Rightarrow> RequestLogModel list \<Rightarrow> bool" where
  "failure_logged k model e before after \<longleftrightarrow>
     after = before \<or>
     (\<exists>le row. e = AllBackendsUnavailable le \<and> after = before @ [row] \<and> logged k model 503 None None 0 0 0 None row)"

lemma answer_logged_backend:
  assumes "b \<in> set pool"
    and "logged k model 200 (Some (b_id b)) None (cr_tokens_in r) (cr_tokens_out r)
      (request_cost b (cr_tokens_in r) (cr_tokens_out r)) (cr_finish_reason r) row"
    and "cr_cache_tier r = None" and "cr_backend_name r = Some (b_name b)"
  shows "answer_logged k model pool r row"
  using assms unfolding answer_logged_def by auto

lemma candidate_in_pool:
  assumes "candidates model w = (Inr ps, w)" and "(b, c) \<in> set ps"
  shows "b \<in> set (at_model (gw_by_model w) model)"
  using candidates_members(1) [OF assms(1)] assms(2) by (metis fst_conv image_eqI set_map)





end
