(* ===== verification/Api.thy ===== *)
theory Api
  imports Streaming
begin

text \<open>
  The HTTP interface, \<^verbatim>\<open>gateway/api/deps.py\<close>, \<^verbatim>\<open>gateway/api/routers.py\<close> and
  \<^verbatim>\<open>gateway/api/schemas.py\<close>, and the wiring of \<^verbatim>\<open>gateway/main.py\<close>. A handler is an action
  that returns the response model or raises; \<open>HTTPException\<close> is an exception as any other, which
  the framework turns into a response. Request bodies arrive validated; the validity of a body is
  the predicate \<open>valid_...\<close> of its schema. The text of a chunk is produced by another package and
  is the parameter \<open>av_dump_chunk\<close>.
\<close>

section \<open>Schemas\<close>

record ChatMessageIn =
  mi_role :: string
  mi_content :: string

record ChatCompletionRequest =
  cq_model :: string
  cq_messages :: "ChatMessageIn list"
  cq_stream :: bool

record ChatCompletionMessageOut =
  mo_role :: string
  mo_content :: string

record ChatCompletionChoice =
  cc_index :: int
  cc_message :: ChatCompletionMessageOut
  cc_finish_reason :: "string option"

record ChatCompletionUsage =
  cu_prompt_tokens :: int
  cu_completion_tokens :: int
  cu_total_tokens :: int

record ChatCompletionResponse =
  cp_id :: string
  cp_object :: string
  cp_created :: int
  cp_model :: string
  cp_choices :: "ChatCompletionChoice list"
  cp_usage :: ChatCompletionUsage
  cp_cache_tier :: "string option"

record ChatCompletionChunkDelta =
  cd_content :: "string option"

record ChatCompletionChunkChoice =
  kc_index :: int
  kc_delta :: ChatCompletionChunkDelta
  kc_finish_reason :: "string option"

record ChatCompletionChunk =
  ck_id :: string
  ck_object :: string
  ck_created :: int
  ck_model :: string
  ck_choices :: "ChatCompletionChunkChoice list"
  ck_usage :: "ChatCompletionUsage option"

record ModelInfo =
  mf_id :: string
  mf_object :: string

record ModelList =
  ml_object :: string
  ml_data :: "ModelInfo list"

record BackendUpsertRequest =
  bu_name :: string
  bu_type :: string
  bu_endpoint :: string
  bu_model :: string
  bu_priority :: int
  bu_cost_per_1k_in :: rat
  bu_cost_per_1k_out :: rat

record BackendOut =
  bo_id :: uuid
  bo_name :: string
  bo_type :: string
  bo_endpoint :: string
  bo_model :: string
  bo_priority :: int
  bo_enabled :: bool

record ApiKeyCreateRequest =
  kq_name :: string
  kq_token_budget :: int
  kq_window_seconds :: int

record ApiKeyCreateResponse =
  kp_id :: uuid
  kp_raw_key :: string

definition valid_chat_request :: "ChatCompletionRequest \<Rightarrow> bool" where
  "valid_chat_request body \<longleftrightarrow>
     (\<forall>m \<in> set (cq_messages body). mi_role m \<in> {''system'', ''user'', ''assistant''})"

definition valid_backend_request :: "BackendUpsertRequest \<Rightarrow> bool" where
  "valid_backend_request body \<longleftrightarrow> bu_type body \<in> {''ollama'', ''hosted''}"

definition valid_key_request :: "ApiKeyCreateRequest \<Rightarrow> bool" where
  "valid_key_request body \<longleftrightarrow> 0 < kq_token_budget body"

section \<open>Requests and parameters\<close>

text \<open>A request is what its header lookup answers.\<close>

type_synonym headers = "string \<Rightarrow> string option"

record 'r api_services = "'r orchestrator_services" +
  av_token_urlsafe :: "nat \<Rightarrow> string"
  av_select_1 :: "nat \<Rightarrow> exn + unit"
  av_ping :: "nat \<Rightarrow> exn + unit"
  av_redis_aclose :: "nat \<Rightarrow> exn + unit"
  av_engine_dispose :: "nat \<Rightarrow> exn + unit"
  av_dump_chunk :: "ChatCompletionChunk \<Rightarrow> string"
  av_render :: "metric list \<Rightarrow> string"

record 'r app =
  ap_settings :: GatewaySettings
  ap_orchestrator :: "'r RequestOrchestrator"

section \<open>Dependencies\<close>

definition require_api_key ::
  "('r, 's) services_scheme \<Rightarrow> headers \<Rightarrow> (('r, 'z) node_scheme, ApiKey) act" where
  "require_api_key S header =
     (case header ''X-API-Key'' of
        None \<Rightarrow> raiseE (HTTPException 401 ''missing X-API-Key'' [])
      | Some raw_key \<Rightarrow>
          if raw_key = [] then raiseE (HTTPException 401 ''missing X-API-Key'' [])
          else bindE (on_db (get_by_hash (sv_sha256_hex S raw_key))) (\<lambda>api_key.
            case api_key of
              None \<Rightarrow> raiseE (HTTPException 401 ''invalid API key'' [])
            | Some k \<Rightarrow> returnE k))"

definition require_admin_key :: "GatewaySettings \<Rightarrow> headers \<Rightarrow> ('w, unit) act" where
  "require_admin_key settings header =
     (if header ''X-Admin-Key'' \<noteq> Some (gs_admin_key settings)
      then raiseE (HTTPException 401 ''invalid admin key'' []) else returnE ())"

section \<open>Chat completions\<close>

definition to_chat_messages :: "ChatCompletionRequest \<Rightarrow> ChatMessage list" where
  "to_chat_messages body = map (\<lambda>m. \<lparr>m_role = mi_role m, m_content = mi_content m\<rparr>) (cq_messages body)"

definition uuid_hex :: "uuid \<Rightarrow> string" where
  "uuid_hex u = hex_fixed 32 (unat u)"

text \<open>Python's \<open>repr\<close> of a string, on characters below 256.\<close>

definition repr_char :: "char \<Rightarrow> char \<Rightarrow> string" where
  "repr_char quote c =
     (let n = of_char c :: nat in
      if c = quote \<or> n = 92 then [char_of (92 :: nat), c]
      else if n = 9 then [char_of (92 :: nat), CHR ''t'']
      else if n = 10 then [char_of (92 :: nat), CHR ''n'']
      else if n = 13 then [char_of (92 :: nat), CHR ''r'']
      else if n < 32 \<or> 127 \<le> n \<and> n \<le> 160 \<or> n = 173 then char_of (92 :: nat) # CHR ''x'' # hex_fixed 2 n
      else [c])"

definition py_repr :: "string \<Rightarrow> string" where
  "py_repr s =
     (let single = char_of (39 :: nat); double = char_of (34 :: nat);
          quote = (if single \<in> set s \<and> double \<notin> set s then double else single)
      in quote # concat (map (repr_char quote) s) @ [quote])"

definition usage_of :: "CompletionResult \<Rightarrow> ChatCompletionUsage" where
  "usage_of result =
     \<lparr>cu_prompt_tokens = cr_tokens_in result, cu_completion_tokens = cr_tokens_out result,
      cu_total_tokens = cr_tokens_in result + cr_tokens_out result\<rparr>"

definition text_chunk :: "string \<Rightarrow> int \<Rightarrow> string \<Rightarrow> string \<Rightarrow> ChatCompletionChunk" where
  "text_chunk completion_id created model event =
     \<lparr>ck_id = completion_id, ck_object = ''chat.completion.chunk'', ck_created = created, ck_model = model,
      ck_choices = [\<lparr>kc_index = 0, kc_delta = \<lparr>cd_content = Some event\<rparr>, kc_finish_reason = None\<rparr>],
      ck_usage = None\<rparr>"

definition final_chunk :: "string \<Rightarrow> int \<Rightarrow> CompletionResult \<Rightarrow> ChatCompletionChunk" where
  "final_chunk completion_id created event =
     \<lparr>ck_id = completion_id, ck_object = ''chat.completion.chunk'', ck_created = created, ck_model = cr_model event,
      ck_choices = [\<lparr>kc_index = 0, kc_delta = \<lparr>cd_content = None\<rparr>, kc_finish_reason = cr_finish_reason event\<rparr>],
      ck_usage = Some (usage_of event)\<rparr>"

definition newlines :: string where
  "newlines = [char_of (10 :: nat), char_of (10 :: nat)]"

definition frame :: "string \<Rightarrow> string" where
  "frame text = ''data: '' @ text @ newlines"

definition error_frame :: "string \<Rightarrow> string \<Rightarrow> string" where
  "error_frame message type =
     frame (json_dumps (JObj [(''error'', JObj [(''message'', JStr message), (''type'', JStr type)])]))"

definition item_frame ::
  "(ChatCompletionChunk \<Rightarrow> string) \<Rightarrow> string \<Rightarrow> int \<Rightarrow> string \<Rightarrow> string + CompletionResult \<Rightarrow> string" where
  "item_frame dump completion_id created model item =
     frame (dump (case item of
        Inl event \<Rightarrow> text_chunk completion_id created model event
      | Inr event \<Rightarrow> final_chunk completion_id created event))"

text \<open>
  The generator behind a streaming response: the frames it sends and the exception that escapes
  it, if one does.
\<close>

definition event_stream ::
  "('r, 's) api_services_scheme \<Rightarrow> 'r RequestOrchestrator \<Rightarrow> ApiKey \<Rightarrow> ChatCompletionRequest \<Rightarrow> bool \<Rightarrow> string \<Rightarrow> int \<Rightarrow>
   (('r, 'z) orchestrator_state_scheme, string list \<times> exn option) act" where
  "event_stream S ro api_key body bypass_cache completion_id created w =
     (case handle_stream S ro api_key (cq_model body) (to_chat_messages body) bypass_cache w of
        (outcome, w') \<Rightarrow>
          let frames = map (item_frame (av_dump_chunk S) completion_id created (cq_model body))
                         (drop (length (or_output w)) (or_output w'));
              done_frame = frame ''[DONE]'' in
          (Inr (case outcome of
             Inr _ \<Rightarrow> (frames @ [done_frame], None)
           | Inl RateLimitExceeded \<Rightarrow>
               (frames @ [error_frame ''rate limit exceeded'' ''rate_limit'', done_frame], None)
           | Inl NoBackendsAvailable \<Rightarrow>
               (frames @ [error_frame ''no backend available'' ''unavailable'', done_frame], None)
           | Inl (AllBackendsUnavailable _) \<Rightarrow>
               (frames @ [error_frame ''no backend available'' ''unavailable'', done_frame], None)
           | Inl e \<Rightarrow> (frames, Some e)), w'))"

datatype chat_reply =
    Reply ChatCompletionResponse
  | StreamReply "string list" "exn option"

text \<open>The \<open>except\<close> clauses around the plain handler.\<close>

definition http_error :: "string \<Rightarrow> exn \<Rightarrow> exn" where
  "http_error model exc =
     (case exc of
        RateLimitExceeded \<Rightarrow> HTTPException 429 ''rate limit exceeded'' [(''Retry-After'', ''1'')]
      | NoBackendsAvailable \<Rightarrow> HTTPException 503 (''no backend configured for model '' @ py_repr model) []
      | AllBackendsUnavailable _ \<Rightarrow> HTTPException 503 ''all candidate backends failed or are circuit-open'' []
      | e \<Rightarrow> e)"

definition completion_response :: "string \<Rightarrow> int \<Rightarrow> CompletionResult \<Rightarrow> ChatCompletionResponse" where
  "completion_response completion_id created result =
     \<lparr>cp_id = completion_id, cp_object = ''chat.completion'', cp_created = created, cp_model = cr_model result,
      cp_choices = [\<lparr>cc_index = 0, cc_message = \<lparr>mo_role = ''assistant'', mo_content = cr_content result\<rparr>,
                     cc_finish_reason = cr_finish_reason result\<rparr>],
      cp_usage = usage_of result,
      cp_cache_tier = map_option cache_tier_value (cr_cache_tier result)\<rparr>"

definition complete_reply ::
  "('r, 's) api_services_scheme \<Rightarrow> 'r RequestOrchestrator \<Rightarrow> ApiKey \<Rightarrow> ChatCompletionRequest \<Rightarrow> bool \<Rightarrow> string \<Rightarrow> int \<Rightarrow>
   (('r, 'z) orchestrator_state_scheme, chat_reply) act" where
  "complete_reply S ro api_key body bypass_cache completion_id created w =
     (case handle_complete S ro api_key (cq_model body) (to_chat_messages body) bypass_cache w of
        (Inr result, w') \<Rightarrow> (Inr (Reply (completion_response completion_id created result)), w')
      | (Inl exc, w') \<Rightarrow> (Inl (http_error (cq_model body) exc), w'))"

definition serve_chat ::
  "('r, 's) api_services_scheme \<Rightarrow> 'r app \<Rightarrow> headers \<Rightarrow> ChatCompletionRequest \<Rightarrow> ApiKey \<Rightarrow>
   (('r, 'z) orchestrator_state_scheme, chat_reply) act" where
  "serve_chat S app header body api_key =
     bindE (reading (sv_uuid4 S)) (\<lambda>u.
     bindE (reading (sv_time S)) (\<lambda>now.
       let completion_id = ''chatcmpl-'' @ uuid_hex u; created = int_trunc now;
           bypass_cache = (header ''x-cache'' = Some ''no-store'') in
       if cq_stream body
       then bindE (event_stream S (ap_orchestrator app) api_key body bypass_cache completion_id created)
              (\<lambda>reply. returnE (StreamReply (fst reply) (snd reply)))
       else complete_reply S (ap_orchestrator app) api_key body bypass_cache completion_id created))"

definition chat_completions ::
  "('r, 's) api_services_scheme \<Rightarrow> 'r app \<Rightarrow> headers \<Rightarrow> ChatCompletionRequest \<Rightarrow>
   (('r, 'z) orchestrator_state_scheme, chat_reply) act" where
  "chat_completions S app header body = bindE (require_api_key S header) (serve_chat S app header body)"

section \<open>The other endpoints\<close>

definition list_models :: "('r, 's) services_scheme \<Rightarrow> (('r, 'z) node_scheme, ModelList) act" where
  "list_models S =
     bindE (on_db (list_all (sv_scan S))) (\<lambda>backends.
       let models = sort (remdups (map b_model (filter b_enabled backends))) in
       returnE \<lparr>ml_object = ''list'', ml_data = map (\<lambda>m. \<lparr>mf_id = m, mf_object = ''model''\<rparr>) models\<rparr>)"

definition settings_factory :: "GatewaySettings \<Rightarrow> Backend \<Rightarrow> exn + ModelClient" where
  "settings_factory settings = default_client_factory (gs_ollama_host settings) (gs_hosted_api_key settings)"

definition upsert_backend ::
  "('r, 's) gateway_services_scheme \<Rightarrow> GatewaySettings \<Rightarrow> headers \<Rightarrow> BackendUpsertRequest \<Rightarrow>
   (('r, 'z) gateway_scheme, BackendOut) act" where
  "upsert_backend S settings header body =
     bindE (require_admin_key settings header) (\<lambda>_.
     bindE (reading (sv_uuid4 S)) (\<lambda>u.
     bindE (reading (sv_db_now S)) (\<lambda>ts.
     bindE (liftE (backend_type_of (bu_type body))) (\<lambda>type.
     bindE (on_db (upsert u ts (bu_name body) type (bu_endpoint body) (bu_model body) (bu_priority body)
                     (bu_cost_per_1k_in body) (bu_cost_per_1k_out body))) (\<lambda>backend.
     bindE (reload S (settings_factory settings)) (\<lambda>_.
     returnE \<lparr>bo_id = b_id backend, bo_name = b_name backend, bo_type = backend_type_value (b_type backend),
              bo_endpoint = b_endpoint backend, bo_model = b_model backend, bo_priority = b_priority backend,
              bo_enabled = b_enabled backend\<rparr>))))))"

definition create_api_key ::
  "('r, 's) api_services_scheme \<Rightarrow> GatewaySettings \<Rightarrow> headers \<Rightarrow> ApiKeyCreateRequest \<Rightarrow>
   (('r, 'z) node_scheme, ApiKeyCreateResponse) act" where
  "create_api_key S settings header body =
     bindE (require_admin_key settings header) (\<lambda>_.
     bindE (reading (av_token_urlsafe S)) (\<lambda>token.
       let raw_key = ''sk-'' @ token; key_hash = sv_sha256_hex S raw_key in
       bindE (reading (sv_uuid4 S)) (\<lambda>u.
       bindE (reading (sv_db_now S)) (\<lambda>ts.
       bindE (on_db (api_key_create u ts (kq_name body) key_hash (kq_token_budget body) (kq_window_seconds body)))
         (\<lambda>created. returnE \<lparr>kp_id = ak_id created, kp_raw_key = raw_key\<rparr>)))))"

definition health :: "('w, (string \<times> string) list) act" where
  "health = returnE [(''status'', ''ok'')]"

definition ready :: "('r, 's) api_services_scheme \<Rightarrow> (('r, 'z) node_scheme, (string \<times> string) list) act" where
  "ready S =
     bindE (reading (av_select_1 S)) (\<lambda>db.
     bindE (liftE db) (\<lambda>_.
     bindE (reading (av_ping S)) (\<lambda>pong.
     bindE (liftE pong) (\<lambda>_. returnE [(''status'', ''ready'')]))))"

definition metrics :: "('r, 's) api_services_scheme \<Rightarrow> (('r, 'z) orchestrator_state_scheme, string) act" where
  "metrics S = bindE (state_read or_metrics) (\<lambda>events. returnE (av_render S events))"

section \<open>Wiring\<close>

text \<open>The objects the application is started with, from its settings.\<close>

definition build_orchestrator :: "'r redis_api \<Rightarrow> GatewaySettings \<Rightarrow> 'r RequestOrchestrator" where
  "build_orchestrator R settings =
     \<lparr>ro_cache = \<lparr>tc_ttl_seconds = gs_cache_ttl_seconds settings,
                  tc_similarity_threshold = gs_cache_similarity_threshold settings\<rparr>,
      ro_breaker = \<lparr>cb_threshold = gs_breaker_failure_threshold settings,
                    cb_cooldown = gs_breaker_cooldown_seconds settings\<rparr>,
      ro_latency_tracker = \<lparr>lt_window_size = 200\<rparr>,
      ro_policy = build_policy R (gs_default_policy settings),
      ro_timeout = gs_request_timeout_seconds settings,
      ro_per_backend_concurrency = gs_per_backend_concurrency settings,
      ro_metrics = True\<rparr>"

definition lifespan_start ::
  "('r, 's) gateway_services_scheme \<Rightarrow> GatewaySettings \<Rightarrow> (('r, 'z) gateway_scheme, 'r app) act" where
  "lifespan_start S settings =
     bindE (tryE (reload S (settings_factory settings))) (\<lambda>_.
     returnE \<lparr>ap_settings = settings, ap_orchestrator = build_orchestrator (sv_redis S) settings\<rparr>)"

definition lifespan_stop :: "('r, 's) api_services_scheme \<Rightarrow> (('r, 'z) gateway_scheme, unit) act" where
  "lifespan_stop S =
     bindE (registry_aclose S) (\<lambda>_.
     bindE (reading (av_redis_aclose S)) (\<lambda>closed.
     bindE (liftE closed) (\<lambda>_.
     bindE (reading (av_engine_dispose S)) (\<lambda>disposed. liftE disposed))))"

section \<open>Facts\<close>

definition key_row :: "('r, 's) services_scheme \<Rightarrow> headers \<Rightarrow> ('r, 'z) node_scheme \<Rightarrow> ApiKeyModel option" where
  "key_row S header w =
     (case header ''X-API-Key'' of
        None \<Rightarrow> None
      | Some raw_key \<Rightarrow>
          if raw_key = [] then None
          else find (\<lambda>row. akm_key_hash row = sv_sha256_hex S raw_key \<and> akm_enabled row) (db_api_key (nd_db w)))"

lemma require_api_key_result:
  "case key_row S header w of
     Some row \<Rightarrow> require_api_key S header w = (Inr (api_key_to_domain row), w)
   | None \<Rightarrow> \<exists>detail. require_api_key S header w = (Inl (HTTPException 401 detail []), w)"
  by (auto simp: require_api_key_def key_row_def on_db_def get_by_hash_def bindE_def split: option.splits)

lemma find_appended:
  "\<not> (\<exists>x \<in> set xs. P x) \<Longrightarrow> P y \<Longrightarrow> find P (xs @ [y]) = Some y"
  by (induction xs) auto

lemma drop_output: "or_output w' = or_output w @ items \<Longrightarrow> drop (length (or_output w)) (or_output w') = items"
  by simp

section \<open>A concrete deployment\<close>

definition example_api :: "'r redis_api \<Rightarrow> 'r api_services" where
  "example_api R = (example_calls_on R
     \<lparr>gv_slot_granted = (\<lambda>_. True), av_token_urlsafe = (\<lambda>_. ''token''), av_select_1 = (\<lambda>_. Inr ()),
      av_ping = (\<lambda>_. Inr ()), av_redis_aclose = (\<lambda>_. Inr ()), av_engine_dispose = (\<lambda>_. Inr ()),
      av_dump_chunk = (\<lambda>chunk. ck_id chunk), av_render = (\<lambda>_. [])\<rparr>)\<lparr>sv_sha256_hex := rev\<rparr>"

definition example_body :: ChatCompletionRequest where
  "example_body = \<lparr>cq_model = ''m'', cq_messages = [\<lparr>mi_role = ''user'', mi_content = ''hi''\<rparr>], cq_stream = True\<rparr>"

definition example_upsert :: BackendUpsertRequest where
  "example_upsert = \<lparr>bu_name = ''n'', bu_type = ''ollama'', bu_endpoint = ''http://x'', bu_model = ''m'',
     bu_priority = 100, bu_cost_per_1k_in = 0, bu_cost_per_1k_out = 0\<rparr>"

lemma example_api_sel [simp]:
  "sv_sha256_hex (example_api R) = rev" "av_token_urlsafe (example_api R) n = ''token''"
  "sv_uuid4 (example_api R) n = of_nat n" "sv_db_now (example_api R) n = of_nat n / 100"
  "sv_scan (example_api R) = (\<lambda>rows. rows)"
  by (simp_all add: example_api_def example_calls_on_def example_services_on_def)

lemma default_settings_sel [simp]: "gs_admin_key (default_settings k) = k"
  by (simp add: default_settings_def)

section \<open>Properties\<close>

text \<open>
  C14. No request is served without an enabled key: a chat request whose \<open>X-API-Key\<close> header is
  absent, empty or not the preimage of the hash of an enabled key row is answered 401 and changes
  nothing, not even the counters of the clocks; any other request is served on behalf of exactly
  that row.
\<close>

theorem chat_authenticates_first:
  "case key_row S header w of
     Some row \<Rightarrow> akm_enabled row \<and> row \<in> set (db_api_key (nd_db w)) \<and>
       chat_completions S app header body w = serve_chat S app header body (api_key_to_domain row) w
   | None \<Rightarrow> \<exists>detail. chat_completions S app header body w = (Inl (HTTPException 401 detail []), w)"
proof (cases "key_row S header w")
  case None
  with require_api_key_result [of S header w] show ?thesis by (auto simp: chat_completions_def)
next
  case (Some row)
  then have "akm_enabled row \<and> row \<in> set (db_api_key (nd_db w))"
    by (auto simp: key_row_def dest: find_SomeD split: option.splits if_splits)
  with Some require_api_key_result [of S header w] show ?thesis by (simp add: chat_completions_def)
qed

text \<open>
  C22. A created key works: after a successful \<open>create_api_key\<close> a request that presents the raw
  key it returned is authenticated as the row that was created, with the requested name, budget
  and window; the raw key is not stored, only its hash.
\<close>

theorem created_key_authenticates:
  assumes "create_api_key S settings header body w = (Inr out, w')"
  shows "\<exists>k. require_api_key S [''X-API-Key'' \<mapsto> kp_raw_key out] w' = (Inr k, w') \<and> ak_id k = kp_id out \<and>
    ak_name k = kq_name body \<and> ak_token_budget k = kq_token_budget body \<and>
    ak_window_seconds k = kq_window_seconds body \<and> ak_key_hash k = sv_sha256_hex S (kp_raw_key out) \<and>
    header ''X-Admin-Key'' = Some (gs_admin_key settings)"
proof -
  from assms obtain token u ts d and created :: ApiKey where
    out: "out = \<lparr>kp_id = ak_id created, kp_raw_key = ''sk-'' @ token\<rparr>"
    and admin: "header ''X-Admin-Key'' = Some (gs_admin_key settings)"
    and create: "api_key_create u ts (kq_name body) (sv_sha256_hex S (''sk-'' @ token)) (kq_token_budget body)
      (kq_window_seconds body) (nd_db w) = (Inr created, d)" and w': "nd_db w' = d"
    by (auto simp: create_api_key_def require_admin_key_def Let_def bindE_eq_Inr on_db_def split: if_splits prod.splits)
  let ?row = "\<lparr>akm_id = u, akm_key_hash = sv_sha256_hex S (''sk-'' @ token), akm_name = kq_name body,
    akm_token_budget = kq_token_budget body, akm_window_seconds = kq_window_seconds body, akm_enabled = True,
    akm_created_at = ts\<rparr>"
  from create have rows: "db_api_key (nd_db w') = db_api_key (nd_db w) @ [?row]"
    and new: "sv_sha256_hex S (''sk-'' @ token) \<notin> set (map akm_key_hash (db_api_key (nd_db w)))"
    and created: "created = api_key_to_domain ?row"
    unfolding w'
    by (auto simp: api_key_create_def insert_api_key_def Let_def bindE_def split: if_splits)
  have "key_row S [''X-API-Key'' \<mapsto> kp_raw_key out] w' = Some ?row"
    using new unfolding key_row_def rows out by (auto intro!: find_appended simp: image_iff)
  with require_api_key_result [of S "[''X-API-Key'' \<mapsto> kp_raw_key out]" w'] admin show ?thesis
    by (auto simp: out created api_key_to_domain_def)
qed

theorem created_key_authenticates_witness:
  "\<exists>out w' k. create_api_key (example_api bare_redis) (default_settings ''adm'') [''X-Admin-Key'' \<mapsto> ''adm'']
      \<lparr>kq_name = ''n'', kq_token_budget = 100, kq_window_seconds = 60\<rparr> (example_state ()) = (Inr out, w') \<and>
    require_api_key (example_api bare_redis) [''X-API-Key'' \<mapsto> kp_raw_key out] w' = (Inr k, w') \<and> ak_id k = kp_id out"
proof -
  have "\<exists>out w'. create_api_key (example_api bare_redis) (default_settings ''adm'') [''X-Admin-Key'' \<mapsto> ''adm'']
      \<lparr>kq_name = ''n'', kq_token_budget = 100, kq_window_seconds = 60\<rparr> (example_state ()) = (Inr out, w')"
    by (simp add: create_api_key_def require_admin_key_def Let_def on_db_def api_key_create_def insert_api_key_def
        bindE_def char64_ok_def text_ok_def int4_ok_def example_state_def example_gateway_on_def example_node_on_def
        empty_db_def)
  then obtain out w' where c: "create_api_key (example_api bare_redis) (default_settings ''adm'')
      [''X-Admin-Key'' \<mapsto> ''adm''] \<lparr>kq_name = ''n'', kq_token_budget = 100, kq_window_seconds = 60\<rparr>
      (example_state ()) = (Inr out, w')" by blast
  from created_key_authenticates [OF c] c show ?thesis by blast
qed

definition caught :: "exn \<Rightarrow> bool" where
  "caught e \<longleftrightarrow> e = RateLimitExceeded \<or> e = NoBackendsAvailable \<or> (\<exists>x. e = AllBackendsUnavailable x)"

lemma event_stream_returns:
  "\<exists>frames escaped w'. event_stream S ro k body bypass cid created w = (Inr (frames, escaped), w')"
proof -
  have "\<exists>p w'. event_stream S ro k body bypass cid created w = (Inr p, w')"
    by (cases "handle_stream S ro k (cq_model body) (to_chat_messages body) bypass w")
      (simp add: event_stream_def Let_def)
  then show ?thesis by (metis surj_pair)
qed

lemma event_stream_cases:
  assumes "handle_stream S ro k (cq_model body) (to_chat_messages body) bypass w = (x, w1)"
    and "event_stream S ro k body bypass cid created w = (Inr (frames, escaped), w')"
  shows "w1 = w' \<and>
    (let items = map (item_frame (av_dump_chunk S) cid created (cq_model body))
                   (drop (length (or_output w)) (or_output w')) in
     case x of
       Inr _ \<Rightarrow> escaped = None \<and> frames = items @ [frame ''[DONE]'']
     | Inl e \<Rightarrow> if caught e then escaped = None \<and> (\<exists>msg kind. frames = items @ [error_frame msg kind, frame ''[DONE]''])
                else escaped = Some e \<and> frames = items)"
proof (cases x)
  case (Inr u)
  with assms show ?thesis by (auto simp: event_stream_def Let_def)
next
  case (Inl e)
  with assms show ?thesis by (cases e) (auto simp: event_stream_def Let_def caught_def)
qed

text \<open>
  C20. A streaming reply follows its protocol. It consists of the frames of the items the pipeline
  yielded, in order, then, when the request was refused or ran out of backends, one error frame,
  then one closing \<^verbatim>\<open>[DONE]\<close> frame. Without an error frame the items are text chunks followed by
  one terminal item that carries their concatenation; with one they are text chunks only. Only an
  exception other than the three the code catches ends a reply without the closing frame.
\<close>

theorem sse_reply_is_closed:
  assumes "event_stream S ro k body bypass cid created w = (Inr (frames, escaped), w')"
  shows "\<exists>chunks rest errors. or_output w' = or_output w @ map Inl chunks @ map Inr rest \<and>
    frames = map (item_frame (av_dump_chunk S) cid created (cq_model body)) (map Inl chunks @ map Inr rest) @ errors @
      (if escaped = None then [frame ''[DONE]''] else []) \<and>
    (if escaped = None
     then errors = [] \<and> (\<exists>r. rest = [r] \<and> cr_content r = concat chunks) \<or>
          (\<exists>msg kind. errors = [error_frame msg kind]) \<and> rest = []
     else errors = [] \<and> rest = [] \<and> (\<exists>e. escaped = Some e \<and> \<not> caught e))"
proof -
  obtain x w1 where h: "handle_stream S ro k (cq_model body) (to_chat_messages body) bypass w = (x, w1)" by fastforce
  note c = event_stream_cases [OF h assms, unfolded Let_def]
  from stream_items [OF h] c obtain chunks where items: "case x of
      Inr _ \<Rightarrow> \<exists>r. or_output w' = or_output w @ map Inl chunks @ [Inr r] \<and> cr_content r = concat chunks
    | Inl _ \<Rightarrow> or_output w' = or_output w @ map Inl chunks" by auto
  show ?thesis
  proof (cases x)
    case (Inr u)
    with items obtain r where "or_output w' = or_output w @ map Inl chunks @ [Inr r]" "cr_content r = concat chunks"
      by auto
    with Inr c show ?thesis by (intro exI [of _ chunks] exI [of _ "[r]"] exI [of _ "[]"]) simp
  next
    case (Inl e)
    with items have out: "or_output w' = or_output w @ map Inl chunks" by simp
    show ?thesis
    proof (cases "caught e")
      case True
      with Inl c obtain msg kind where "escaped = None"
        "frames = map (item_frame (av_dump_chunk S) cid created (cq_model body))
           (drop (length (or_output w)) (or_output w')) @ [error_frame msg kind, frame ''[DONE]'']" by auto
      with out show ?thesis by (intro exI [of _ chunks] exI [of _ "[]"] exI [of _ "[error_frame msg kind]"]) auto
    next
      case False
      with Inl c out show ?thesis by (intro exI [of _ chunks] exI [of _ "[]"] exI [of _ "[]"]) simp
    qed
  qed
qed

theorem sse_reply_is_closed_witness:
  "\<exists>frames escaped w' pre. event_stream (example_api bare_redis) example_orchestrator example_key example_body True
      ''id'' 0 (example_state ()) = (Inr (frames, escaped), w') \<and>
    (escaped = None \<longrightarrow> frames = pre @ [frame ''[DONE]''])"
proof -
  obtain frames escaped w' where run: "event_stream (example_api bare_redis) example_orchestrator example_key
      example_body True ''id'' 0 (example_state ()) = (Inr (frames, escaped), w')"
    using event_stream_returns by blast
  from sse_reply_is_closed [OF run] obtain items errors where
    "frames = items @ errors @ (if escaped = None then [frame ''[DONE]''] else [])" by blast
  then have "escaped = None \<longrightarrow> frames = (items @ errors) @ [frame ''[DONE]'']" by simp
  with run show ?thesis by blast
qed



text \<open>
  The administrator's endpoints are guarded: without the configured key in \<open>X-Admin-Key\<close> both
  answer 401 and change nothing.
\<close>

lemma admin_endpoints_are_guarded:
  assumes "header ''X-Admin-Key'' \<noteq> Some (gs_admin_key settings)"
  shows "upsert_backend S settings header backend_body w = (Inl (HTTPException 401 ''invalid admin key'' []), w) \<and>
         create_api_key T settings header key_body v = (Inl (HTTPException 401 ''invalid admin key'' []), v)"
  using assms by (simp add: upsert_backend_def create_api_key_def require_admin_key_def)

lemma admin_endpoints_are_guarded_example:
  "create_api_key (example_api bare_redis) (default_settings ''adm'') [''X-Admin-Key'' \<mapsto> ''guess'']
     \<lparr>kq_name = ''n'', kq_token_budget = 100, kq_window_seconds = 60\<rparr> (example_state ()) =
   (Inl (HTTPException 401 ''invalid admin key'' []), example_state ())"
  using admin_endpoints_are_guarded [of "[''X-Admin-Key'' \<mapsto> ''guess'']" "default_settings ''adm''"
      "example_api bare_redis" example_upsert "example_state ()" "example_api bare_redis"
      "\<lparr>kq_name = ''n'', kq_token_budget = 100, kq_window_seconds = 60\<rparr>" "example_state ()"]
  by simp

lemma upsert_backend_result:
  assumes "upsert_backend S settings header body w = (Inr out, w')"
  obtains u ts type backend d w1 where "backend_type_of (bu_type body) = Inr type"
    "upsert u ts (bu_name body) type (bu_endpoint body) (bu_model body) (bu_priority body)
       (bu_cost_per_1k_in body) (bu_cost_per_1k_out body) (nd_db w) = (Inr backend, d)"
    "w1 = w\<lparr>nd_ticks := Suc (Suc (nd_ticks w)), nd_db := d\<rparr>" "reload S (settings_factory settings) w1 = (Inr (), w')"
    "bo_id out = b_id backend" "bo_enabled out = b_enabled backend"
proof -
  from assms obtain type where type: "backend_type_of (bu_type body) = Inr type"
    by (auto simp: upsert_backend_def require_admin_key_def bindE_eq_Inr split: if_splits)
  obtain r d where up: "upsert (sv_uuid4 S (nd_ticks w)) (sv_db_now S (Suc (nd_ticks w))) (bu_name body) type
      (bu_endpoint body) (bu_model body) (bu_priority body) (bu_cost_per_1k_in body) (bu_cost_per_1k_out body)
      (nd_db w) = (r, d)" by fastforce
  with assms type that show ?thesis
    by (auto simp: upsert_backend_def require_admin_key_def bindE_eq_Inr on_db_def split: if_splits)
qed

text \<open>
  C23. A backend can be routed to as soon as the administrator's call that wrote it has returned:
  the write is committed before the reload reads the table, so an enabled backend is among the
  candidates of its model, with the endpoint and the priority of the request, and has a client.
\<close>

theorem upserted_backend_is_candidate:
  assumes "registry_ok w" and "db_ok (nd_db w)" and "\<And>rows. mset (sv_scan S rows) = mset rows"
    and "upsert_backend S settings header body w = (Inr out, w')" and "bo_enabled out"
  shows "\<exists>ps b c. candidates (bu_model body) w' = (Inr ps, w') \<and> (b, c) \<in> set ps \<and> b_id b = bo_id out \<and>
    b_name b = bu_name body \<and> b_endpoint b = bu_endpoint body \<and> b_priority b = bu_priority body \<and>
    settings_factory settings b = Inr (snd c)"
proof -
  obtain u ts type backend d w1 where type: "backend_type_of (bu_type body) = Inr type"
    and up: "upsert u ts (bu_name body) type (bu_endpoint body) (bu_model body) (bu_priority body)
       (bu_cost_per_1k_in body) (bu_cost_per_1k_out body) (nd_db w) = (Inr backend, d)"
    and w1: "w1 = w\<lparr>nd_ticks := Suc (Suc (nd_ticks w)), nd_db := d\<rparr>"
    and reload: "reload S (settings_factory settings) w1 = (Inr (), w')"
    and out: "bo_id out = b_id backend" "bo_enabled out = b_enabled backend"
    using upsert_backend_result [OF assms(4)] by metis
  have ok: "registry_ok w1" using assms(1) by (simp add: w1 registry_ok_def)
  have "db_ok (snd (upsert u ts (bu_name body) type (bu_endpoint body) (bu_model body) (bu_priority body)
       (bu_cost_per_1k_in body) (bu_cost_per_1k_out body) (nd_db w)))" by (rule upsert_ok [OF assms(2)])
  then have db: "db_ok (nd_db w1)" by (simp add: up w1)
  from upsert_success [OF assms(2) up] obtain row where
    written: "filter (\<lambda>x. bm_name x = bu_name body) (db_backend d) = [row]" and row: "bm_id row = b_id backend" "bm_type row = backend_type_value type" "bm_endpoint row = bu_endpoint body"
    "bm_model row = bu_model body" "bm_priority row = bu_priority body"
    and en: "case find (\<lambda>x. bm_name x = bu_name body) (db_backend (nd_db w)) of
        None \<Rightarrow> bm_id row = u \<and> bm_enabled row
      | Some old \<Rightarrow> bm_id row = bm_id old \<and> bm_enabled row = bm_enabled old \<and> bm_created_at row = bm_created_at old"
    by blast
  have here: "row \<in> set (db_backend d)" "bm_name row = bu_name body"
    using arg_cong [OF written, of set] by auto
  have enabled: "bm_enabled row"
    using en up assms(5) out(2)
    by (auto simp: upsert_def Let_def bindE_eq_Inr backend_to_domain_def split: option.splits)
  obtain b where b: "backend_to_domain row = Inr b" "b_id b = bm_id row" "b_name b = bm_name row"
    "b_endpoint b = bm_endpoint row" "b_priority b = bm_priority row"
    using row(2) by (simp add: backend_to_domain_def)
  from reload_success [OF ok db assms(3) reload, of "bu_model body"] obtain ps where
    ps: "candidates (bu_model body) w' = (Inr ps, w')"
    "set (map fst ps) = {b. \<exists>row \<in> set (db_backend (nd_db w1)). bm_enabled row \<and> bm_model row = bu_model body \<and>
        backend_to_domain row = Inr b}" "\<forall>(b, k, c) \<in> set ps. settings_factory settings b = Inr c" by blast
  have "b \<in> set (map fst ps)" unfolding ps(2) using here(1) row(4) enabled b(1) by (auto simp: w1)
  then obtain c where c: "(b, c) \<in> set ps" by auto
  with ps(3) have "settings_factory settings b = Inr (snd c)" by (cases c) auto
  moreover have "b_id b = bo_id out" "b_name b = bu_name body" "b_endpoint b = bu_endpoint body"
    "b_priority b = bu_priority body" using b here(2) row(1,3,5) out(1) by simp_all
  ultimately show ?thesis using ps(1) c by blast
qed

theorem upserted_backend_is_candidate_witness:
  "\<exists>out w' ps b c. upsert_backend (example_api bare_redis) (default_settings ''adm'') [''X-Admin-Key'' \<mapsto> ''adm'']
      example_upsert (example_gateway_on () [] ()) = (Inr out, w') \<and>
    candidates ''m'' w' = (Inr ps, w') \<and> (b, c) \<in> set ps \<and> b_name b = ''n''"
proof -
  let ?w = "example_gateway_on () [] ()"
  have "\<exists>out w'. upsert_backend (example_api bare_redis) (default_settings ''adm'') [''X-Admin-Key'' \<mapsto> ''adm'']
      example_upsert ?w = (Inr out, w') \<and> bo_enabled out"
    by (simp add: upsert_backend_def require_admin_key_def example_upsert_def backend_type_of_def on_db_def upsert_def
        Let_def insert_backend_def backend_row_ok_def text_ok_def int4_ok_def numeric_ok_def numeric6_def
        backend_to_domain_def stored_backend_def empty_db_def bindE_def reload_def list_all_def make_client_eq
        settings_factory_def default_client_factory_def)
  then obtain out w' where u: "upsert_backend (example_api bare_redis) (default_settings ''adm'')
      [''X-Admin-Key'' \<mapsto> ''adm''] example_upsert ?w = (Inr out, w')" and e: "bo_enabled out" by blast
  have "db_ok (nd_db ?w)" by (simp add: db_ok_def empty_db_def)
  from upserted_backend_is_candidate [OF example_gateway_ok this _ u e] u show ?thesis
    by (auto simp: example_upsert_def)
qed

text \<open>
  C24. The model list names each model that has an enabled backend exactly once, in order, and
  nothing else, and reading it changes nothing.
\<close>

theorem model_list_is_enabled_models:
  assumes "db_ok (nd_db w)" and "\<And>rows. mset (sv_scan S rows) = mset rows"
  shows "\<exists>ms. list_models S w = (Inr \<lparr>ml_object = ''list'', ml_data = map (\<lambda>m. \<lparr>mf_id = m, mf_object = ''model''\<rparr>) ms\<rparr>, w) \<and>
    sorted ms \<and> distinct ms \<and> set ms = bm_model ` {row \<in> set (db_backend (nd_db w)). bm_enabled row}"
proof -
  let ?rows = "sv_scan S (db_backend (nd_db w))"
  have rows: "set ?rows = set (db_backend (nd_db w))" using assms(2) by (metis set_mset_mset)
  then have "\<forall>row \<in> set ?rows. bm_type row \<in> {''ollama'', ''hosted''}" using assms(1) by (simp add: db_ok_def)
  from backends_to_domain_ok [OF this] obtain bs where bs: "backends_to_domain ?rows = Inr bs" by blast
  let ?ms = "sort (remdups (map b_model (filter b_enabled bs)))"
  have conv: "\<exists>b. backend_to_domain row = Inr b \<and> b_model b = bm_model row \<and> b_enabled b = bm_enabled row"
    if "row \<in> set (db_backend (nd_db w))" for row
    using that assms(1) by (auto simp: db_ok_def backend_to_domain_def backend_type_of_def)
  have "set ?ms = bm_model ` {row \<in> set (db_backend (nd_db w)). bm_enabled row}"
  proof (intro equalityI subsetI)
    fix m assume "m \<in> set ?ms"
    then obtain b row where "row \<in> set (db_backend (nd_db w))" "backend_to_domain row = Inr b" "b_enabled b"
      "m = b_model b" using backends_to_domain_set [OF bs] rows by auto
    then show "m \<in> bm_model ` {row \<in> set (db_backend (nd_db w)). bm_enabled row}"
      using backend_to_domain_sel by auto
  next
    fix m assume "m \<in> bm_model ` {row \<in> set (db_backend (nd_db w)). bm_enabled row}"
    then obtain row where row: "row \<in> set (db_backend (nd_db w))" "bm_enabled row" "m = bm_model row" by auto
    with conv [OF row(1)] obtain b where "backend_to_domain row = Inr b" "b_enabled b" "m = b_model b" by auto
    then show "m \<in> set ?ms" using backends_to_domain_set [OF bs] rows row(1) by auto
  qed
  then show ?thesis using bs by (intro exI [of _ ?ms]) (simp add: list_models_def bindE_def list_all_apply)
qed

theorem model_list_is_enabled_models_witness:
  "\<exists>ms. list_models (example_api bare_redis)
      (example_gateway_on () [example_row 1 ''a'' ''ollama'' 20, example_row 2 ''b'' ''hosted'' 10] ()) =
    (Inr \<lparr>ml_object = ''list'', ml_data = map (\<lambda>m. \<lparr>mf_id = m, mf_object = ''model''\<rparr>) ms\<rparr>,
     example_gateway_on () [example_row 1 ''a'' ''ollama'' 20, example_row 2 ''b'' ''hosted'' 10] ()) \<and>
    set ms = {''m''}"
proof -
  let ?w = "example_gateway_on () [example_row 1 ''a'' ''ollama'' 20, example_row 2 ''b'' ''hosted'' 10] ()"
  have "db_ok (nd_db ?w)" using example_rows_ok by simp
  from model_list_is_enabled_models [OF this, of "example_api bare_redis"] obtain ms where
    ms: "list_models (example_api bare_redis) ?w =
      (Inr \<lparr>ml_object = ''list'', ml_data = map (\<lambda>m. \<lparr>mf_id = m, mf_object = ''model''\<rparr>) ms\<rparr>, ?w)"
    "set ms = bm_model ` {row \<in> set (db_backend (nd_db ?w)). bm_enabled row}" by auto
  have "{row \<in> set (db_backend (nd_db ?w)). bm_enabled row} =
      {example_row 1 ''a'' ''ollama'' 20, example_row 2 ''b'' ''hosted'' 10}" by (auto simp: example_row_def)
  then have "bm_model ` {row \<in> set (db_backend (nd_db ?w)). bm_enabled row} = {''m''}" by (simp add: example_row_def)
  with ms show ?thesis by auto
qed

text \<open>
  C25. A key request with a window that is not positive passes the validation of its schema but
  cannot be stored: the call raises an error of the database, which is not one of the client
  errors, and stores nothing.
\<close>

theorem bad_window_is_not_validated:
  assumes "header ''X-Admin-Key'' = Some (gs_admin_key settings)" and "valid_key_request body"
    and "kq_window_seconds body \<le> 0"
  shows "\<exists>e w'. create_api_key S settings header body w = (Inl e, w') \<and> nd_db w' = nd_db w \<and>
    (e = DataError ''api_key'' \<or> e = IntegrityError ''ck_api_key_window_positive'')"
  using assms
  by (simp add: create_api_key_def require_admin_key_def Let_def on_db_def api_key_create_def insert_api_key_def
      bindE_def valid_key_request_def)

theorem bad_window_is_not_validated_witness:
  "\<exists>e w'. create_api_key (example_api bare_redis) (default_settings ''adm'') [''X-Admin-Key'' \<mapsto> ''adm'']
     \<lparr>kq_name = ''n'', kq_token_budget = 100, kq_window_seconds = 0\<rparr> (example_state ()) = (Inl e, w')"
  using bad_window_is_not_validated [of "[''X-Admin-Key'' \<mapsto> ''adm'']" "default_settings ''adm''"
      "\<lparr>kq_name = ''n'', kq_token_budget = 100, kq_window_seconds = 0\<rparr>" "example_api bare_redis" "example_state ()"]
  by (auto simp: valid_key_request_def)

text \<open>
  The gateway starts whatever the backend table holds: from an empty pool the start-up returns
  the application built from the settings, with a consistent registry, and when the first load
  fails with that empty pool, so that every chat request it then serves past its caches is refused
  for want of backends rather than with an internal error.
\<close>

lemma startup_survives_failed_reload:
  assumes "registry_ok w" and "gw_clients w = []" and "gw_by_model w = Map.empty"
  shows "\<exists>w'. lifespan_start S settings w =
      (Inr \<lparr>ap_settings = settings, ap_orchestrator = build_orchestrator (sv_redis S) settings\<rparr>, w') \<and>
    registry_ok w' \<and>
    (\<forall>e. fst (reload S (settings_factory settings) w) = Inl e \<longrightarrow> (\<forall>m. candidates m w' = (Inr [], w')))"
proof -
  obtain x w' where r: "reload S (settings_factory settings) w = (x, w')" by fastforce
  have failed: "is_Exception e \<and> (\<forall>m. candidates m w' = (Inr [], w'))" if "x = Inl e" for e
    using r
  proof (cases rule: reload_cases)
    case (kept e' n)
    have "is_Exception e'"
      using kept(4) default_client_factory_error by (fastforce simp: settings_factory_def is_Exception_def)
    with kept that assms(2,3) show ?thesis
      by (auto simp: candidates_def at_model_def is_Exception_def)
  next
    case (exchanged bs al bm w1 k)
    with that assms(2) show ?thesis by simp
  qed
  with r reload_registry_ok [OF assms(1) r] show ?thesis
    by (cases x) (auto simp: lifespan_start_def tryE_def bindE_def)
qed

lemma startup_survives_failed_reload_example:
  "\<exists>app w'. lifespan_start (example_api bare_redis) (default_settings ''adm'')
     (example_gateway_on () [example_row 2 ''b'' ''hosted'' 10] ()) = (Inr app, w') \<and> registry_ok w'"
  using startup_survives_failed_reload [OF example_gateway_ok, of "()" "[example_row 2 ''b'' ''hosted'' 10]" "()"
      "example_api bare_redis" "default_settings ''adm''"]
  by auto

end
