(* ===== verification/System.thy ===== *)
theory System
  imports Contracts Api
begin

text \<open>
  The application as a whole: the endpoints of one process, called in any order. \<open>system_ok\<close> joins
  the invariants of the components (the constraints of the tables, the consistency of the pool,
  all slots given back) with the one that spans two of them: the pool only refers to rows that
  exist, so that a log row for a candidate never violates its foreign key.
\<close>

section \<open>The tables only grow\<close>

definition backend_ids :: "db \<Rightarrow> uuid set" where
  "backend_ids d = set (map bm_id (db_backend d))"

definition extends :: "db \<Rightarrow> db \<Rightarrow> bool" where
  "extends d0 d \<longleftrightarrow> db_ok d \<and> backend_ids d0 \<subseteq> backend_ids d"

abbreviation table_grows :: "(db, 'a) act \<Rightarrow> bool" where
  "table_grows m \<equiv> \<forall>d0. maintains (extends d0) m"

lemma table_growsI:
  "(\<And>d. db_ok d \<Longrightarrow> db_ok (snd (m d))) \<Longrightarrow> (\<And>d. backend_ids d \<subseteq> backend_ids (snd (m d))) \<Longrightarrow> table_grows m"
  by (intro allI ensuresI) (metis extends_def snd_conv subset_trans)

lemma insert_backend_ids:
  "backend_ids d \<subseteq> backend_ids (snd (insert_api_key row1 d))" "backend_ids d \<subseteq> backend_ids (snd (insert_backend row2 d))"
  "backend_ids d \<subseteq> backend_ids (snd (insert_cache_entry row3 d))" "backend_ids d \<subseteq> backend_ids (snd (insert_request_log row4 d))"
  by (auto simp: backend_ids_def insert_api_key_def insert_backend_def insert_cache_entry_def insert_request_log_def)

lemma update_backend_ids: "backend_ids d \<subseteq> backend_ids (snd (update_backend row d))"
proof -
  have "map bm_id (map (\<lambda>r. if bm_id r = bm_id row then stored_backend row else r) rows) = map bm_id rows" for rows
    by (induction rows) simp_all
  then show ?thesis by (simp add: backend_ids_def update_backend_def del: map_map set_map)
qed

lemma upsert_grows: "table_grows (upsert u ts name type endpoint model priority cost_in cost_out)"
proof (rule table_growsI)
  show "backend_ids d \<subseteq> backend_ids (snd (upsert u ts name type endpoint model priority cost_in cost_out d))" for d
    using insert_backend_ids(2) update_backend_ids
    by (auto simp: upsert_def Let_def snd_bindE_lift split: option.splits)
qed (rule upsert_ok)

lemma inserts_grow:
  "table_grows (api_key_create u ts name key_hash budget window)"
  "table_grows (cache_entry_insert u ts model p_hash e response i j)"
  "table_grows (request_log_insert u ts key_id model latency status bid tier i j cost reason)"
  by (rule table_growsI; simp add: api_key_create_def cache_entry_insert_def request_log_insert_def Let_def snd_bindE_return
      insert_api_key_ok insert_cache_entry_ok insert_request_log_ok insert_backend_ids)+

lemma queries_grow:
  "table_grows (get_by_hash key_hash)" "table_grows (list_all scan)" "table_grows (find_similar plan cosd model e threshold)"
  by (rule table_growsI; simp add: get_by_hash_def list_all_def find_similar_def split: list.splits)+

section \<open>Steps of the node\<close>

abbreviation node_grows :: "(('r, 'z) node_scheme, 'a) act \<Rightarrow> bool" where
  "node_grows m \<equiv> \<forall>d0. maintains (\<lambda>w. extends d0 (nd_db w)) m"

lemma node_grows_keeps: "keeps nd_db m \<Longrightarrow> node_grows m"
  by (intro allI maintains_of_keeps)

lemma node_grows_on_db:
  assumes "table_grows m"
  shows "node_grows (on_db m)"
proof (intro allI ensuresI)
  fix d0 w x w' assume "extends d0 (nd_db w)" and run: "on_db m w = (x, w')"
  with ensuresD [OF assms [rule_format]] show "extends d0 (nd_db w')" by (auto simp: on_db_def split: prod.splits)
qed

lemma node_grows_bind: "node_grows m \<Longrightarrow> (\<And>y. node_grows (k y)) \<Longrightarrow> node_grows (bindE m k)"
  by (intro allI maintains_bind) simp_all

lemma node_grows_option: "node_grows m \<Longrightarrow> (\<And>y. node_grows (n y)) \<Longrightarrow> node_grows (case x of None \<Rightarrow> m | Some y \<Rightarrow> n y)"
  by (cases x) simp_all

lemma embed_grows: "node_grows (semantic_embed S t)"
  by (intro node_grows_keeps semantic_embed_keeps) simp_all

lemma log_and_put_grow:
  "node_grows (log_request S k model ms status bid tier i j cost reason)" "node_grows (cache_put S tc m h t c i j)"
  unfolding log_request_def cache_put_def semantic_put_def
  by (intro node_grows_bind node_grows_option node_grows_on_db inserts_grow embed_grows node_grows_keeps
      keeps_reading keeps_redis_call keeps_comb; simp)+

lemma redis_steps_grow:
  "node_grows (limiter_reserve S k est)" "node_grows (limiter_reconcile S k rid n)" "node_grows (check_breaker S cb b)"
  "node_grows (record_outcome S cb b ok)" "node_grows (record_latency S lt b ms)"
  "node_grows (select_candidate S policy f rest)" "node_grows (lookup S ro bypass m h t)"
  unfolding limiter_reserve_def limiter_reconcile_def check_breaker_def record_outcome_def record_latency_def
    select_candidate_def lookup_def
  by (intro node_grows_keeps keeps_bind keeps_reading keeps_redis_call keeps_comb keeps_if keeps_option cache_get_keeps; simp)+

section \<open>The invariant of the application\<close>

definition pool_known :: "('r, 'z) gateway_scheme \<Rightarrow> bool" where
  "pool_known w \<longleftrightarrow> (\<forall>m. \<forall>b \<in> set (at_model (gw_by_model w) m). b_id b \<in> backend_ids (nd_db w))"

text \<open>Between two requests every semaphore that was made has all its slots.\<close>

definition slots_free :: "int \<Rightarrow> ('r, 'z) orchestrator_state_scheme \<Rightarrow> bool" where
  "slots_free limit w \<longleftrightarrow> (\<forall>u v. or_semaphores w u = Some v \<longrightarrow> v = limit \<and> 0 \<le> limit)"

definition system_ok :: "int \<Rightarrow> ('r, 'z) orchestrator_state_scheme \<Rightarrow> bool" where
  "system_ok limit w \<longleftrightarrow> db_ok (nd_db w) \<and> registry_ok w \<and> pool_known w \<and> slots_free limit w"

lemma registry_ok_upd [simp]:
  fixes w :: "('r, 'z) orchestrator_state_scheme"
  shows "registry_ok (w\<lparr>or_semaphores := s\<rparr>) = registry_ok w" "registry_ok (w\<lparr>or_calls := c\<rparr>) = registry_ok w"
    "registry_ok (w\<lparr>or_output := t\<rparr>) = registry_ok w" "registry_ok (w\<lparr>or_metrics := m\<rparr>) = registry_ok w"
    "registry_ok (w\<lparr>nd_ticks := n\<rparr>) = registry_ok w"
  by (simp_all add: registry_ok_def)

lemma system_ok_upd [simp]:
  fixes w :: "('r, 'z) orchestrator_state_scheme"
  shows "system_ok limit (w\<lparr>or_calls := c\<rparr>) = system_ok limit w" "system_ok limit (w\<lparr>or_output := t\<rparr>) = system_ok limit w"
    "system_ok limit (w\<lparr>or_metrics := m\<rparr>) = system_ok limit w" "system_ok limit (w\<lparr>nd_ticks := n\<rparr>) = system_ok limit w"
  by (simp_all add: system_ok_def pool_known_def slots_free_def)

lemma system_ok_more:
  fixes w w' :: "('r, 'z) orchestrator_state_scheme"
  assumes "system_ok limit w" and "extends (nd_db w) (nd_db w')" and more: "node.more w' = node.more w"
  shows "system_ok limit w'"
proof -
  have "gw_next_client w' = gw_next_client w" using more by (cases w; cases w') simp
  with assms more_determines(4-7) [OF more] show ?thesis
    by (auto simp: system_ok_def extends_def pool_known_def slots_free_def registry_ok_def)
qed

lemma system_step:
  fixes m :: "(('r, 'z) orchestrator_state_scheme, 'a) act"
  assumes "node_grows m" and "keeps node.more m"
  shows "maintains (system_ok limit) m"
proof (rule ensuresI)
  fix w x w' assume w: "system_ok limit w" and run: "m w = (x, w')"
  have "extends (nd_db w) (nd_db w)" using w by (simp add: system_ok_def extends_def)
  from ensuresD [OF assms(1) [rule_format] this run] show "system_ok limit w'"
    by (rule system_ok_more [OF w _ keepsD [OF assms(2) run]])
qed

text \<open>The part of the invariant that does not speak of the semaphores.\<close>

abbreviation core_ok :: "('r, 'z) orchestrator_state_scheme \<Rightarrow> bool" where
  "core_ok w \<equiv> db_ok (nd_db w) \<and> registry_ok w \<and> pool_known w"

lemma core_keeps:
  fixes m :: "(('r, 'z) orchestrator_state_scheme, 'a) act"
  assumes "keeps nd_db m" and "keeps (\<lambda>w. (gw_clients w, gw_by_model w, gw_closed w, gw_next_client w)) m"
  shows "maintains core_ok m"
proof (rule ensuresI)
  fix w x w' assume "core_ok w" and run: "m w = (x, w')"
  with keepsD [OF assms(1) run] keepsD [OF assms(2) run] show "core_ok w'"
    by (simp add: registry_ok_def pool_known_def)
qed

text \<open>A body that ends and leaves the semaphores alone gives its slot back, however it ends.\<close>

lemma under_semaphore_gives_back:
  fixes body :: "(('r, 'z) orchestrator_state_scheme, 'a) act"
  assumes body: "maintains core_ok body" and "keeps or_semaphores body" and ends: "\<And>w. \<not> is_blocked (fst (body w))"
  shows "maintains (system_ok limit) (under_semaphore S limit u body)"
proof (rule ensuresI)
  fix w x w' assume w: "system_ok limit w" and run: "under_semaphore S limit u body w = (x, w')"
  show "system_ok limit w'"
  proof (cases "0 < limit")
    case False
    then show ?thesis
      using run w by (auto simp: under_semaphore_def semaphore_for_def acquire_def free_slots_def bindE_def system_ok_def
          slots_free_def pool_known_def split: option.splits if_splits prod.splits) metis
  next
    case True
    let ?w = "w\<lparr>or_semaphores := (or_semaphores w)(u \<mapsto> limit - 1)\<rparr>"
    obtain y w1 where y: "body ?w = (y, w1)" by fastforce
    then have nb: "\<not> is_blocked y" using ends [of ?w] by simp
    have core: "core_ok w1"
      using ensuresD [OF body _ y] w by (simp add: system_ok_def pool_known_def)
    have sems: "or_semaphores w1 = (or_semaphores w)(u \<mapsto> limit - 1)" using keepsD [OF assms(2) y] by simp
    have "w' = w1\<lparr>or_semaphores := (or_semaphores w)(u \<mapsto> limit)\<rparr>"
      using run w y sems True nb
      by (auto simp: under_semaphore_def semaphore_for_def acquire_def free_slots_def release_def set_slots_def bindE_def
          finallyE_def system_ok_def slots_free_def split: option.splits if_splits prod.splits)
    with core w True show ?thesis by (auto simp: system_ok_def pool_known_def slots_free_def)
  qed
qed

text \<open>A client call ends: with an answer or an exception, never by not ending.\<close>

definition clients_end :: "('r, 's) gateway_services_scheme \<Rightarrow> bool" where
  "clients_end S \<longleftrightarrow> (\<forall>n c ms m. \<not> is_blocked (snd (gv_complete S n c ms m)))"

lemma consume_stream_ends: "\<not> is_blocked (fst (consume_stream t es ending loc w))"
  by (induction t es ending loc arbitrary: w rule: consume_stream.induct)
    (auto simp: is_blocked_def yield_item_def bindE_def split: StreamEvent.splits)

lemma calls_give_back:
  "clients_end S \<Longrightarrow> maintains (system_ok limit) (under_semaphore S limit u (call_complete S t ms b c))"
  "maintains (system_ok limit) (under_semaphore S limit u (call_stream S t ms b c))"
proof -
  assume ends: "clients_end S"
  have "\<not> is_blocked (fst (call_complete S t ms b c w))" for w
    using ends [unfolded clients_end_def, rule_format, of "nd_ticks w" c ms "b_model b"]
    by (auto simp: call_complete_def note_call_def bindE_def is_blocked_def Let_def split: prod.splits sum.splits if_splits)
  then show "maintains (system_ok limit) (under_semaphore S limit u (call_complete S t ms b c))"
    by (intro under_semaphore_gives_back core_keeps calls_keep(1)) simp_all
next
  have "\<not> is_blocked (fst (call_stream S t ms b c w))" for w
    by (auto simp: call_stream_def note_call_def bindE_def Let_def consume_stream_ends split: prod.splits)
  then show "maintains (system_ok limit) (under_semaphore S limit u (call_stream S t ms b c))"
    by (intro under_semaphore_gives_back core_keeps calls_keep(2) consume_keeps_fields) simp_all
qed

lemma maintains_given: "(c \<Longrightarrow> maintains I m) \<Longrightarrow> maintains (\<lambda>w. c \<longrightarrow> I w) m"
  by (rule ensuresI) (auto dest: ensuresD)

interpretation whole: pipeline_invariant S ro k bypass
  "\<lambda>w. clients_end S \<longrightarrow> system_ok (ro_per_backend_concurrency ro) w" for S ro k bypass
proof unfold_locales
  show "maintains (\<lambda>w. clients_end S \<longrightarrow> system_ok (ro_per_backend_concurrency ro) w) (emit ro event)" for event
    by (rule ensuresI) (auto simp: emit_def split: if_splits)
qed (simp_all add: maintains_given system_step redis_steps_grow log_and_put_grow node_steps_keep_more calls_give_back)

section \<open>The endpoints\<close>

lemma backends_to_domain_ids: "backends_to_domain rows = Inr bs \<Longrightarrow> map b_id bs = map bm_id rows"
  by (induction rows arbitrary: bs) (auto simp: backend_to_domain_def split: sum.splits)

lemma reload_keeps_system:
  fixes S :: "('r, 's) gateway_services_scheme"
  assumes scan: "\<And>rows. mset (sv_scan S rows) = mset rows"
  shows "maintains (system_ok limit :: ('r, 'z) orchestrator_state_scheme \<Rightarrow> bool) (reload S F)"
proof (rule ensuresI)
  fix w w' :: "('r, 'z) orchestrator_state_scheme" and x
  assume w: "system_ok limit w" and run: "reload S F w = (x, w')"
  have reg: "registry_ok w'" using w reload_registry_ok run by (auto simp: system_ok_def)
  from run show "system_ok limit w'"
  proof (cases rule: reload_cases)
    case (kept e n)
    with w reg show ?thesis by (auto simp: system_ok_def pool_known_def slots_free_def)
  next
    case (exchanged bs al bm w1 k)
    have at: "at_model bm m = filter (\<lambda>b. b_enabled b \<and> b_model b = m) bs" for m
      using reload_loop_result [OF exchanged(2)] by (simp add: handles_def at_model_def)
    obtain n where "w1 = w\<lparr>gw_next_client := n\<rparr>" using reload_loop_state [OF exchanged(2)] by blast
    then have same: "nd_db w' = nd_db w" "or_semaphores w' = or_semaphores w"
      "\<And>m. at_model (gw_by_model w') m = sort_key b_priority (at_model bm m)"
      by (subst exchanged(3), simp add: at_model_sort)+
    have "set (sv_scan S (db_backend (nd_db w))) = set (db_backend (nd_db w))" using scan by (metis set_mset_mset)
    then have "b_id ` set bs = backend_ids (nd_db w)"
      using backends_to_domain_ids [OF exchanged(1)] by (metis backend_ids_def image_set)
    then have "pool_known w'" by (auto simp: pool_known_def same at)
    with w reg same show ?thesis by (auto simp: system_ok_def slots_free_def)
  qed
qed

lemma chat_keeps_system:
  fixes S :: "('r, 's) api_services_scheme"
  assumes "clients_end S"
  shows "maintains (system_ok (ro_per_backend_concurrency (ap_orchestrator app)) :: ('r, 'z) orchestrator_state_scheme \<Rightarrow> bool)
    (chat_completions S app header body)"
proof -
  let ?ro = "ap_orchestrator app"
  let ?I = "system_ok (ro_per_backend_concurrency ?ro) :: ('r, 'z) orchestrator_state_scheme \<Rightarrow> bool"
  note handlers = whole.handlers_maintain [of S ?ro, simplified assms simp_thms]
  have auth: "maintains ?I (require_api_key S header)"
    unfolding require_api_key_def
    by (intro system_step ensures_option ensures_if maintains_rules node_grows_on_db queries_grow keeps_on_db) simp_all
  have read: "maintains ?I (reading source)" for source :: "nat \<Rightarrow> 'b"
    by (rule ensuresI) auto
  have plain: "maintains ?I (complete_reply S ?ro k body bypass cid created)" for k bypass cid created
    by (rule ensuresI) (auto simp: complete_reply_def split: prod.splits sum.splits dest: ensuresD [OF handlers(1)])
  have stream: "maintains ?I (event_stream S ?ro k body bypass cid created)" for k bypass cid created
    by (rule ensuresI) (auto simp: event_stream_def Let_def split: prod.splits dest: ensuresD [OF handlers(2)])
  show ?thesis
    unfolding chat_completions_def serve_chat_def Let_def by (intro maintains_rules auth read plain stream)
qed

lemma admin_keeps_system:
  fixes S :: "('r, 's) api_services_scheme"
  shows "(\<And>rows. mset (sv_scan S rows) = mset rows) \<Longrightarrow>
      maintains (system_ok limit :: ('r, 'z) orchestrator_state_scheme \<Rightarrow> bool) (upsert_backend S settings header upsert_body)"
    and "maintains (system_ok limit :: ('r, 'z) orchestrator_state_scheme \<Rightarrow> bool) (create_api_key S settings header key_body)"
    and "maintains (system_ok limit :: ('r, 'z) orchestrator_state_scheme \<Rightarrow> bool) (list_models S)"
    and "maintains (system_ok limit :: ('r, 'z) orchestrator_state_scheme \<Rightarrow> bool) (ready S)"
    and "maintains (system_ok limit :: ('r, 'z) orchestrator_state_scheme \<Rightarrow> bool) (metrics S)"
proof -
  let ?I = "system_ok limit :: ('r, 'z) orchestrator_state_scheme \<Rightarrow> bool"
  have db: "table_grows m \<Longrightarrow> maintains ?I (on_db m)" for m :: "(db, 'b) act"
    by (intro system_step node_grows_on_db keeps_on_db) simp_all
  have read: "maintains ?I (reading source)" for source :: "nat \<Rightarrow> 'b" by (rule ensuresI) auto
  show "maintains ?I (upsert_backend S settings header upsert_body)" if "\<And>rows. mset (sv_scan S rows) = mset rows"
    unfolding upsert_backend_def require_admin_key_def
    by (intro maintains_rules read system_step node_grows_on_db keeps_on_db upsert_grows reload_keeps_system that) simp_all
  show "maintains ?I (create_api_key S settings header key_body)"
    unfolding create_api_key_def require_admin_key_def Let_def
    by (intro maintains_rules system_step node_grows_on_db keeps_on_db inserts_grow node_grows_keeps keeps_reading) simp_all
  show "maintains ?I (list_models S)"
    unfolding list_models_def Let_def
    by (intro maintains_rules system_step node_grows_on_db keeps_on_db queries_grow) simp_all
  show "maintains ?I (ready S)" "maintains ?I (metrics S)"
    unfolding ready_def metrics_def
    by (intro maintains_rules system_step node_grows_keeps keeps_reading; simp)+
qed

section \<open>The life of a process\<close>

text \<open>Any number of calls of any endpoints with any headers and bodies, however each of them ends.\<close>

inductive served ::
  "('r, 's) api_services_scheme \<Rightarrow> 'r app \<Rightarrow> ('r, 'z) orchestrator_state_scheme \<Rightarrow>
   ('r, 'z) orchestrator_state_scheme \<Rightarrow> bool" for S app where
  idle: "served S app w w"
| chatted: "served S app w w1 \<Longrightarrow> chat_completions S app header chat w1 = (x, w2) \<Longrightarrow> served S app w w2"
| listed: "served S app w w1 \<Longrightarrow> list_models S w1 = (y, w2) \<Longrightarrow> served S app w w2"
| upserted: "served S app w w1 \<Longrightarrow> upsert_backend S (ap_settings app) header backend w1 = (z, w2) \<Longrightarrow> served S app w w2"
| created: "served S app w w1 \<Longrightarrow> create_api_key S (ap_settings app) header key w1 = (k, w2) \<Longrightarrow> served S app w w2"
| probed: "served S app w w1 \<Longrightarrow> ready S w1 = (r, w2) \<Longrightarrow> served S app w w2"
| scraped: "served S app w w1 \<Longrightarrow> metrics S w1 = (m, w2) \<Longrightarrow> served S app w w2"

lemma served_keeps_system:
  assumes "served S app w w'" and "\<And>rows. mset (sv_scan S rows) = mset rows" and "clients_end S"
    and "system_ok (ro_per_backend_concurrency (ap_orchestrator app)) w"
  shows "system_ok (ro_per_backend_concurrency (ap_orchestrator app)) w'"
  using assms(1,4)
proof (induction rule: served.induct)
  case (chatted w w1 header chat x w2)
  then show ?case using ensuresD [OF chat_keeps_system [OF assms(3)]] by blast
next
  case (upserted w w1 header backend z w2)
  then show ?case using ensuresD [OF admin_keeps_system(1) [OF assms(2)]] by blast
qed (auto dest: ensuresD [OF admin_keeps_system(2)] ensuresD [OF admin_keeps_system(3)] ensuresD [OF admin_keeps_system(4)]
    ensuresD [OF admin_keeps_system(5)])

text \<open>
  C5. The application keeps its invariants for life. From a start state (tables that satisfy the
  schema, an empty pool, no semaphores) the first reload and then any sequence of requests to any
  endpoints, whatever they answer, lead only to states in which the tables satisfy the schema, the
  pool is consistent, every lookup of candidates succeeds and gives backends whose rows exist, and
  every semaphore has all its slots back.
\<close>

theorem application_keeps_invariants:
  fixes w w0 w' :: "('r, 'z) orchestrator_state_scheme" and S :: "('r, 's) api_services_scheme"
  assumes "\<And>rows. mset (sv_scan S rows) = mset rows" and "clients_end S"
    and "db_ok (nd_db w)" and "registry_ok w" and "gw_by_model w = Map.empty" and "or_semaphores w = Map.empty"
    and "lifespan_start S settings w = (Inr app, w0)" and "served S app w0 w'"
  shows "db_ok (nd_db w') \<and> registry_ok w' \<and>
    (\<forall>m. \<exists>ps. candidates m w' = (Inr ps, w') \<and>
       (\<forall>pair \<in> set ps. b_id (fst pair) \<in> set (map bm_id (db_backend (nd_db w'))) \<and> b_enabled (fst pair))) \<and>
    (\<forall>u v. or_semaphores w' u = Some v \<longrightarrow> v = gs_per_backend_concurrency settings)"
proof -
  from assms(7) obtain x where app: "app = \<lparr>ap_settings = settings, ap_orchestrator = build_orchestrator (sv_redis S) settings\<rparr>"
    and start: "tryE (reload S (settings_factory settings)) w = (x, w0)"
    by (auto simp: lifespan_start_def bindE_def split: prod.splits sum.splits)
  then have limit: "ro_per_backend_concurrency (ap_orchestrator app) = gs_per_backend_concurrency settings"
    by (simp add: build_orchestrator_def)
  have "system_ok (gs_per_backend_concurrency settings) w"
    using assms(3-6) by (simp add: system_ok_def pool_known_def slots_free_def at_model_def)
  from ensuresD [OF maintains_try [OF reload_keeps_system [OF assms(1)]] this start]
  have ok: "system_ok (gs_per_backend_concurrency settings) w'"
    using served_keeps_system [OF assms(8) assms(1,2)] by (simp add: limit)
  have "\<exists>ps. candidates m w' = (Inr ps, w') \<and>
      (\<forall>pair \<in> set ps. b_id (fst pair) \<in> backend_ids (nd_db w') \<and> b_enabled (fst pair))" for m
  proof -
    have reg: "registry_ok w'" using ok by (simp add: system_ok_def)
    from candidates_ok [OF reg, of m] obtain ps where
      ps: "candidates m w' = (Inr ps, w')" "map fst ps = at_model (gw_by_model w') m" by blast
    have "b_id b \<in> backend_ids (nd_db w') \<and> b_enabled b" if "b \<in> set (at_model (gw_by_model w') m)" for b
      using that ok by (auto simp: system_ok_def pool_known_def registry_ok_def)
    then have "\<forall>b \<in> fst ` set ps. b_id b \<in> backend_ids (nd_db w') \<and> b_enabled b" by (simp flip: ps(2))
    with ps(1) show ?thesis by auto
  qed
  with ok show ?thesis by (auto simp: system_ok_def slots_free_def backend_ids_def)
qed

theorem application_keeps_invariants_witness:
  "\<exists>app w0 w'. lifespan_start (example_api bare_redis) (default_settings ''adm'')
      (example_gateway_on () [example_row 1 ''a'' ''ollama'' 10]
        \<lparr>or_semaphores = Map.empty, or_calls = [], or_output = [], or_metrics = []\<rparr>) = (Inr app, w0) \<and>
     chat_completions (example_api bare_redis) app Map.empty example_body w0 = (Inl (HTTPException 401 ''missing X-API-Key'' []), w') \<and>
     db_ok (nd_db w') \<and> registry_ok w'"
proof -
  let ?S = "example_api bare_redis" and ?w = "example_gateway_on () [example_row 1 ''a'' ''ollama'' 10]
        \<lparr>or_semaphores = Map.empty, or_calls = [], or_output = [], or_metrics = []\<rparr>"
  obtain x w0 where r: "reload ?S (settings_factory (default_settings ''adm'')) ?w = (x, w0)" by fastforce
  have "x = Inr ()"
    using r by (auto simp: reload_def bindE_def on_db_def list_all_def example_row_def backend_to_domain_def backend_type_of_def
        settings_factory_def default_client_factory_def make_client_eq split: prod.splits)
  with r obtain app where start: "lifespan_start ?S (default_settings ''adm'') ?w = (Inr app, w0)"
    by (simp add: lifespan_start_def tryE_def bindE_def)
  have chat: "chat_completions ?S app Map.empty example_body w0 = (Inl (HTTPException 401 ''missing X-API-Key'' []), w0)"
    by (simp add: chat_completions_def require_api_key_def)
  have "clients_end ?S"
    by (simp add: clients_end_def example_api_def example_calls_on_def example_services_on_def is_blocked_def)
  moreover have "db_ok (nd_db ?w)" by (simp add: db_ok_def empty_db_def example_row_def)
  moreover have "served ?S app w0 w0" by (rule served.chatted [OF served.idle chat])
  ultimately show ?thesis
    using application_keeps_invariants [of ?S ?w, OF _ _ _ example_gateway_ok _ _ start, of w0] start chat
    by (auto simp: example_gateway_on_def example_node_on_def)
qed

end
