(* ===== verification/Routes.thy ===== *)
theory Routes
  imports System
begin

text \<open>
  From an HTTP request to an endpoint: the routers of \<^verbatim>\<open>api/routers.py\<close> with the paths, status codes and
  the guard of their decorators, and their registration in \<^verbatim>\<open>create_app\<close> of \<^verbatim>\<open>main.py\<close>. Matching a
  request with a route and parsing its body belong to the web framework: \<open>web_framework\<close> is the
  parameter, and the locale \<open>web_service\<close> states what is documented of it. A request is given to a
  registered route of its method and path if there is one, and is answered by the framework itself
  (\<open>Unrouted\<close>) otherwise; dependencies run before the body is judged, and a body that does not fit
  its schema is answered 422.
\<close>

section \<open>The routers\<close>

datatype endpoint = ChatCompletions | ListModels | UpsertBackend | CreateApiKey | Health | Ready | Metrics

record route =
  rt_method :: string
  rt_path :: string
  rt_admin :: bool
  rt_status :: nat
  rt_endpoint :: endpoint

definition on_route :: "string \<Rightarrow> string \<Rightarrow> nat \<Rightarrow> endpoint \<Rightarrow> route" where
  "on_route method path status endpoint =
     \<lparr>rt_method = method, rt_path = path, rt_admin = False, rt_status = status, rt_endpoint = endpoint\<rparr>"

text \<open>\<^verbatim>\<open>APIRouter(prefix=..., dependencies=[Depends(require_admin_key)])\<close>\<close>

definition guarded_router :: "string \<Rightarrow> route list \<Rightarrow> route list" where
  "guarded_router path_prefix routes = map (\<lambda>r. r\<lparr>rt_path := path_prefix @ rt_path r, rt_admin := True\<rparr>) routes"

definition router :: "route list" where
  "router =
     [on_route ''POST'' ''/v1/chat/completions'' 200 ChatCompletions,
      on_route ''GET'' ''/v1/models'' 200 ListModels]"

definition admin_router :: "route list" where
  "admin_router = guarded_router ''/admin''
     [on_route ''POST'' ''/backends'' 201 UpsertBackend,
      on_route ''POST'' ''/keys'' 201 CreateApiKey]"

definition system_router :: "route list" where
  "system_router =
     [on_route ''GET'' ''/health'' 200 Health,
      on_route ''GET'' ''/ready'' 200 Ready,
      on_route ''GET'' ''/metrics'' 200 Metrics]"

definition app_routes :: "route list" where
  "app_routes = router @ admin_router @ system_router"

section \<open>Serving a request\<close>

record http_request =
  rq_method :: string
  rq_path :: string
  rq_headers :: headers
  rq_body :: string

record web_framework =
  wf_route :: "route list \<Rightarrow> http_request \<Rightarrow> route option"
  wf_unrouted :: "http_request \<Rightarrow> nat"
  wf_chat_body :: "string \<Rightarrow> ChatCompletionRequest option"
  wf_backend_body :: "string \<Rightarrow> BackendUpsertRequest option"
  wf_key_body :: "string \<Rightarrow> ApiKeyCreateRequest option"

datatype payload =
    Chat chat_reply
  | Models ModelList
  | BackendWritten BackendOut
  | KeyCreated ApiKeyCreateResponse
  | Status "(string \<times> string) list"
  | Rendered string
  | Unrouted

definition answer :: "('a \<Rightarrow> payload) \<Rightarrow> ('w, 'a) act \<Rightarrow> ('w, payload) act" where
  "answer f m = bindE m (\<lambda>x. returnE (f x))"

text \<open>The answer to a body that does not fit the schema of its endpoint.\<close>

definition unprocessable :: "('w, 'a) act" where
  "unprocessable = raiseE (HTTPException 422 ''request body is not valid'' [])"

definition run_endpoint ::
  "web_framework \<Rightarrow> ('r, 's) api_services_scheme \<Rightarrow> 'r app \<Rightarrow> http_request \<Rightarrow> endpoint \<Rightarrow>
   (('r, 'z) orchestrator_state_scheme, payload) act" where
  "run_endpoint W S app request e =
     (case e of
        ChatCompletions \<Rightarrow>
          (case wf_chat_body W (rq_body request) of
             None \<Rightarrow> bindE (require_api_key S (rq_headers request)) (\<lambda>_. unprocessable)
           | Some body \<Rightarrow> answer Chat (chat_completions S app (rq_headers request) body))
      | ListModels \<Rightarrow> answer Models (list_models S)
      | UpsertBackend \<Rightarrow>
          (case wf_backend_body W (rq_body request) of
             None \<Rightarrow> unprocessable
           | Some body \<Rightarrow> answer BackendWritten (upsert_backend S (ap_settings app) (rq_headers request) body))
      | CreateApiKey \<Rightarrow>
          (case wf_key_body W (rq_body request) of
             None \<Rightarrow> unprocessable
           | Some body \<Rightarrow> answer KeyCreated (create_api_key S (ap_settings app) (rq_headers request) body))
      | Health \<Rightarrow> answer Status health
      | Ready \<Rightarrow> answer Status (ready S)
      | Metrics \<Rightarrow> answer Rendered (metrics S))"

definition serve_request ::
  "web_framework \<Rightarrow> ('r, 's) api_services_scheme \<Rightarrow> 'r app \<Rightarrow> http_request \<Rightarrow>
   (('r, 'z) orchestrator_state_scheme, nat \<times> payload) act" where
  "serve_request W S app request =
     (case wf_route W app_routes request of
        None \<Rightarrow> returnE (wf_unrouted W request, Unrouted)
      | Some r \<Rightarrow>
          bindE (if rt_admin r then require_admin_key (ap_settings app) (rq_headers request) else returnE ()) (\<lambda>_.
          bindE (run_endpoint W S app request (rt_endpoint r)) (\<lambda>p. returnE (rt_status r, p))))"

text \<open>The status of the response; an exception nobody handles is answered 500.\<close>

definition status_of :: "exn + (nat \<times> payload) \<Rightarrow> nat" where
  "status_of x = (case x of Inr (s, _) \<Rightarrow> s | Inl (HTTPException s _ _) \<Rightarrow> s | Inl _ \<Rightarrow> 500)"

section \<open>What is documented of the framework\<close>

locale web_service =
  fixes W :: web_framework
  assumes route_registered: "wf_route W routes request = Some r \<Longrightarrow>
      r \<in> set routes \<and> rt_method r = rq_method request \<and> rt_path r = rq_path request"
    and route_found: "r \<in> set routes \<Longrightarrow> rt_method r = rq_method request \<Longrightarrow> rt_path r = rq_path request \<Longrightarrow>
      wf_route W routes request \<noteq> None"
    and chat_body_valid: "wf_chat_body W raw = Some c \<Longrightarrow> valid_chat_request c"
    and backend_body_valid: "wf_backend_body W raw = Some b \<Longrightarrow> valid_backend_request b"
    and key_body_valid: "wf_key_body W raw = Some k \<Longrightarrow> valid_key_request k"
begin

lemma route_unique:
  assumes "r \<in> set routes" and "rt_method r = rq_method request" and "rt_path r = rq_path request"
    and "distinct (map (\<lambda>r. (rt_method r, rt_path r)) routes)"
  shows "wf_route W routes request = Some r"
proof -
  obtain r' where r': "wf_route W routes request = Some r'" using route_found [OF assms(1-3)] by blast
  from route_registered [OF r'] assms have "r' = r" by (auto simp: distinct_map inj_on_def)
  with r' show ?thesis by simp
qed

end

text \<open>A framework that behaves as documented: the first match, and bodies by a table.\<close>

definition first_match :: web_framework where
  "first_match = \<lparr>wf_route = (\<lambda>routes request. find (\<lambda>r. rt_method r = rq_method request \<and> rt_path r = rq_path request) routes),
     wf_unrouted = (\<lambda>_. 404),
     wf_chat_body = (\<lambda>raw. if raw = ''chat'' then Some example_body else None),
     wf_backend_body = (\<lambda>raw. if raw = ''backend'' then Some example_upsert else None),
     wf_key_body = (\<lambda>raw. if raw = ''key'' then Some \<lparr>kq_name = ''n'', kq_token_budget = 100, kq_window_seconds = 60\<rparr> else None)\<rparr>"

interpretation matching: web_service first_match
  by unfold_locales
    (auto simp: first_match_def find_Some_iff find_None_iff example_body_def example_upsert_def valid_chat_request_def
      valid_backend_request_def valid_key_request_def split: if_splits)

section \<open>Facts\<close>

lemma app_routes_unique: "distinct (map (\<lambda>r. (rt_method r, rt_path r)) app_routes)"
  by code_simp

text \<open>The administrator's routes are those below \<^verbatim>\<open>/admin\<close>, and only they write the tables of the registry.\<close>

lemma admin_routes:
  assumes "r \<in> set app_routes"
  shows "rt_admin r = (take 6 (rt_path r) = ''/admin'')" and "rt_endpoint r \<in> {UpsertBackend, CreateApiKey} \<longrightarrow> rt_admin r"
proof -
  have "List.list_all (\<lambda>r. rt_admin r = (take 6 (rt_path r) = ''/admin'')) app_routes"
    "List.list_all (\<lambda>r. rt_endpoint r \<in> {UpsertBackend, CreateApiKey} \<longrightarrow> rt_admin r) app_routes"
    by code_simp+
  with assms show "rt_admin r = (take 6 (rt_path r) = ''/admin'')" "rt_endpoint r \<in> {UpsertBackend, CreateApiKey} \<longrightarrow> rt_admin r"
    by (simp_all add: List.list_all_iff)
qed

lemma app_posts: "r \<in> set app_routes \<Longrightarrow> rt_endpoint r \<in> {UpsertBackend, CreateApiKey} \<longrightarrow> rt_method r = ''POST''"
proof -
  have "List.list_all (\<lambda>r. rt_endpoint r \<in> {UpsertBackend, CreateApiKey} \<longrightarrow> rt_method r = ''POST'') app_routes"
    by code_simp
  then show "r \<in> set app_routes \<Longrightarrow> rt_endpoint r \<in> {UpsertBackend, CreateApiKey} \<longrightarrow> rt_method r = ''POST''"
    by (simp add: List.list_all_iff)
qed

lemma answer_run: "answer f m w = (x, w') \<Longrightarrow> \<exists>y. m w = (y, w')"
  by (auto simp: answer_def bindE_def split: prod.splits sum.splits)

lemma require_keeps: "require_api_key S header w = (x, w') \<Longrightarrow> w' = w" "require_admin_key settings header w = (y, v) \<Longrightarrow> v = w"
  using require_api_key_result [of S header w] by (auto simp: require_admin_key_def split: option.splits if_splits)

lemma run_endpoint_served:
  assumes "run_endpoint W S app request e w = (x, w')"
  shows "served S app w w'"
proof (cases e)
  case ChatCompletions
  show ?thesis
  proof (cases "wf_chat_body W (rq_body request)")
    case None
    with assms ChatCompletions have "w' = w"
      by (auto simp: run_endpoint_def unprocessable_def bindE_def split: prod.splits sum.splits dest: require_keeps)
    then show ?thesis by (simp add: served.idle)
  next
    case (Some body)
    with assms ChatCompletions show ?thesis
      by (auto simp: run_endpoint_def dest!: answer_run intro: served.chatted [OF served.idle])
  qed
next
  case Health
  with assms have "w' = w" by (simp add: run_endpoint_def answer_def health_def)
  then show ?thesis by (simp add: served.idle)
qed (use assms in \<open>auto simp: run_endpoint_def unprocessable_def dest!: answer_run split: option.splits
    intro: served.idle served.listed [OF served.idle] served.upserted [OF served.idle] served.created [OF served.idle]
      served.probed [OF served.idle] served.scraped [OF served.idle]\<close>)

text \<open>Whatever is requested, the application does a step of its life or nothing.\<close>

lemma serve_request_served:
  assumes "serve_request W S app request w = (x, w')"
  shows "served S app w w'"
proof (cases "wf_route W app_routes request")
  case None
  with assms show ?thesis by (simp add: serve_request_def served.idle)
next
  case (Some r)
  let ?guard = "if rt_admin r then require_admin_key (ap_settings app) (rq_headers request) else returnE ()"
  obtain y w1 where g: "?guard w = (y, w1)" by fastforce
  then have "w1 = w" by (auto split: if_splits dest: require_keeps)
  show ?thesis
  proof (cases y)
    case (Inl e)
    with assms Some g \<open>w1 = w\<close> show ?thesis by (simp add: serve_request_def served.idle)
  next
    case (Inr u)
    obtain z w2 where z: "run_endpoint W S app request (rt_endpoint r) w = (z, w2)" by fastforce
    with assms Some g Inr \<open>w1 = w\<close> have "w' = w2"
      by (auto simp: serve_request_def bindE_def split: sum.splits)
    with run_endpoint_served [OF z] show ?thesis by simp
  qed
qed

section \<open>The configuration\<close>

text \<open>What only an administrator may change: the keys, the backends and the pool made of them.\<close>

definition configuration :: "('r, 'z) gateway_scheme \<Rightarrow>
  ApiKeyModel list \<times> BackendModel list \<times> (uuid \<times> live_client) list \<times> (string \<rightharpoonup> Backend list) \<times> nat \<times> nat list" where
  "configuration w = (db_api_key (nd_db w), db_backend (nd_db w), gw_clients w, gw_by_model w, gw_next_client w, gw_closed w)"

lemma configuration_upd [simp]:
  fixes w :: "('r, 'z) orchestrator_state_scheme"
  shows "configuration (w\<lparr>nd_ticks := n\<rparr>) = configuration w" "configuration (w\<lparr>nd_redis := s\<rparr>) = configuration w"
    "configuration (w\<lparr>nd_embeddings := e\<rparr>) = configuration w" "configuration (w\<lparr>nd_embeddings_resolved := b\<rparr>) = configuration w"
    "configuration (w\<lparr>or_semaphores := q\<rparr>) = configuration w" "configuration (w\<lparr>or_calls := c\<rparr>) = configuration w"
    "configuration (w\<lparr>or_output := t\<rparr>) = configuration w" "configuration (w\<lparr>or_metrics := m\<rparr>) = configuration w"
  by (simp_all add: configuration_def)

text \<open>A step on the tables that leaves those two alone leaves the configuration alone.\<close>

lemma configuration_on_db:
  assumes "\<And>d. db_api_key (snd (m d)) = db_api_key d \<and> db_backend (snd (m d)) = db_backend d"
  shows "keeps (configuration :: ('r, 'z) gateway_scheme \<Rightarrow> _) (on_db m)"
proof -
  have "configuration (snd (on_db m w)) = configuration w" for w :: "('r, 'z) gateway_scheme"
    using assms [of "nd_db w"] by (cases "m (nd_db w)") (simp add: on_db_def configuration_def)
  then show ?thesis by (simp add: keeps_def)
qed

lemma inserts_keep_configuration:
  "keeps configuration (on_db (cache_entry_insert u ts model p_hash e response i j))"
  "keeps configuration (on_db (request_log_insert u ts key_id model latency status bid tier i j cost reason))"
  by (rule configuration_on_db;
      simp add: cache_entry_insert_def insert_cache_entry_def request_log_insert_def insert_request_log_def Let_def snd_bindE_return)+

lemma queries_keep_configuration:
  "keeps configuration (on_db (get_by_hash key_hash))" "keeps configuration (on_db (list_all scan))"
  by (rule configuration_on_db; simp add: get_by_hash_def list_all_def)+

lemma steps_keep_configuration:
  shows "keeps (configuration :: ('r, 'z) orchestrator_state_scheme \<Rightarrow> _) (limiter_reserve S k est)"
    "keeps (configuration :: ('r, 'z) orchestrator_state_scheme \<Rightarrow> _) (limiter_reconcile S k rid n)"
    "keeps (configuration :: ('r, 'z) orchestrator_state_scheme \<Rightarrow> _) (check_breaker S cb b)"
    "keeps (configuration :: ('r, 'z) orchestrator_state_scheme \<Rightarrow> _) (record_outcome S cb b ok)"
    "keeps (configuration :: ('r, 'z) orchestrator_state_scheme \<Rightarrow> _) (record_latency S lt b ms)"
    "keeps (configuration :: ('r, 'z) orchestrator_state_scheme \<Rightarrow> _) (lookup S ro bypass m h t)"
    "keeps (configuration :: ('r, 'z) orchestrator_state_scheme \<Rightarrow> _) (select_candidate S policy features rest)"
    "keeps (configuration :: ('r, 'z) orchestrator_state_scheme \<Rightarrow> _) (log_request S k m ms st bid tier i j cost reason)"
    "keeps (configuration :: ('r, 'z) orchestrator_state_scheme \<Rightarrow> _) (cache_put S tc m h t c i j)"
    "keeps (configuration :: ('r, 'z) orchestrator_state_scheme \<Rightarrow> _) (emit ro event)"
  unfolding limiter_reserve_def limiter_reconcile_def check_breaker_def record_outcome_def record_latency_def lookup_def
    select_candidate_def log_request_def cache_put_def semantic_put_def emit_def
  by (intro keeps_bind keeps_reading keeps_redis_call keeps_comb keeps_if keeps_option keeps_write cache_get_keeps
      semantic_embed_keeps inserts_keep_configuration; simp)+

interpretation configured: pipeline_invariant S ro k bypass "\<lambda>w. configuration w = c" for S ro k bypass c
proof unfold_locales
  show "maintains (\<lambda>w. configuration w = c) (under_semaphore S (ro_per_backend_concurrency ro) (b_id b)
      (call_complete S (ro_timeout ro) ms b cl))" for b ms cl
    by (intro maintains_of_keeps [where P = "\<lambda>x. x = c"] under_semaphore_keeps calls_keep(1)) simp_all
  show "maintains (\<lambda>w. configuration w = c) (under_semaphore S (ro_per_backend_concurrency ro) (b_id b)
      (call_stream S (ro_timeout ro) ms b cl))" for b ms cl
    by (intro maintains_of_keeps [where P = "\<lambda>x. x = c"] under_semaphore_keeps calls_keep(2) consume_keeps_fields) simp_all
qed (simp_all add: maintains_of_keeps [where P = "\<lambda>x. x = c"] steps_keep_configuration)

lemma chat_keeps_configuration:
  fixes w :: "('r, 'z) orchestrator_state_scheme"
  assumes "chat_completions S app header body w = (x, w')"
  shows "configuration w' = configuration w"
proof -
  let ?ro = "ap_orchestrator app" and ?I = "\<lambda>v :: ('r, 'z) orchestrator_state_scheme. configuration v = configuration w"
  have read: "maintains ?I (reading source)" for source :: "nat \<Rightarrow> 'b"
    by (rule ensuresI) auto
  have plain: "maintains ?I (complete_reply S ?ro k body bypass cid created)" for k bypass cid created
    by (rule ensuresI)
      (auto simp: complete_reply_def split: prod.splits sum.splits dest: ensuresD [OF configured.handlers_maintain(1)])
  have stream: "maintains ?I (event_stream S ?ro k body bypass cid created)" for k bypass cid created
    by (rule ensuresI)
      (auto simp: event_stream_def Let_def split: prod.splits dest: ensuresD [OF configured.handlers_maintain(2)])
  have serve: "maintains ?I (serve_chat S app header body k)" for k
    unfolding serve_chat_def Let_def by (intro maintains_rules read plain stream)
  show ?thesis
  proof (cases "require_api_key S header w")
    case (Pair y w1)
    then have "w1 = w" by (rule require_keeps)
    with assms Pair show ?thesis
      by (cases y) (auto simp: chat_completions_def intro: ensuresD [OF serve refl])
  qed
qed

lemma others_keep_configuration:
  fixes w :: "('r, 'z) orchestrator_state_scheme"
  shows "list_models S w = (x, w') \<Longrightarrow> configuration w' = configuration w"
    and "ready T w = (y, w') \<Longrightarrow> configuration w' = configuration w"
    and "metrics T w = (z, w') \<Longrightarrow> configuration w' = configuration w"
proof -
  have "keeps (configuration :: ('r, 'z) orchestrator_state_scheme \<Rightarrow> _) (list_models S)"
    unfolding list_models_def Let_def by (intro keeps_bind keeps_comb queries_keep_configuration)
  moreover have "keeps (configuration :: ('r, 'z) orchestrator_state_scheme \<Rightarrow> _) (ready T)"
    "keeps (configuration :: ('r, 'z) orchestrator_state_scheme \<Rightarrow> _) (metrics T)"
    unfolding ready_def metrics_def by (intro keeps_bind keeps_comb keeps_reading; simp)+
  ultimately show "list_models S w = (x, w') \<Longrightarrow> configuration w' = configuration w"
    "ready T w = (y, w') \<Longrightarrow> configuration w' = configuration w" "metrics T w = (z, w') \<Longrightarrow> configuration w' = configuration w"
    by (blast dest: keepsD)+
qed

text \<open>Only two endpoints change it.\<close>

lemma run_endpoint_keeps_configuration:
  assumes "run_endpoint W S app request e w = (x, w')" and "e \<notin> {UpsertBackend, CreateApiKey}"
  shows "configuration w' = configuration w"
proof (cases e)
  case ChatCompletions
  with assms(1) show ?thesis
    by (auto simp: run_endpoint_def unprocessable_def bindE_def split: option.splits prod.splits sum.splits
        dest: require_keeps dest!: answer_run chat_keeps_configuration)
next
  case Health
  with assms(1) show ?thesis by (simp add: run_endpoint_def answer_def health_def)
qed (use assms in \<open>auto simp: run_endpoint_def dest!: answer_run dest: others_keep_configuration\<close>)

section \<open>Property\<close>



end
