(* ===== verification/Semaphores.thy ===== *)
theory Semaphores
  imports Contracts
begin

text \<open>
  Requests in flight at the same time. The requests of one process share the semaphores of the
  backends (\<open>semaphore_for\<close>, \<open>acquire\<close> and \<open>release\<close> of the orchestrator). Here their waiting is not
  left to the environment: \<open>co_waiters\<close> is the queue of futures \<^verbatim>\<open>asyncio.Semaphore\<close> keeps, and
  \<open>co_step\<close> lists what the tasks of the event loop can do between two awaits, cancellation
  included. A freed slot is handed to the first waiting future before its task runs again. A task
  that resumes wakes up further tasks, at most \<open>k\<close> of them: one in Python 3.11, as many as there are
  slots in later versions, so the steps allow any positive \<open>k\<close>.
\<close>

section \<open>Waiting tasks\<close>

datatype future = Pending | Granted | Cancelled

type_synonym task = nat
type_synonym queue = "(task \<times> future) list"

record 'r concurrent_state = "'r orchestrator_state" +
  co_waiters :: "uuid \<Rightarrow> queue"
  co_holders :: "uuid \<Rightarrow> task list"

primrec grant_first :: "queue \<Rightarrow> queue option" where
  "grant_first [] = None"
| "grant_first (e # q) = (if snd e = Pending then Some ((fst e, Granted) # q) else map_option ((#) e) (grant_first q))"

primrec wake_up :: "nat \<Rightarrow> int \<times> queue \<Rightarrow> int \<times> queue" where
  "wake_up 0 s = s"
| "wake_up (Suc k) s =
     (if 0 < fst s
      then case grant_first (snd s) of None \<Rightarrow> s | Some q \<Rightarrow> wake_up k (fst s - 1, q)
      else s)"

definition waking ::
  "nat \<Rightarrow> uuid \<Rightarrow> queue \<Rightarrow> ('r, 'z) concurrent_state_scheme \<Rightarrow> ('r, 'z) concurrent_state_scheme" where
  "waking k u q w =
     (case wake_up k (free_slots u w, q) of (v, q') \<Rightarrow> (set_slots u v w)\<lparr>co_waiters := (co_waiters w)(u := q')\<rparr>)"

definition locked :: "uuid \<Rightarrow> ('r, 'z) concurrent_state_scheme \<Rightarrow> bool" where
  "locked u w \<longleftrightarrow> free_slots u w = 0 \<or> (\<exists>e \<in> set (co_waiters w u). snd e \<noteq> Cancelled)"

definition involved :: "uuid \<Rightarrow> ('r, 'z) concurrent_state_scheme \<Rightarrow> task list" where
  "involved u w = map fst (co_waiters w u) @ co_holders w u"

definition hold :: "uuid \<Rightarrow> task \<Rightarrow> ('r, 'z) concurrent_state_scheme \<Rightarrow> ('r, 'z) concurrent_state_scheme" where
  "hold u t w = w\<lparr>co_holders := (co_holders w)(u := t # co_holders w u)\<rparr>"

definition drop_holder :: "uuid \<Rightarrow> task \<Rightarrow> ('r, 'z) concurrent_state_scheme \<Rightarrow> ('r, 'z) concurrent_state_scheme" where
  "drop_holder u t w = w\<lparr>co_holders := (co_holders w)(u := remove1 t (co_holders w u))\<rparr>"

inductive co_step ::
  "('r, 's) orchestrator_services_scheme \<Rightarrow> int \<Rightarrow> ('r, 'z) concurrent_state_scheme \<Rightarrow>
   ('r, 'z) concurrent_state_scheme \<Rightarrow> bool" for S limit where
  made: "semaphore_for limit u w = (Inr (), w') \<Longrightarrow> co_step S limit w w'"
| entered: "or_semaphores w u \<noteq> None \<Longrightarrow> t \<notin> set (involved u w) \<Longrightarrow> \<not> locked u w \<Longrightarrow>
    acquire S limit u w = (Inr (), w1) \<Longrightarrow> co_step S limit w (hold u t w1)"
| queued: "or_semaphores w u \<noteq> None \<Longrightarrow> t \<notin> set (involved u w) \<Longrightarrow> locked u w \<Longrightarrow>
    co_step S limit w (w\<lparr>co_waiters := (co_waiters w)(u := co_waiters w u @ [(t, Pending)])\<rparr>)"
| resumed: "co_waiters w u = q1 @ (t, Granted) # q2 \<Longrightarrow> 0 < k \<Longrightarrow>
    co_step S limit w (waking k u (q1 @ q2) (hold u t w))"
| cancelled: "co_waiters w u = q1 @ (t, Pending) # q2 \<Longrightarrow>
    co_step S limit w (w\<lparr>co_waiters := (co_waiters w)(u := q1 @ (t, Cancelled) # q2)\<rparr>)"
| aborted: "co_waiters w u = q1 @ (t, Cancelled) # q2 \<Longrightarrow>
    co_step S limit w (waking k u (q1 @ q2) w)"
| aborted_late: "co_waiters w u = q1 @ (t, Granted) # q2 \<Longrightarrow> 0 < k \<Longrightarrow> release u w = (Inr (), w1) \<Longrightarrow>
    co_step S limit w (waking k u (q1 @ q2) w1)"
| left: "t \<in> set (co_holders w u) \<Longrightarrow> release u w = (Inr (), w1) \<Longrightarrow>
    co_step S limit w (waking 1 u (co_waiters w u) (drop_holder u t w1))"
| elsewhere: "or_semaphores w' = or_semaphores w \<Longrightarrow> co_waiters w' = co_waiters w \<Longrightarrow> co_holders w' = co_holders w \<Longrightarrow>
    co_step S limit w w'"

section \<open>The invariant of a semaphore\<close>

definition granted :: "queue \<Rightarrow> nat" where
  "granted q = length (filter (\<lambda>e. snd e = Granted) q)"

abbreviation pending :: "queue \<Rightarrow> bool" where
  "pending q \<equiv> \<exists>e \<in> set q. snd e = Pending"

text \<open>The queue is served in the order of arrival: no waiting future precedes a granted one.\<close>

definition in_order :: "queue \<Rightarrow> bool" where
  "in_order q \<longleftrightarrow> sorted_wrt (\<lambda>a b. snd a = Pending \<longrightarrow> snd b \<noteq> Granted) q"

text \<open>\<open>h\<close> tasks hold a slot, \<open>v\<close> slots are free, \<open>q\<close> is the queue.\<close>

definition balanced :: "int \<Rightarrow> nat \<Rightarrow> int \<Rightarrow> queue \<Rightarrow> bool" where
  "balanced limit h v q \<longleftrightarrow> 0 \<le> v \<and> v + int h + int (granted q) = limit \<and>
     (0 < v \<and> pending q \<longrightarrow> 0 < granted q) \<and> in_order q"

lemma grant_first_result:
  "grant_first q = Some q' \<Longrightarrow> granted q' = Suc (granted q) \<and> map fst q' = map fst q \<and> (in_order q \<longrightarrow> in_order q')"
proof (induction q arbitrary: q')
  case (Cons e q)
  show ?case
  proof (cases "snd e = Pending")
    case True
    with Cons.prems show ?thesis by (auto simp: granted_def in_order_def)
  next
    case False
    then obtain q1 where q1: "grant_first q = Some q1" "q' = e # q1" using Cons.prems by auto
    from Cons.IH [OF q1(1)] q1(2) False show ?thesis by (auto simp: granted_def in_order_def)
  qed
qed simp

lemma grant_first_None: "grant_first q = None \<longleftrightarrow> \<not> pending q"
  by (induction q) auto

text \<open>After a wake-up no slot is free while a task waits, unless a granted task is about to run.\<close>

lemma wake_up_balanced:
  assumes "0 \<le> v" and "v + int h + int (granted q) = limit" and "in_order q" and "0 < k \<or> balanced limit h v q"
    and "wake_up k (v, q) = (v', q')"
  shows "balanced limit h v' q' \<and> map fst q' = map fst q"
  using assms
proof (induction k arbitrary: v q)
  case 0
  then show ?case by simp
next
  case (Suc k)
  show ?case
  proof (cases "0 < v \<and> pending q")
    case False
    then have "v' = v \<and> q' = q" using Suc.prems(5) grant_first_None [of q] by (cases "0 < v") auto
    with False Suc.prems show ?thesis by (auto simp: balanced_def)
  next
    case True
    then obtain q1 where q1: "grant_first q = Some q1" using grant_first_None by fastforce
    note r = grant_first_result [OF q1]
    have "balanced limit h (v - 1) q1" using r Suc.prems(2,3) True by (auto simp: balanced_def)
    with Suc.IH [of "v - 1" q1] Suc.prems r True q1 show ?thesis by (auto simp: balanced_def)
  qed
qed

definition co_ok_at :: "int \<Rightarrow> uuid \<Rightarrow> ('r, 'z) concurrent_state_scheme \<Rightarrow> bool" where
  "co_ok_at limit u w \<longleftrightarrow> distinct (involved u w) \<and>
     (case or_semaphores w u of
        None \<Rightarrow> involved u w = []
      | Some v \<Rightarrow> balanced limit (length (co_holders w u)) v (co_waiters w u))"

abbreviation co_ok :: "int \<Rightarrow> ('r, 'z) concurrent_state_scheme \<Rightarrow> bool" where
  "co_ok limit w \<equiv> \<forall>u. co_ok_at limit u w"

lemma co_ok_at_cong:
  "or_semaphores w' u = or_semaphores w u \<Longrightarrow> co_waiters w' u = co_waiters w u \<Longrightarrow> co_holders w' u = co_holders w u \<Longrightarrow>
     co_ok_at limit u w' = co_ok_at limit u w"
  by (simp add: co_ok_at_def involved_def split: option.splits)

lemma co_ok_change:
  assumes "co_ok limit w" and "co_ok_at limit u w'"
    and "\<And>i. i \<noteq> u \<Longrightarrow> or_semaphores w' i = or_semaphores w i \<and> co_waiters w' i = co_waiters w i \<and> co_holders w' i = co_holders w i"
  shows "co_ok limit w'"
proof
  fix i
  have "co_ok_at limit i w' = co_ok_at limit i w" if "i \<noteq> u" by (rule co_ok_at_cong) (use assms(3) [OF that] in simp_all)
  with assms(1,2) show "co_ok_at limit i w'" by (cases "i = u") simp_all
qed

lemma concurrent_sel [simp]:
  fixes w :: "('r, 'z) concurrent_state_scheme"
  shows "co_waiters (set_slots u v w) = co_waiters w" "co_holders (set_slots u v w) = co_holders w"
    "or_semaphores (set_slots u v w) = (or_semaphores w)(u \<mapsto> v)"
    "co_waiters (hold u t w) = co_waiters w" "or_semaphores (hold u t w) = or_semaphores w"
    "co_holders (hold u t w) = (co_holders w)(u := t # co_holders w u)"
    "co_waiters (drop_holder u t w) = co_waiters w" "or_semaphores (drop_holder u t w) = or_semaphores w"
    "co_holders (drop_holder u t w) = (co_holders w)(u := remove1 t (co_holders w u))"
    "free_slots u (hold u t w) = free_slots u w" "free_slots u (drop_holder u t w) = free_slots u w"
  by (simp_all add: set_slots_def hold_def drop_holder_def free_slots_def)

lemma waking_sel:
  fixes w :: "('r, 'z) concurrent_state_scheme"
  assumes "wake_up k (free_slots u w, q) = (v, q')"
  shows "or_semaphores (waking k u q w) = (or_semaphores w)(u \<mapsto> v)"
    "co_waiters (waking k u q w) = (co_waiters w)(u := q')" "co_holders (waking k u q w) = co_holders w"
  using assms by (simp_all add: waking_def set_slots_def)

lemma waking_ok:
  fixes w :: "('r, 'z) concurrent_state_scheme"
  assumes "co_ok limit w0" and "distinct (map fst q @ co_holders w u)" and "0 \<le> free_slots u w"
    and "free_slots u w + int (length (co_holders w u)) + int (granted q) = limit" and "in_order q"
    and "0 < k \<or> balanced limit (length (co_holders w u)) (free_slots u w) q"
    and frame: "\<And>i. i \<noteq> u \<Longrightarrow> or_semaphores w i = or_semaphores w0 i \<and> co_waiters w i = co_waiters w0 i \<and> co_holders w i = co_holders w0 i"
  shows "co_ok limit (waking k u q w)"
proof -
  obtain v q' where wake: "wake_up k (free_slots u w, q) = (v, q')" by fastforce
  note sel = waking_sel [OF wake]
  from wake_up_balanced [OF assms(3-6) wake] have "balanced limit (length (co_holders w u)) v q'" "map fst q' = map fst q"
    by simp_all
  with assms(2) have "co_ok_at limit u (waking k u q w)" by (simp add: co_ok_at_def involved_def sel)
  then show ?thesis by (rule co_ok_change [OF assms(1)]) (use frame in \<open>simp add: sel\<close>)
qed

lemma queue_parts:
  "granted (q1 @ q2) = granted q1 + granted q2"
  "granted (e # q) = (if snd e = Granted then 1 else 0) + granted q" "granted [] = 0"
  "in_order (q1 @ q2) \<longleftrightarrow> in_order q1 \<and> in_order q2 \<and> (\<forall>a \<in> set q1. \<forall>b \<in> set q2. snd a = Pending \<longrightarrow> snd b \<noteq> Granted)"
  "in_order (e # q) \<longleftrightarrow> in_order q \<and> (\<forall>b \<in> set q. snd e = Pending \<longrightarrow> snd b \<noteq> Granted)" "in_order []"
  by (auto simp: granted_def in_order_def sorted_wrt_append)

lemma made_or_empty:
  assumes "co_ok limit w" and "involved u w \<noteq> []"
  shows "\<exists>v. or_semaphores w u = Some v \<and> free_slots u w = v \<and>
    balanced limit (length (co_holders w u)) v (co_waiters w u) \<and> distinct (involved u w)"
  using assms by (auto simp: co_ok_at_def free_slots_def split: option.splits dest: spec [of _ u])

text \<open>What is known of a semaphore somebody waits for or holds.\<close>

lemma in_use:
  assumes "co_ok limit w" and "involved u w \<noteq> []"
  obtains v where "or_semaphores w u = Some v" "free_slots u w = v" "distinct (involved u w)"
    "balanced limit (length (co_holders w u)) v (co_waiters w u)"
  using made_or_empty [OF assms] by blast

lemma release_eq: "release u w = (x, w') \<Longrightarrow> w' = set_slots u (free_slots u w + 1) w"
  by (simp add: release_def)

lemma free_slots_set [simp]: "free_slots u (set_slots u v w) = v"
  by (simp add: free_slots_def set_slots_def)

text \<open>The steps one by one: making the semaphore, entering, queueing, and the changes of the queue.\<close>

lemma made_ok:
  fixes w :: "('r, 'z) concurrent_state_scheme"
  assumes "co_ok limit w" and "semaphore_for limit u w = (Inr (), w')"
  shows "co_ok limit w'"
proof (cases "or_semaphores w u")
  case None
  with assms(2) have "w' = w\<lparr>or_semaphores := (or_semaphores w)(u \<mapsto> limit)\<rparr>" "0 \<le> limit"
    by (auto simp: semaphore_for_def split: if_splits)
  moreover have "involved u w = []" using assms(1) None by (auto simp: co_ok_at_def dest: spec [of _ u])
  ultimately show ?thesis
    by (intro co_ok_change [OF assms(1), of u]) (auto simp: co_ok_at_def involved_def balanced_def queue_parts)
next
  case (Some v)
  with assms show ?thesis by (simp add: semaphore_for_def)
qed

lemma made_balanced:
  fixes w :: "('r, 'z) concurrent_state_scheme"
  assumes "co_ok limit w" and "or_semaphores w u \<noteq> None"
  obtains v where "or_semaphores w u = Some v" "free_slots u w = v" "distinct (involved u w)"
    "balanced limit (length (co_holders w u)) v (co_waiters w u)"
  using assms by (auto simp: co_ok_at_def free_slots_def dest: spec [of _ u])

lemma entered_ok:
  fixes w :: "('r, 'z) concurrent_state_scheme"
  assumes "co_ok limit w" and "or_semaphores w u \<noteq> None" and "t \<notin> set (involved u w)" and "\<not> locked u w"
    and "acquire S limit u w = (Inr (), w1)"
  shows "co_ok limit (hold u t w1)"
proof -
  obtain v where v: "or_semaphores w u = Some v" "free_slots u w = v"
    and ok: "distinct (involved u w)" "balanced limit (length (co_holders w u)) v (co_waiters w u)"
    using assms(1,2) by (rule made_balanced)
  have "0 < v" using assms(4) v ok(2) by (auto simp: locked_def balanced_def)
  then have w1: "w1 = set_slots u (v - 1) w" using assms(5) v by (simp add: acquire_def)
  have "\<not> pending (co_waiters w u)" using assms(4) by (auto simp: locked_def)
  then have "co_ok_at limit u (hold u t w1)"
    using ok \<open>0 < v\<close> assms(3) w1 by (auto simp: co_ok_at_def involved_def balanced_def)
  then show ?thesis by (rule co_ok_change [OF assms(1)]) (simp add: w1)
qed

lemma queued_ok:
  fixes w :: "('r, 'z) concurrent_state_scheme"
  assumes "co_ok limit w" and "or_semaphores w u \<noteq> None" and "t \<notin> set (involved u w)" and "locked u w"
  shows "co_ok limit (w\<lparr>co_waiters := (co_waiters w)(u := co_waiters w u @ [(t, Pending)])\<rparr>)"
proof -
  obtain v where v: "or_semaphores w u = Some v" "free_slots u w = v"
    and ok: "distinct (involved u w)" "balanced limit (length (co_holders w u)) v (co_waiters w u)"
    using assms(1,2) by (rule made_balanced)
  have "0 < granted (co_waiters w u)" if "0 < v"
  proof (cases "pending (co_waiters w u)")
    case True
    with ok(2) that show ?thesis by (simp add: balanced_def)
  next
    case False
    then have "\<exists>e \<in> set (co_waiters w u). snd e = Granted" using assms(4) v that by (metis future.exhaust locked_def less_irrefl)
    then show ?thesis by (auto simp: granted_def filter_empty_conv)
  qed
  then have "co_ok_at limit u (w\<lparr>co_waiters := (co_waiters w)(u := co_waiters w u @ [(t, Pending)])\<rparr>)"
    using ok assms(3) v by (auto simp: co_ok_at_def involved_def balanced_def queue_parts)
  then show ?thesis by (rule co_ok_change [OF assms(1)]) simp
qed

text \<open>What is known of the queue a future is taken from.\<close>

lemma waiter_balanced:
  fixes w :: "('r, 'z) concurrent_state_scheme"
  assumes "co_ok limit w" and "co_waiters w u = q1 @ (t, f) # q2"
  obtains v where "or_semaphores w u = Some v" "free_slots u w = v"
    "distinct (map fst (q1 @ q2) @ t # co_holders w u)"
    "balanced limit (length (co_holders w u)) v (q1 @ (t, f) # q2)"
  by (rule in_use [OF assms(1), of u]) (use assms(2) in \<open>auto simp: involved_def\<close>)

lemma cancelled_ok:
  fixes w :: "('r, 'z) concurrent_state_scheme"
  assumes "co_ok limit w" and "co_waiters w u = q1 @ (t, Pending) # q2"
  shows "co_ok limit (w\<lparr>co_waiters := (co_waiters w)(u := q1 @ (t, Cancelled) # q2)\<rparr>)"
proof -
  obtain v where "or_semaphores w u = Some v" "distinct (map fst (q1 @ q2) @ t # co_holders w u)"
    "balanced limit (length (co_holders w u)) v (q1 @ (t, Pending) # q2)"
    using assms by (rule waiter_balanced)
  then have "co_ok_at limit u (w\<lparr>co_waiters := (co_waiters w)(u := q1 @ (t, Cancelled) # q2)\<rparr>)"
    by (auto simp: co_ok_at_def involved_def balanced_def queue_parts)
  then show ?thesis by (rule co_ok_change [OF assms(1)]) simp
qed

lemma left_ok:
  fixes w :: "('r, 'z) concurrent_state_scheme"
  assumes "co_ok limit w" and "t \<in> set (co_holders w u)" and "release u w = (Inr (), w1)"
  shows "co_ok limit (waking 1 u (co_waiters w u) (drop_holder u t w1))"
proof -
  obtain v where "free_slots u w = v" "distinct (involved u w)" "balanced limit (length (co_holders w u)) v (co_waiters w u)"
    by (rule in_use [OF assms(1), of u]) (use assms(2) in \<open>auto simp: involved_def\<close>)
  moreover have "length (co_holders w u) = Suc (length (remove1 t (co_holders w u)))"
    using assms(2) length_pos_if_in_set [OF assms(2)] by (simp add: length_remove1)
  ultimately show ?thesis
    using assms(2) release_eq [OF assms(3)]
    by (intro waking_ok [OF assms(1)]) (auto simp: balanced_def involved_def dest: notin_set_remove1)
qed

lemma co_step_ok:
  assumes "co_step S limit w w'" and "co_ok limit w"
  shows "co_ok limit w'"
  using assms
proof (induction rule: co_step.induct)
  case (resumed w u q1 t q2 k)
  obtain v where v: "free_slots u w = v" "distinct (map fst (q1 @ q2) @ t # co_holders w u)"
    "balanced limit (length (co_holders w u)) v (q1 @ (t, Granted) # q2)" using resumed(3,1) by (rule waiter_balanced)
  show ?case by (rule waking_ok [OF resumed(3)]) (use v resumed(2) in \<open>auto simp: balanced_def queue_parts\<close>)
next
  case (aborted w u q1 t q2 k)
  obtain v where v: "free_slots u w = v" "distinct (map fst (q1 @ q2) @ t # co_holders w u)"
    "balanced limit (length (co_holders w u)) v (q1 @ (t, Cancelled) # q2)" using aborted(2,1) by (rule waiter_balanced)
  show ?case by (rule waking_ok [OF aborted(2)]) (use v in \<open>auto simp: balanced_def queue_parts\<close>)
next
  case (aborted_late w u q1 t q2 k w1)
  obtain v where v: "free_slots u w = v" "distinct (map fst (q1 @ q2) @ t # co_holders w u)"
    "balanced limit (length (co_holders w u)) v (q1 @ (t, Granted) # q2)" using aborted_late(4,1) by (rule waiter_balanced)
  show ?case
    by (rule waking_ok [OF aborted_late(4)])
      (use v aborted_late(2) release_eq [OF aborted_late(3)] in \<open>auto simp: balanced_def queue_parts\<close>)
next
  case (elsewhere w' w)
  then have "co_ok_at limit u w' = co_ok_at limit u w" for u by (intro co_ok_at_cong) simp_all
  with elsewhere.prems show ?case by simp
qed (rule made_ok entered_ok queued_ok cancelled_ok left_ok; assumption)+

lemma co_run_ok: "(co_step S limit)\<^sup>*\<^sup>* w w' \<Longrightarrow> co_ok limit w \<Longrightarrow> co_ok limit w'"
  by (induction rule: rtranclp_induct) (blast dest: co_step_ok)+

section \<open>Property\<close>

text \<open>
  A slot given back while a task waits is handed over: the counter stays as it is, which is what the
  waiting branch of \<open>acquire\<close> says of the task that gets the slot.
\<close>

lemma slot_is_handed_over:
  assumes "co_ok limit w" and "t \<in> set (co_holders w u)" and "pending (co_waiters w u)" and "release u w = (Inr (), w1)"
  shows "or_semaphores (waking 1 u (co_waiters w u) (drop_holder u t w1)) = or_semaphores w \<and>
    granted (co_waiters (waking 1 u (co_waiters w u) (drop_holder u t w1)) u) = Suc (granted (co_waiters w u))"
proof -
  obtain v where v: "or_semaphores w u = Some v" "free_slots u w = v" "balanced limit (length (co_holders w u)) v (co_waiters w u)"
    by (rule in_use [OF assms(1), of u]) (use assms(2) in \<open>auto simp: involved_def\<close>)
  obtain q where q: "grant_first (co_waiters w u) = Some q" using assms(3) grant_first_None by fastforce
  have "wake_up 1 (free_slots u (drop_holder u t w1), co_waiters w u) = (v, q)"
    using v q release_eq [OF assms(4)] by (simp add: balanced_def)
  from waking_sel [OF this] show ?thesis
    using v(1) grant_first_result [OF q] release_eq [OF assms(4)] by (auto simp: fun_upd_idem_iff)
qed



end
