(* ===== verification/Reloads.thy ===== *)
theory Reloads
  imports Api
begin

text \<open>
  Reloads of the registry that overlap. Every admin request ends with a \<open>reload\<close>, so several of them
  can be under way in one process. Between its awaits a reload is cut into the reading of the
  table, the exchange of the pool and one step for each client it closes (\<open>reload_phases\<close> puts the
  operation of \<open>Registry\<close> together from these pieces); \<open>reload_step\<close> interleaves the pieces of any
  number of reloads with whatever else the process does. \<open>rr_fetched\<close> records the snapshots of the
  table that were read, \<open>rr_lost\<close> the client objects nobody will close any more.
\<close>

section \<open>The phases of a reload\<close>

text \<open>Everything between the last await on the database and the first on a client.\<close>

definition reload_exchange ::
  "(Backend \<Rightarrow> exn + ModelClient) \<Rightarrow> Backend list \<Rightarrow> (('r, 'z) gateway_scheme, live_client list) act" where
  "reload_exchange client_factory backends =
     bindE (state_read (\<lambda>w. map snd (gw_clients w))) (\<lambda>old_clients.
     bindE (reload_loop client_factory backends [] Map.empty) (\<lambda>pool.
     bindE (state_write (\<lambda>w. w\<lparr>gw_clients := fst pool,
                               gw_by_model := (\<lambda>m. map_option (sort_key b_priority) (snd pool m))\<rparr>)) (\<lambda>_.
     returnE old_clients)))"

lemma reload_phases:
  "reload S F = bindE (on_db (list_all (sv_scan S))) (\<lambda>bs. bindE (reload_exchange F bs) (close_all S))"
  by (rule ext) (simp add: reload_def reload_exchange_def bindE_def split: prod.splits sum.splits)

datatype reload_task = Fetched "Backend list" | Closing "live_client list"

record 'w reload_run =
  rr_tasks :: "reload_task list"
  rr_fetched :: "Backend list list"
  rr_lost :: "nat list"
  rr_gateway :: 'w

primrec task_clients :: "reload_task \<Rightarrow> nat list" where
  "task_clients (Fetched bs) = []"
| "task_clients (Closing cs) = map fst cs"

definition closing_of :: "reload_task list \<Rightarrow> nat list" where
  "closing_of ts = concat (map task_clients ts)"

lemma closing_of_simps [simp]:
  "closing_of [] = []" "closing_of (t # ts) = task_clients t @ closing_of ts" "closing_of (ts @ us) = closing_of ts @ closing_of us"
  by (simp_all add: closing_of_def)

definition same_pool :: "('r, 'z) gateway_scheme \<Rightarrow> ('r, 'z) gateway_scheme \<Rightarrow> bool" where
  "same_pool w w' \<longleftrightarrow> gw_clients w' = gw_clients w \<and> gw_by_model w' = gw_by_model w \<and>
     gw_next_client w' = gw_next_client w \<and> gw_closed w' = gw_closed w"

inductive reload_step ::
  "('r, 's) gateway_services_scheme \<Rightarrow> (Backend \<Rightarrow> exn + ModelClient) \<Rightarrow> bool \<Rightarrow>
   ('r, 'z) gateway_scheme reload_run \<Rightarrow> ('r, 'z) gateway_scheme reload_run \<Rightarrow> bool" for S F cancels where
  fetched: "on_db (list_all (sv_scan S)) (rr_gateway r) = (Inr bs, w) \<Longrightarrow>
    reload_step S F cancels r
      (r\<lparr>rr_tasks := rr_tasks r @ [Fetched bs], rr_fetched := rr_fetched r @ [bs], rr_gateway := w\<rparr>)"
| exchanged: "rr_tasks r = ts @ Fetched bs # us \<Longrightarrow> reload_exchange F bs (rr_gateway r) = (Inr old, w) \<Longrightarrow>
    reload_step S F cancels r (r\<lparr>rr_tasks := ts @ Closing old # us, rr_gateway := w\<rparr>)"
| refused: "rr_tasks r = ts @ Fetched bs # us \<Longrightarrow> reload_exchange F bs (rr_gateway r) = (Inl e, w) \<Longrightarrow>
    reload_step S F cancels r
      (r\<lparr>rr_tasks := ts @ us, rr_gateway := w,
         rr_lost := rr_lost r @ [gw_next_client (rr_gateway r)..<gw_next_client w]\<rparr>)"
| closed: "rr_tasks r = ts @ Closing (c # cs) # us \<Longrightarrow> client_aclose S c (rr_gateway r) = (Inr (), w) \<Longrightarrow>
    reload_step S F cancels r (r\<lparr>rr_tasks := ts @ Closing cs # us, rr_gateway := w\<rparr>)"
| stopped: "rr_tasks r = ts @ Closing (c # cs) # us \<Longrightarrow> client_aclose S c (rr_gateway r) = (Inl e, w) \<Longrightarrow>
    reload_step S F cancels r
      (r\<lparr>rr_tasks := ts @ us, rr_gateway := w, rr_lost := rr_lost r @ map fst cs\<rparr>)"
| returned: "rr_tasks r = ts @ Closing [] # us \<Longrightarrow> reload_step S F cancels r (r\<lparr>rr_tasks := ts @ us\<rparr>)"
| cancelled: "cancels \<Longrightarrow> rr_tasks r = ts @ t # us \<Longrightarrow>
    reload_step S F cancels r (r\<lparr>rr_tasks := ts @ us, rr_lost := rr_lost r @ task_clients t\<rparr>)"
| elsewhere: "same_pool (rr_gateway r) w \<Longrightarrow> (db_ok (nd_db (rr_gateway r)) \<Longrightarrow> db_ok (nd_db w)) \<Longrightarrow>
    reload_step S F cancels r (r\<lparr>rr_gateway := w\<rparr>)"

section \<open>Facts on the phases\<close>

text \<open>The new clients are numbered in the order of the rows when no two rows share an identifier.\<close>

lemma reload_loop_handles:
  "reload_loop F bs al bm w = (Inr (al', bm'), w') \<Longrightarrow> distinct (map b_id bs) \<Longrightarrow>
     fst ` set al \<inter> b_id ` set bs = {} \<Longrightarrow>
     handles al' = handles al @ [gw_next_client w..<gw_next_client w']"
proof (induction bs arbitrary: al bm w)
  case Nil
  then show ?case by simp
next
  case (Cons b bs)
  show ?case
  proof (cases "b_enabled b")
    case False
    with Cons show ?thesis by simp
  next
    case True
    let ?n = "gw_next_client w"
    obtain c where rest: "reload_loop F bs (AList.update (b_id b) (?n, c) al)
          (bm(b_model b \<mapsto> at_model bm (b_model b) @ [b])) (w\<lparr>gw_next_client := Suc ?n\<rparr>) = (Inr (al', bm'), w')"
      using Cons.prems(1) True by (auto simp: bindE_def make_client_eq split: sum.splits)
    have upd: "AList.update (b_id b) (?n, c) al = al @ [(b_id b, ?n, c)]"
      using Cons.prems(3) by (induction al) auto
    have "handles al' = handles (al @ [(b_id b, ?n, c)]) @ [Suc ?n..<gw_next_client w']"
      using Cons.IH [OF rest] Cons.prems(2,3) by (auto simp: upd)
    moreover have "Suc ?n \<le> gw_next_client w'" using reload_loop_state [OF rest] by simp
    ultimately show ?thesis by (simp add: handles_def upt_conv_Cons)
  qed
qed

text \<open>The pool that shows a snapshot of the table.\<close>

definition shows_rows :: "Backend list \<Rightarrow> ('r, 'z) gateway_scheme \<Rightarrow> bool" where
  "shows_rows bs w \<longleftrightarrow>
     (\<forall>m. at_model (gw_by_model w) m = sort_key b_priority (filter (\<lambda>b. b_enabled b \<and> b_model b = m) bs))"

lemma reload_exchange_Inr:
  assumes "reload_exchange F bs w = (Inr old, w')" and "distinct (map b_id bs)"
  shows "old = map snd (gw_clients w) \<and> gw_closed w' = gw_closed w \<and> nd_db w' = nd_db w \<and> shows_rows bs w' \<and>
    fst ` set (gw_clients w') = b_id ` set (filter b_enabled bs) \<and>
    gw_next_client w \<le> gw_next_client w' \<and> handles (gw_clients w') = [gw_next_client w..<gw_next_client w']"
proof -
  from assms(1) obtain al bm w1 where loop: "reload_loop F bs [] Map.empty w = (Inr (al, bm), w1)"
    and w': "w' = w1\<lparr>gw_clients := al, gw_by_model := (\<lambda>m. map_option (sort_key b_priority) (bm m))\<rparr>"
    and old: "old = map snd (gw_clients w)"
    by (auto simp: reload_exchange_def bindE_eq_Inr)
  have R: "w1 = w\<lparr>gw_next_client := gw_next_client w1\<rparr>" "gw_next_client w \<le> gw_next_client w1"
    "fst ` set al = b_id ` set (filter b_enabled bs)"
    "\<And>m. at_model bm m = filter (\<lambda>b. b_enabled b \<and> b_model b = m) bs"
    using reload_loop_result [OF loop] by (simp_all add: handles_def at_model_def)
  then obtain n where n: "w1 = w\<lparr>gw_next_client := n\<rparr>" by blast
  have "handles al = [gw_next_client w..<gw_next_client w1]"
    using reload_loop_handles [OF loop assms(2)] by (simp add: handles_def)
  with R(2-4) n w' old show ?thesis by (simp add: shows_rows_def at_model_sort)
qed

lemma reload_exchange_Inl:
  assumes "reload_exchange F bs w = (Inl e, w')"
  shows "\<exists>n. w' = w\<lparr>gw_next_client := n\<rparr> \<and> gw_next_client w \<le> n" and "\<exists>b. F b = Inl e"
proof -
  have loop: "reload_loop F bs [] Map.empty w = (Inl e, w')"
    using assms by (auto simp: reload_exchange_def bindE_eq_Inl)
  from reload_loop_state [OF loop] show "\<exists>n. w' = w\<lparr>gw_next_client := n\<rparr> \<and> gw_next_client w \<le> n" by blast
  from reload_loop_error [OF loop] show "\<exists>b. F b = Inl e" by blast
qed

lemma client_aclose_eq:
  "client_aclose S c w = (x, w') \<Longrightarrow>
     w' = w\<lparr>nd_ticks := Suc (nd_ticks w), gw_closed := gw_closed w @ [fst c]\<rparr> \<and> x = gv_aclose S (nd_ticks w) c"
  by (auto simp: client_aclose_def bindE_def)

section \<open>The invariant of a run\<close>

text \<open>Where the client objects are: in the pool, closed, about to be closed, or lost.\<close>

definition account :: "('r, 'z) gateway_scheme reload_run \<Rightarrow> nat list" where
  "account r = handles (gw_clients (rr_gateway r)) @ gw_closed (rr_gateway r) @ closing_of (rr_tasks r) @ rr_lost r"

text \<open>The pool is the one made from \<open>bs\<close>, with a client for every candidate.\<close>

definition made_from :: "Backend list \<Rightarrow> ('r, 'z) gateway_scheme \<Rightarrow> bool" where
  "made_from bs w \<longleftrightarrow> shows_rows bs w \<and> b_id ` set (filter b_enabled bs) \<subseteq> fst ` set (gw_clients w)"

definition run_ok :: "('r, 'z) gateway_scheme reload_run \<Rightarrow> bool" where
  "run_ok r \<longleftrightarrow>
     db_ok (nd_db (rr_gateway r)) \<and>
     mset (account r) = mset [0..<gw_next_client (rr_gateway r)] \<and>
     (\<forall>bs. Fetched bs \<in> set (rr_tasks r) \<longrightarrow> bs \<in> set (rr_fetched r)) \<and>
     (\<forall>bs \<in> set (rr_fetched r). distinct (map b_id bs)) \<and>
     (\<exists>bs \<in> insert [] (set (rr_fetched r)). made_from bs (rr_gateway r))"

lemma account_distinct:
  assumes "run_ok r"
  shows "distinct (account r)" and "set (account r) = {..<gw_next_client (rr_gateway r)}"
proof -
  have eq: "mset (account r) = mset [0..<gw_next_client (rr_gateway r)]" using assms by (simp add: run_ok_def)
  from mset_eq_imp_distinct_iff [OF eq] show "distinct (account r)" by simp
  from mset_eq_setD [OF eq] show "set (account r) = {..<gw_next_client (rr_gateway r)}"
    by (simp only: set_upt atLeast0LessThan)
qed

lemma run_ok_registry:
  assumes "run_ok r"
  shows "registry_ok (rr_gateway r)"
proof -
  obtain bs where bs: "shows_rows bs (rr_gateway r)" "b_id ` set (filter b_enabled bs) \<subseteq> fst ` set (gw_clients (rr_gateway r))"
    using assms unfolding run_ok_def made_from_def by blast
  have "sorted (map b_priority (at_model (gw_by_model (rr_gateway r)) m)) \<and>
      (\<forall>b \<in> set (at_model (gw_by_model (rr_gateway r)) m).
         b_enabled b \<and> b_model b = m \<and> b_id b \<in> set (map fst (gw_clients (rr_gateway r))))" for m
  proof -
    have at: "at_model (gw_by_model (rr_gateway r)) m = sort_key b_priority (filter (\<lambda>b. b_enabled b \<and> b_model b = m) bs)"
      using bs(1) by (simp add: shows_rows_def)
    show ?thesis unfolding at using bs(2) by auto
  qed
  moreover have "distinct (handles (gw_clients (rr_gateway r)))"
    "set (handles (gw_clients (rr_gateway r))) \<inter> set (gw_closed (rr_gateway r)) = {}"
    using account_distinct(1) [OF assms] by (auto simp: account_def)
  moreover have "set (handles (gw_clients (rr_gateway r))) \<union> set (gw_closed (rr_gateway r)) \<subseteq> {..<gw_next_client (rr_gateway r)}"
    unfolding account_distinct(2) [OF assms, symmetric] by (auto simp: account_def)
  ultimately show ?thesis unfolding registry_ok_def by blast
qed

lemma made_from_cong: "same_pool w w' \<Longrightarrow> made_from bs w' = made_from bs w"
  by (simp add: same_pool_def made_from_def shows_rows_def)

lemma fetched_ids:
  assumes "\<And>rows. mset (sv_scan S rows) = mset rows" and "db_ok (nd_db w)"
    and "on_db (list_all (sv_scan S)) w = (Inr bs, w')"
  shows "w' = w \<and> distinct (map b_id bs)"
proof -
  have bs: "backends_to_domain (sv_scan S (db_backend (nd_db w))) = Inr bs" and w': "w' = w"
    using assms(3) by (auto simp: list_all_apply)
  have "mset (map bm_id (sv_scan S (db_backend (nd_db w)))) = mset (map bm_id (db_backend (nd_db w)))"
    by (simp add: assms(1))
  then have "distinct (map bm_id (sv_scan S (db_backend (nd_db w))))"
    using assms(2) by (metis db_ok_def mset_eq_imp_distinct_iff)
  with backends_to_domain_set [OF bs] w' show ?thesis by simp
qed

lemma upt_more: "n \<le> k \<Longrightarrow> mset [0..<k] = mset [0..<n] + mset [n..<k]"
  using upt_add_eq_append [of 0 n "k - n"] by (metis le0 le_add_diff_inverse mset_append)

lemma exchanged_ok:
  assumes "run_ok r" and "rr_tasks r = ts @ Fetched bs # us" and "reload_exchange F bs (rr_gateway r) = (Inr old, w)"
  shows "run_ok (r\<lparr>rr_tasks := ts @ Closing old # us, rr_gateway := w\<rparr>)"
proof -
  have bs: "bs \<in> set (rr_fetched r)" "distinct (map b_id bs)" using assms(1,2) by (auto simp: run_ok_def)
  note R = reload_exchange_Inr [OF assms(3) bs(2)]
  have "map fst old = handles (gw_clients (rr_gateway r))" using R by (simp add: handles_def)
  with R assms(1,2) have "mset (account (r\<lparr>rr_tasks := ts @ Closing old # us, rr_gateway := w\<rparr>)) = mset [0..<gw_next_client w]"
    using upt_more [of "gw_next_client (rr_gateway r)" "gw_next_client w"] by (simp add: run_ok_def account_def ac_simps)
  moreover have "made_from bs w" using R by (simp add: made_from_def)
  ultimately show ?thesis using assms(1,2) bs(1) R by (auto simp: run_ok_def)
qed

lemma refused_ok:
  assumes "run_ok r" and "rr_tasks r = ts @ Fetched bs # us" and "reload_exchange F bs (rr_gateway r) = (Inl e, w)"
  shows "run_ok (r\<lparr>rr_tasks := ts @ us, rr_gateway := w,
    rr_lost := rr_lost r @ [gw_next_client (rr_gateway r)..<gw_next_client w]\<rparr>)"
proof -
  obtain n where n: "w = (rr_gateway r)\<lparr>gw_next_client := n\<rparr>" "gw_next_client (rr_gateway r) \<le> n"
    using reload_exchange_Inl(1) [OF assms(3)] by blast
  let ?r = "r\<lparr>rr_tasks := ts @ us, rr_gateway := w,
    rr_lost := rr_lost r @ [gw_next_client (rr_gateway r)..<gw_next_client w]\<rparr>"
  have "mset (account ?r) = mset (account r) + mset [gw_next_client (rr_gateway r)..<n]"
    using assms(2) n(1) by (simp add: account_def ac_simps)
  also have "\<dots> = mset [0..<n]" using assms(1) upt_more [OF n(2)] by (simp add: run_ok_def)
  finally have "mset (account ?r) = mset [0..<n]" .
  moreover have "made_from bs w = made_from bs (rr_gateway r)" for bs by (simp add: n(1) made_from_def shows_rows_def)
  ultimately show ?thesis using assms(1,2) n(1) by (simp add: run_ok_def)
qed

lemma closed_ok:
  assumes "run_ok r" and "rr_tasks r = ts @ Closing (c # cs) # us" and "client_aclose S c (rr_gateway r) = (x, w)"
  shows "run_ok (r\<lparr>rr_tasks := ts @ Closing cs # us, rr_gateway := w\<rparr>)"
    and "run_ok (r\<lparr>rr_tasks := ts @ us, rr_gateway := w, rr_lost := rr_lost r @ map fst cs\<rparr>)"
  using assms client_aclose_eq [OF assms(3)] by (auto simp: run_ok_def account_def made_from_def shows_rows_def ac_simps)

lemma reload_step_ok:
  assumes "reload_step S F cancels r r'" and "\<And>rows. mset (sv_scan S rows) = mset rows" and "run_ok r"
  shows "run_ok r'"
  using assms(1,3)
proof (induction rule: reload_step.induct)
  case (fetched r bs w)
  then have "db_ok (nd_db (rr_gateway r))" by (simp add: run_ok_def)
  with fetched_ids [OF assms(2) _ fetched(1)] fetched(2) show ?case
    by (auto simp: run_ok_def account_def)
next
  case (returned r ts us)
  then show ?case by (auto simp: run_ok_def account_def)
next
  case (cancelled r ts t us)
  then show ?case by (auto simp: run_ok_def account_def ac_simps)
next
  case (elsewhere r w)
  then show ?case by (auto simp: run_ok_def account_def made_from_cong) (simp_all add: same_pool_def)
qed (blast intro: exchanged_ok refused_ok closed_ok)+

lemma reload_run_ok:
  assumes "(reload_step S F cancels)\<^sup>*\<^sup>* r r'" and "\<And>rows. mset (sv_scan S rows) = mset rows" and "run_ok r"
  shows "run_ok r'"
  using assms(1,3) by (induction rule: rtranclp_induct) (blast dest: reload_step_ok [OF _ assms(2)])+

section \<open>Adequacy\<close>

text \<open>A reload that is not interrupted is one of the runs, so the runs cover what \<open>Registry\<close> says of it.\<close>

lemma close_all_is_run:
  assumes "close_all S cs w = (x, w')" and "rr_tasks r = ts @ Closing cs # us" and "rr_gateway r = w"
  shows "\<exists>lost. (reload_step S F cancels)\<^sup>*\<^sup>* r (r\<lparr>rr_tasks := ts @ us, rr_gateway := w', rr_lost := lost\<rparr>)"
  using assms
proof (induction cs arbitrary: r w)
  case Nil
  then have "reload_step S F cancels r (r\<lparr>rr_tasks := ts @ us\<rparr>)" and "w' = rr_gateway r"
    by (simp_all add: reload_step.returned)
  then show ?case by (intro exI [of _ "rr_lost r"]) simp
next
  case (Cons c cs)
  obtain y w1 where y: "client_aclose S c w = (y, w1)" by fastforce
  show ?case
  proof (cases y)
    case (Inl e)
    with y Cons.prems have "w' = w1" by simp
    with reload_step.stopped [OF Cons.prems(2), of S e w1 F cancels] y Inl Cons.prems(3) show ?thesis by blast
  next
    case (Inr u)
    let ?r = "r\<lparr>rr_tasks := ts @ Closing cs # us, rr_gateway := w1\<rparr>"
    have step: "reload_step S F cancels r ?r"
      using reload_step.closed [OF Cons.prems(2), of S w1 F cancels] y Inr Cons.prems(3) by simp
    have "close_all S cs w1 = (x, w')" using Cons.prems(1) y Inr by simp
    from Cons.IH [OF this, of ?r] obtain lost where
      "(reload_step S F cancels)\<^sup>*\<^sup>* ?r (r\<lparr>rr_tasks := ts @ us, rr_gateway := w', rr_lost := lost\<rparr>)" by auto
    with step show ?thesis by (meson converse_rtranclp_into_rtranclp)
  qed
qed

lemma reload_is_run:
  assumes "reload S F (rr_gateway r) = (x, w')"
  shows "\<exists>fetched lost. (reload_step S F cancels)\<^sup>*\<^sup>* r (r\<lparr>rr_fetched := fetched, rr_gateway := w', rr_lost := lost\<rparr>)"
proof -
  let ?w = "rr_gateway r"
  obtain y w1 where y: "on_db (list_all (sv_scan S)) ?w = (y, w1)" by fastforce
  show ?thesis
  proof (cases y)
    case (Inl e)
    with y assms have "w' = ?w" by (auto simp: reload_phases list_all_apply bindE_def)
    then show ?thesis by (intro exI [of _ "rr_fetched r"] exI [of _ "rr_lost r"]) simp
  next
    case (Inr bs)
    let ?r1 = "r\<lparr>rr_tasks := rr_tasks r @ [Fetched bs], rr_fetched := rr_fetched r @ [bs], rr_gateway := w1\<rparr>"
    have s1: "reload_step S F cancels r ?r1" using y Inr by (simp add: reload_step.fetched)
    obtain z w2 where z: "reload_exchange F bs w1 = (z, w2)" by fastforce
    show ?thesis
    proof (cases z)
      case z': (Inl e)
      have "reload_step S F cancels ?r1 (r\<lparr>rr_fetched := rr_fetched r @ [bs], rr_gateway := w2,
          rr_lost := rr_lost r @ [gw_next_client w1..<gw_next_client w2]\<rparr>)"
        using reload_step.refused [of ?r1 "rr_tasks r" bs "[]" F e w2 S cancels] z z' by simp
      moreover have "w' = w2" using assms y Inr z z' by (simp add: reload_phases)
      ultimately show ?thesis using s1 by (meson rtranclp.rtrancl_into_rtrancl rtranclp.rtrancl_refl)
    next
      case z': (Inr old)
      let ?r2 = "?r1\<lparr>rr_tasks := rr_tasks r @ [Closing old], rr_gateway := w2\<rparr>"
      have s2: "reload_step S F cancels ?r1 ?r2"
        using reload_step.exchanged [of ?r1 "rr_tasks r" bs "[]" F old w2 S cancels] z z' by simp
      have "close_all S old w2 = (x, w')" using assms y Inr z z' by (simp add: reload_phases)
      from close_all_is_run [OF this, of ?r2 "rr_tasks r" "[]"] obtain lost where
        "(reload_step S F cancels)\<^sup>*\<^sup>* ?r2 (r\<lparr>rr_fetched := rr_fetched r @ [bs], rr_gateway := w', rr_lost := lost\<rparr>)"
        by auto
      with s1 s2 show ?thesis by (meson converse_rtranclp_into_rtranclp)
    qed
  qed
qed

lemma close_all_returns:
  "close_all S cs w = (x, w') \<Longrightarrow> (\<And>n c. gv_aclose S n c = Inr ()) \<Longrightarrow> x = Inr ()"
  by (induction cs arbitrary: w) (auto simp: client_aclose_def bindE_def)

text \<open>Clients are lost only to a factory or a client that raises, or to a cancelled reload.\<close>

lemma lost_nothing:
  assumes "(reload_step S F False)\<^sup>*\<^sup>* r r'" and "\<And>b e. F b \<noteq> Inl e" and "\<And>n c. gv_aclose S n c = Inr ()"
  shows "rr_lost r' = rr_lost r"
  using assms(1)
proof (induction rule: rtranclp_induct)
  case (step r1 r2)
  from step(2) have "rr_lost r2 = rr_lost r1"
  proof (cases rule: reload_step.cases)
    case (refused ts bs us e w)
    with reload_exchange_Inl(2) assms(2) show ?thesis by blast
  next
    case (stopped ts c cs us e w)
    with client_aclose_eq [OF stopped(3)] assms(3) show ?thesis by simp
  qed simp_all
  with step(3) show ?case by simp
qed simp

section \<open>Properties\<close>

text \<open>A registry as its constructor leaves it, before the first reload.\<close>

definition fresh_registry :: "('r, 'z) gateway_scheme \<Rightarrow> bool" where
  "fresh_registry w \<longleftrightarrow> db_ok (nd_db w) \<and> gw_clients w = [] \<and> gw_by_model w = Map.empty \<and>
     gw_next_client w = 0 \<and> gw_closed w = []"

definition run_of :: "('r, 'z) gateway_scheme \<Rightarrow> ('r, 'z) gateway_scheme reload_run" where
  "run_of w = \<lparr>rr_tasks = [], rr_fetched = [], rr_lost = [], rr_gateway = w\<rparr>"

lemma run_of_ok: "fresh_registry w \<Longrightarrow> run_ok (run_of w)"
  by (simp add: fresh_registry_def run_of_def run_ok_def account_def handles_def made_from_def shows_rows_def at_model_def)

lemma pool_shows_fetched:
  assumes "run_ok r"
  shows "\<exists>bs \<in> insert [] (set (rr_fetched r)). \<forall>m. \<exists>ps. candidates m (rr_gateway r) = (Inr ps, rr_gateway r) \<and>
    map fst ps = sort_key b_priority (filter (\<lambda>b. b_enabled b \<and> b_model b = m) bs) \<and>
    (\<forall>(b, c) \<in> set ps. fst c \<notin> set (gw_closed (rr_gateway r)))"
proof -
  obtain bs where bs: "bs \<in> insert [] (set (rr_fetched r))" "shows_rows bs (rr_gateway r)"
    using assms unfolding run_ok_def made_from_def by blast
  have "\<exists>ps. candidates m (rr_gateway r) = (Inr ps, rr_gateway r) \<and>
      map fst ps = sort_key b_priority (filter (\<lambda>b. b_enabled b \<and> b_model b = m) bs) \<and>
      (\<forall>(b, c) \<in> set ps. fst c \<notin> set (gw_closed (rr_gateway r)))" for m
    using candidates_ok [OF run_ok_registry [OF assms], of m] bs(2) by (fastforce simp: shows_rows_def)
  with bs(1) show ?thesis by blast
qed

text \<open>
  C9. Overlapping reloads keep the pool consistent. However the reloads of one process interleave with
  each other and with the rest of it, and however each of them ends: every lookup of candidates
  succeeds and shows the enabled rows, in priority order, of one snapshot of the table that some
  reload has read, never a mixture of two; no client it hands out has been closed; no client is
  closed twice; and every client object ever built is accounted for exactly once, as live,
  closed, about to be closed by a reload under way, or lost.
\<close>

theorem overlapping_reloads_keep_pool:
  assumes "(reload_step S F cancels)\<^sup>*\<^sup>* (run_of w) r" and "fresh_registry w"
    and "\<And>rows. mset (sv_scan S rows) = mset rows"
  shows "registry_ok (rr_gateway r) \<and>
    (\<exists>bs \<in> insert [] (set (rr_fetched r)). \<forall>m. \<exists>ps. candidates m (rr_gateway r) = (Inr ps, rr_gateway r) \<and>
       map fst ps = sort_key b_priority (filter (\<lambda>b. b_enabled b \<and> b_model b = m) bs) \<and>
       (\<forall>(b, c) \<in> set ps. fst c \<notin> set (gw_closed (rr_gateway r)))) \<and>
    distinct (gw_closed (rr_gateway r)) \<and>
    mset (handles (gw_clients (rr_gateway r)) @ gw_closed (rr_gateway r) @ closing_of (rr_tasks r) @ rr_lost r) =
      mset [0..<gw_next_client (rr_gateway r)]"
proof -
  have ok: "run_ok r" by (rule reload_run_ok [OF assms(1,3) run_of_ok [OF assms(2)]])
  moreover have "distinct (gw_closed (rr_gateway r))" using account_distinct(1) [OF ok] by (simp add: account_def)
  moreover have "mset (account r) = mset [0..<gw_next_client (rr_gateway r)]" using ok by (simp add: run_ok_def)
  ultimately show ?thesis using run_ok_registry pool_shows_fetched unfolding account_def by blast
qed

theorem overlapping_reloads_keep_pool_witness:
  "\<exists>r :: (keyspace, unit) gateway_scheme reload_run.
     (reload_step (example_calls ()) (default_client_factory ''h'' None) True)\<^sup>*\<^sup>*
       (run_of (example_gateway [example_row 1 ''a'' ''ollama'' 10] ())) r \<and>
     length (rr_tasks r) = 2 \<and> registry_ok (rr_gateway r)"
proof -
  let ?S = "example_calls ()" and ?w = "example_gateway [example_row 1 ''a'' ''ollama'' 10] ()"
  let ?step = "reload_step ?S (default_client_factory ''h'' None) True"
  obtain bs where bs: "on_db (list_all (sv_scan ?S)) ?w = (Inr bs, ?w)"
    by (simp add: list_all_apply example_row_def backend_to_domain_def backend_type_of_def)
  let ?r = "\<lambda>n. \<lparr>rr_tasks = replicate n (Fetched bs), rr_fetched = replicate n bs, rr_lost = [], rr_gateway = ?w\<rparr>"
  have "?step (?r n) (?r (Suc n))" for n
    using reload_step.fetched [of ?S "?r n" bs ?w "default_client_factory ''h'' None" True] bs by (simp add: replicate_append_same)
  from this [of 0] this [of 1] have run: "?step\<^sup>*\<^sup>* (run_of ?w) (?r 2)"
    by (simp add: run_of_def numeral_2_eq_2)
  have "fresh_registry ?w" by (simp add: fresh_registry_def db_ok_def empty_db_def example_row_def)
  with overlapping_reloads_keep_pool [OF run] have "registry_ok (rr_gateway (?r 2))" by simp
  with run show ?thesis by (intro exI [of _ "?r 2"]) simp
qed

text \<open>A reload that finds nothing to close, and the rest of one that has read the table.\<close>

lemma full_reload_run:
  assumes "on_db (list_all (sv_scan S)) (rr_gateway r) = (Inr bs, w)" and "reload_exchange F bs w = (Inr [], w')"
  shows "(reload_step S F cancels)\<^sup>*\<^sup>* r (r\<lparr>rr_fetched := rr_fetched r @ [bs], rr_gateway := w'\<rparr>)"
proof -
  let ?r = "\<lambda>ts w. r\<lparr>rr_tasks := rr_tasks r @ ts, rr_fetched := rr_fetched r @ [bs], rr_gateway := w\<rparr>"
  have "reload_step S F cancels r (?r [Fetched bs] w)" using assms(1) by (rule reload_step.fetched)
  moreover have "reload_step S F cancels (?r [Fetched bs] w) (?r [Closing []] w')"
    using reload_step.exchanged [of "?r [Fetched bs] w" "rr_tasks r" bs "[]" F "[]" w' S cancels] assms(2) by (cases r) simp
  moreover have "reload_step S F cancels (?r [Closing []] w') (r\<lparr>rr_fetched := rr_fetched r @ [bs], rr_gateway := w'\<rparr>)"
    using reload_step.returned [of "?r [Closing []] w'" "rr_tasks r" "[]" S F cancels] by (cases r) simp
  ultimately show ?thesis by (meson rtranclp.rtrancl_into_rtrancl rtranclp.rtrancl_refl)
qed

lemma late_exchange_run:
  assumes "rr_tasks r = [Fetched bs]" and "reload_exchange F bs (rr_gateway r) = (Inr [c], w)"
    and "client_aclose S c w = (Inr (), w')"
  shows "(reload_step S F cancels)\<^sup>*\<^sup>* r (r\<lparr>rr_tasks := [], rr_gateway := w'\<rparr>)"
proof -
  let ?r = "\<lambda>ts w. r\<lparr>rr_tasks := ts, rr_gateway := w\<rparr>"
  have "reload_step S F cancels r (?r [Closing [c]] w)"
    using reload_step.exchanged [of r "[]" bs "[]" F "[c]" w S cancels] assms(1,2) by (cases r) simp
  moreover have "reload_step S F cancels (?r [Closing [c]] w) (?r [Closing []] w')"
    using reload_step.closed [of "?r [Closing [c]] w" "[]" c "[]" "[]" S w' F cancels] assms(3) by (cases r) simp
  moreover have "reload_step S F cancels (?r [Closing []] w') (?r [] w')"
    using reload_step.returned [of "?r [Closing []] w'" "[]" "[]" S F cancels] by (cases r) simp
  ultimately show ?thesis by (meson rtranclp.rtrancl_into_rtrancl rtranclp.rtrancl_refl)
qed

text \<open>
  C10. A late reload takes a new backend out of service. A reload reads the table, a second admin request
  writes a backend and completes its own reload, which makes the backend a candidate, and then the
  first reload exchanges the pool: both have returned, nothing has failed, the row is enabled in the
  table, and the model has no candidate.
\<close>

theorem late_reload_unpublishes_backend:
  "\<exists>(w :: keyspace gateway) r1 w1 b r2 ps r3. fresh_registry w \<and>
     reload_step (example_calls ()) (default_client_factory ''h'' None) False (run_of w) r1 \<and>
     on_db (upsert 1 0 ''a'' OLLAMA ''http://x'' ''m'' 10 0 0) w = (Inr b, w1) \<and>
     (reload_step (example_calls ()) (default_client_factory ''h'' None) False)\<^sup>*\<^sup>* (r1\<lparr>rr_gateway := w1\<rparr>) r2 \<and>
     candidates ''m'' (rr_gateway r2) = (Inr ps, rr_gateway r2) \<and> map fst ps = [b] \<and>
     (reload_step (example_calls ()) (default_client_factory ''h'' None) False)\<^sup>*\<^sup>* r2 r3 \<and>
     rr_tasks r3 = [] \<and> rr_lost r3 = [] \<and>
     map bm_enabled (db_backend (nd_db (rr_gateway r3))) = [True] \<and>
     candidates ''m'' (rr_gateway r3) = (Inr [], rr_gateway r3)"
proof -
  let ?S = "example_calls ()" and ?F = "default_client_factory ''h'' None"
  let ?w = "example_gateway [] ()"
  let ?row = "\<lparr>bm_id = 1, bm_name = ''a'', bm_type = ''ollama'', bm_endpoint = ''http://x'', bm_model = ''m'', bm_priority = 10,
    bm_enabled = True, bm_cost_per_1k_in = 0, bm_cost_per_1k_out = 0, bm_created_at = 0\<rparr>"
  let ?b = "\<lparr>b_id = 1, b_name = ''a'', b_type = OLLAMA, b_endpoint = ''http://x'', b_model = ''m'', b_priority = 10,
    b_enabled = True, b_cost_per_1k_in = 0, b_cost_per_1k_out = 0, b_created_at = 0\<rparr>"
  let ?c = "(0, OllamaClient ''http://x'' ''m'' ''a'')"
  define w1 where "w1 = ?w\<lparr>nd_db := empty_db\<lparr>db_backend := [?row]\<rparr>\<rparr>"
  have zero: "numeric6 0 = 0" by (simp add: numeric6_def floor_eq_iff)
  have ups: "on_db (upsert 1 0 ''a'' OLLAMA ''http://x'' ''m'' 10 0 0) ?w = (Inr ?b, w1)"
    by (simp add: Let_def upsert_def on_db_def insert_backend_def stored_backend_def empty_db_def bindE_def w1_def
        backend_to_domain_def backend_type_of_def backend_row_ok_def text_ok_def int4_ok_def numeric_ok_def zero)
  define w2 where "w2 = w1\<lparr>gw_next_client := 1, gw_clients := [(1, ?c)],
    gw_by_model := (\<lambda>m. map_option (sort_key b_priority) ([''m'' \<mapsto> [?b]] m))\<rparr>"
  have row: "on_db (list_all (sv_scan ?S)) w1 = (Inr [?b], w1)"
    by (simp add: list_all_apply w1_def backend_to_domain_def backend_type_of_def)
  have pool: "reload_exchange ?F [?b] w1 = (Inr [], w2)"
    by (auto simp: reload_exchange_def make_client_eq default_client_factory_def w1_def w2_def at_model_def bindE_def)
  define w3 where "w3 = w2\<lparr>gw_clients := [], gw_by_model := Map.empty\<rparr>"
  have empty: "reload_exchange ?F [] w2 = (Inr [?c], w3)" "on_db (list_all (sv_scan ?S)) ?w = (Inr [], ?w)"
    by (simp_all add: reload_exchange_def list_all_apply w2_def w3_def)
  define w4 where "w4 = w3\<lparr>nd_ticks := Suc (nd_ticks w3), gw_closed := [0]\<rparr>"
  have close: "client_aclose ?S ?c w3 = (Inr (), w4)"
    by (simp add: client_aclose_def w4_def w3_def w2_def w1_def)
  define r1 where "r1 = \<lparr>rr_tasks = [Fetched []], rr_fetched = [[]], rr_lost = [], rr_gateway = ?w\<rparr>"
  let ?r2 = "\<lambda>ts w. \<lparr>rr_tasks = ts, rr_fetched = [[], [?b]], rr_lost = [], rr_gateway = w\<rparr>"
  have "reload_step ?S ?F False (run_of ?w) r1"
    using reload_step.fetched [of ?S "run_of ?w" "[]" ?w ?F False] empty(2) by (simp add: run_of_def r1_def)
  moreover have "(reload_step ?S ?F False)\<^sup>*\<^sup>* (r1\<lparr>rr_gateway := w1\<rparr>) (?r2 [Fetched []] w2)"
    using full_reload_run [of ?S "r1\<lparr>rr_gateway := w1\<rparr>" "[?b]" w1 ?F w2 False] row pool by (simp add: r1_def)
  moreover have "(reload_step ?S ?F False)\<^sup>*\<^sup>* (?r2 [Fetched []] w2) (?r2 [] w4)"
    using late_exchange_run [of "?r2 [Fetched []] w2" "[]" ?F ?c w3 ?S w4 False] empty(1) close by simp
  moreover have "candidates ''m'' w2 = (Inr [(?b, ?c)], w2)" "candidates ''m'' w4 = (Inr [], w4)"
    "map bm_enabled (db_backend (nd_db w4)) = [True]"
    by (simp_all add: candidates_def at_model_def w4_def w3_def w2_def w1_def)
  moreover have "fresh_registry ?w" by (simp add: fresh_registry_def db_ok_def empty_db_def)
  ultimately show ?thesis
    using ups by (intro exI [of _ ?w] exI [of _ r1] exI [of _ w1] exI [of _ ?b] exI [of _ "?r2 [Fetched []] w2"]
        exI [of _ "[(?b, ?c)]"] exI [of _ "?r2 [] w4"]) simp
qed

text \<open>
  C11. The shutdown closes every client once. When the process stops with no reload under way and the
  stores and clients close without an error, it stops normally, and each client object ever built
  has been closed exactly once by then, except for those that were lost; none are lost unless a
  row cannot be turned into a client or a reload is cancelled. No candidate is left.
\<close>

theorem shutdown_closes_every_client:
  assumes "(reload_step S F cancels)\<^sup>*\<^sup>* (run_of w) r" and "fresh_registry w" and "rr_tasks r = []"
    and "\<And>rows. mset (sv_scan S rows) = mset rows" and "\<And>n c. gv_aclose S n c = Inr ()"
    and "\<And>n. av_redis_aclose S n = Inr ()" and "\<And>n. av_engine_dispose S n = Inr ()"
  shows "\<exists>w'. lifespan_stop S (rr_gateway r) = (Inr (), w') \<and>
    mset (gw_closed w' @ rr_lost r) = mset [0..<gw_next_client w'] \<and>
    (\<not> cancels \<and> (\<forall>b e. F b \<noteq> Inl e) \<longrightarrow> mset (gw_closed w') = mset [0..<gw_next_client w']) \<and>
    (\<forall>m. candidates m w' = (Inr [], w'))"
proof -
  let ?w = "rr_gateway r"
  have ok: "run_ok r" by (rule reload_run_ok [OF assms(1,4) run_of_ok [OF assms(2)]])
  obtain x w1 where close: "close_all S (map snd (gw_clients ?w)) ?w = (x, w1)" by fastforce
  have x: "x = Inr ()" by (rule close_all_returns [OF close assms(5)])
  from close_all_result [OF close] x obtain t where
    "w1 = ?w\<lparr>nd_ticks := t, gw_closed := gw_closed ?w @ handles (gw_clients ?w)\<rparr>"
    by (auto simp: handles_def)
  with close x obtain w' where stop: "lifespan_stop S ?w = (Inr (), w')"
    and w': "gw_closed w' = gw_closed ?w @ handles (gw_clients ?w)" "gw_next_client w' = gw_next_client ?w"
      "gw_by_model w' = Map.empty"
    by (simp add: lifespan_stop_def registry_aclose_def bindE_def assms(6,7))
  have "mset (account r) = mset [0..<gw_next_client ?w]" using ok by (simp add: run_ok_def)
  then have all: "mset (gw_closed w' @ rr_lost r) = mset [0..<gw_next_client w']"
    using assms(3) by (simp add: account_def w' ac_simps)
  have lost: "rr_lost r = []" if "\<not> cancels" "\<forall>b e. F b \<noteq> Inl e"
    using lost_nothing [of S F "run_of w" r] assms(1,5) that by (simp add: run_of_def)
  have "\<not> cancels \<and> (\<forall>b e. F b \<noteq> Inl e) \<longrightarrow> mset (gw_closed w') = mset [0..<gw_next_client w']"
  proof
    assume "\<not> cancels \<and> (\<forall>b e. F b \<noteq> Inl e)"
    with lost have "rr_lost r = []" by blast
    with all show "mset (gw_closed w') = mset [0..<gw_next_client w']" by simp
  qed
  moreover have "candidates m w' = (Inr [], w')" for m by (simp add: candidates_def at_model_def w'(3))
  ultimately show ?thesis using stop all by blast
qed

theorem shutdown_closes_every_client_witness:
  "\<exists>w'. lifespan_stop (example_api doc_redis) (example_gateway [] ()) = (Inr (), w') \<and> candidates ''m'' w' = (Inr [], w')"
proof -
  have "fresh_registry (example_gateway [] ())" by (simp add: fresh_registry_def db_ok_def empty_db_def)
  with shutdown_closes_every_client [of "example_api doc_redis" "default_client_factory ''h'' None" True
      "example_gateway [] ()" "run_of (example_gateway [] ())"]
  show ?thesis by (auto simp: run_of_def example_api_def example_calls_on_def example_services_on_def)
qed

end
