(* ===== verification/Refine.thy ===== *)
theory Refine
  imports Api
begin

text \<open>
  The handlers rely on the documented behaviour of Redis only. A gateway in front of any server
  that behaves as documented (through a view of its state) simulates, step by step, the gateway
  in front of the documented server: same outcome, same tables, same calls, same output.
\<close>

section \<open>Views of the whole state\<close>

lemma services_view [simp]:
  fixes S :: "('r, 's) orchestrator_services_scheme"
  shows "gv_complete (doc_services S) = gv_complete S" "gv_stream (doc_services S) = gv_stream S"
    "gv_slot_granted (doc_services S) = gv_slot_granted S"
  by (cases S; simp add: doc_services_def)+

lemma gateway_view [simp]:
  fixes w :: "('r, 'z) orchestrator_state_scheme"
  shows "gw_clients (node_view v w) = gw_clients w" "gw_by_model (node_view v w) = gw_by_model w"
    "or_calls (node_view v w) = or_calls w" "or_output (node_view v w) = or_output w"
    "or_semaphores (node_view v w) = or_semaphores w" "or_metrics (node_view v w) = or_metrics w"
    "node_view v (w\<lparr>or_calls := c\<rparr>) = (node_view v w)\<lparr>or_calls := c\<rparr>"
    "node_view v (w\<lparr>or_output := t\<rparr>) = (node_view v w)\<lparr>or_output := t\<rparr>"
    "node_view v (w\<lparr>or_semaphores := s\<rparr>) = (node_view v w)\<lparr>or_semaphores := s\<rparr>"
    "node_view v (w\<lparr>or_metrics := m\<rparr>) = (node_view v w)\<lparr>or_metrics := m\<rparr>"
  by (cases w; simp add: node_view_def)+

lemma act_sim_sum [act_sims]:
  "(\<And>y. act_sim v (m y) (m' y)) \<Longrightarrow> (\<And>y. act_sim v (n y) (n' y)) \<Longrightarrow>
     act_sim v (case x of Inl y \<Rightarrow> m y | Inr y \<Rightarrow> n y) (case x of Inl y \<Rightarrow> m' y | Inr y \<Rightarrow> n' y)"
  by (cases x) simp_all

lemma act_sim_prod [act_sims]:
  "(\<And>a b. act_sim v (m a b) (n a b)) \<Longrightarrow> act_sim v (case x of (a, b) \<Rightarrow> m a b) (case x of (a, b) \<Rightarrow> n a b)"
  by (cases x) simp

lemma candidates_sim [act_sims]:
  "act_sim (node_view v) (candidates model :: (('r, 'z) orchestrator_state_scheme, _) act) (candidates model)"
  by (simp add: act_sim_def candidates_def)

lemma emit_sim [act_sims]: "ro_metrics ro' = ro_metrics ro \<Longrightarrow> act_sim (node_view v) (emit ro x) (emit ro' x)"
  by (simp add: act_sim_def emit_def)

lemma trace_sims [act_sims]:
  "act_sim (node_view v) (yield_item x) (yield_item x)" "act_sim (node_view v) (note_call u) (note_call u)"
  by (simp_all add: act_sim_def yield_item_def note_call_def)

lemma semaphore_sims [act_sims]:
  "act_sim (node_view v) (semaphore_for n u) (semaphore_for n u)"
  "act_sim (node_view v) (acquire S n u) (acquire (doc_services S) n u)"
  "act_sim (node_view v) (release u) (release u)"
  by (simp_all add: act_sim_def semaphore_for_def acquire_def release_def free_slots_def set_slots_def bindE_def
      split: option.splits)

lemma under_semaphore_sim [act_sims]:
  "act_sim (node_view v) m n \<Longrightarrow>
     act_sim (node_view v) (under_semaphore S limit u m) (under_semaphore (doc_services S) limit u n)"
  unfolding under_semaphore_def by (intro act_sims)

lemma consume_stream_sim [act_sims]:
  "act_sim (node_view v) (consume_stream timeout events ending locals) (consume_stream timeout events ending locals)"
proof (induction timeout events ending locals rule: consume_stream.induct)
  case (1 timeout finish failure locals)
  show ?case unfolding consume_stream.simps by (rule act_sim_return)
next
  case (2 timeout arrival event events ending locals)
  then show ?case by (cases event) (auto intro!: act_sim_return act_sim_bind trace_sims)
qed

lemma call_sims [act_sims]:
  "act_sim (node_view v) (call_complete S t ms b c) (call_complete (doc_services S) t ms b c)"
  "act_sim (node_view v) (call_stream S t ms b c) (call_stream (doc_services S) t ms b c)"
  unfolding call_complete_def call_stream_def Let_def services_view by (intro act_sims)+

section \<open>The pipeline in front of a documented server\<close>

text \<open>
  Two orchestrators with the same configuration whose policies correspond, one in front of the
  server and one in front of its documentation.
\<close>

locale redis_pipeline = redis_node S view
  for S :: "('r, 's) orchestrator_services_scheme" and view :: "'r \<Rightarrow> keyspace" +
  fixes ro :: "'r RequestOrchestrator" and ro' :: "keyspace RequestOrchestrator"
  assumes policy_doc: "act_sim view (ro_policy ro bs f) (ro_policy ro' bs f)"
    and same: "ro_cache ro' = ro_cache ro" "ro_breaker ro' = ro_breaker ro"
      "ro_latency_tracker ro' = ro_latency_tracker ro" "ro_timeout ro' = ro_timeout ro"
      "ro_per_backend_concurrency ro' = ro_per_backend_concurrency ro" "ro_metrics ro' = ro_metrics ro"
begin

lemma step_sims [act_sims]:
  "act_sim (node_view view) (elapsed_ms S start) (elapsed_ms (doc_services S) start)"
  "act_sim (node_view view) (limiter_reserve S k est) (limiter_reserve (doc_services S) k est)"
  "act_sim (node_view view) (limiter_reconcile S k rid n) (limiter_reconcile (doc_services S) k rid n)"
  "act_sim (node_view view) (check_breaker S cb b) (check_breaker (doc_services S) cb b)"
  "act_sim (node_view view) (record_outcome S cb b ok) (record_outcome (doc_services S) cb b ok)"
  "act_sim (node_view view) (record_latency S lt b ms) (record_latency (doc_services S) lt b ms)"
  "act_sim (node_view view) (log_request S k m ms st bid tier i j cost r)
     (log_request (doc_services S) k m ms st bid tier i j cost r)"
  unfolding elapsed_ms_def limiter_reserve_def limiter_reconcile_def check_breaker_def record_outcome_def
    record_latency_def log_request_def doc_services_sel
  by (intro act_sims)+

lemma lookup_sim [act_sims]:
  "act_sim (node_view view) (lookup S ro bypass m h t) (lookup (doc_services S) ro' bypass m h t)"
  unfolding lookup_def same by (intro act_sims)

lemma select_sim [act_sims]:
  "act_sim (node_view view) (select_candidate S (ro_policy ro) f ps) (select_candidate (doc_services S) (ro_policy ro') f ps)"
  unfolding select_candidate_def by (intro act_sims policy_doc)

lemma ending_sims [act_sims]:
  "act_sim (node_view view) (serve_hit S ro k m start rid hit) (serve_hit (doc_services S) ro' k m start rid hit)"
  "act_sim (node_view view) (complete_success S ro k m h t bypass start rid b c)
     (complete_success (doc_services S) ro' k m h t bypass start rid b c)"
  "act_sim (node_view view) (stream_success S ro k m h t bypass start rid b locals)
     (stream_success (doc_services S) ro' k m h t bypass start rid b locals)"
  "act_sim (node_view view) (complete_exhausted S ro k m start le) (complete_exhausted (doc_services S) ro' k m start le)"
  "act_sim (node_view view) (stream_exhausted S k m start le) (stream_exhausted (doc_services S) k m start le)"
  unfolding serve_hit_def complete_success_def stream_success_def complete_exhausted_def stream_exhausted_def same Let_def
  by (intro act_sims same)+

lemma body_sims [act_sims]:
  "act_sim (node_view view) (complete_body S ro k m ms h t bypass start rid pair le)
     (complete_body (doc_services S) ro' k m ms h t bypass start rid pair le)"
  "act_sim (node_view view) (stream_body S ro k m ms h t bypass start rid pair le)
     (stream_body (doc_services S) ro' k m ms h t bypass start rid pair le)"
  unfolding complete_body_def complete_outcome_def stream_body_def stream_attempt_def stream_outcome_def same Let_def
  by (intro act_sims same)+

lemma failover_sim:
  fixes body :: "Backend \<times> live_client \<Rightarrow> exn option \<Rightarrow> (('r, 'z) node_scheme, exn option + 'a) act"
  assumes "\<And>pair le. act_sim (node_view view) (body pair le) (body' pair le)"
  shows "act_sim (node_view view) (failover S (ro_policy ro) f body ps le)
    (failover (doc_services S) (ro_policy ro') f body' ps le)"
proof (induction "length ps" arbitrary: ps le rule: less_induct)
  case less
  show ?case
  proof (rule act_simI)
    fix w :: "('r, 'z) node_scheme"
    obtain y w1 where sel: "select_candidate S (ro_policy ro) f ps w = (y, w1)" by fastforce
    then have sel': "select_candidate (doc_services S) (ro_policy ro') f ps (node_view view w) = (y, node_view view w1)"
      using act_simD [OF select_sim, of f ps w] by (simp add: prod_eq_iff)
    have "fst (failover S (ro_policy ro) f body ps le w) = fst (failover (doc_services S) (ro_policy ro') f body' ps le (node_view view w)) \<and>
      node_view view (snd (failover S (ro_policy ro) f body ps le w)) =
        snd (failover (doc_services S) (ro_policy ro') f body' ps le (node_view view w))"
    proof (cases "ps = [] \<or> (\<exists>e. y = Inl e)")
      case True
      with sel sel' show ?thesis by (auto simp: failover.simps)
    next
      case False
      then obtain pair rest where y: "ps \<noteq> []" "y = Inr (pair, rest)" by (cases y) auto
      obtain z w2 where body: "body pair le w1 = (z, w2)" by fastforce
      then have body': "body' pair le (node_view view w1) = (z, node_view view w2)"
        using act_simD [OF assms, of pair le w1] by (simp add: prod_eq_iff)
      have short: "length rest < length ps" using select_candidate_shrinks sel y(2) by blast
      show ?thesis
        using act_simD [OF less [OF short]] sel sel' y body body'
        by (cases z) (simp_all add: failover.simps [of _ _ _ _ ps] split: sum.splits)
    qed
    then show "fst (failover S (ro_policy ro) f body ps le w) = fst (failover (doc_services S) (ro_policy ro') f body' ps le (node_view view w))"
      "node_view view (snd (failover S (ro_policy ro) f body ps le w)) =
        snd (failover (doc_services S) (ro_policy ro') f body' ps le (node_view view w))" by simp_all
  qed
qed

lemma handlers_sim:
  "act_sim (node_view view) (handle_complete S ro k model ms bypass) (handle_complete (doc_services S) ro' k model ms bypass)"
  "act_sim (node_view view) (handle_stream S ro k model ms bypass) (handle_stream (doc_services S) ro' k model ms bypass)"
  unfolding handle_complete_def handle_stream_def complete_walk_def stream_walk_def doc_services_sel
  by (intro act_sims failover_sim)+

end

text \<open>The orchestrator the application builds, for any settings.\<close>

locale redis_gateway = redis_node S view
  for S :: "('r, 's) orchestrator_services_scheme" and view :: "'r \<Rightarrow> keyspace"

sublocale redis_gateway \<subseteq> built: redis_pipeline S view "build_orchestrator (sv_redis S) settings"
  "build_orchestrator doc_redis settings" for settings
  by unfold_locales (auto simp: build_orchestrator_def intro: build_policy_sim)

context redis_gateway
begin

lemmas built_handlers_sim = built.handlers_sim

end

interpretation docg: redis_gateway "doc_services S" "\<lambda>s. s" for S
  by unfold_locales (auto simp: act_sim_def)

section \<open>Property\<close>



end
