(* ===== verification/Replay.thy ===== *)
theory Replay
  imports Contracts Refine
begin

text \<open>
  The exact cache in the request path. The components share one Redis but own disjoint families of
  keys, so an entry of the exact cache survives everything else a request does, until it expires:
  a repeated request is served from it, and a request that bypasses the cache neither reads nor
  writes it.
\<close>

section \<open>Families of keys\<close>

lemma key_families:
  "l1_key m h \<noteq> ratelimit_key a" "l1_key m h \<noteq> breaker_key b" "l1_key m h \<noteq> latency_key b"
  by (simp_all add: l1_key_def ratelimit_key_def breaker_key_def latency_key_def)

lemma frames_reads: "(\<And>s. snd (m s) = s) \<Longrightarrow> frames_key j m"
  by (simp add: frames_key_def)

lemma build_policy_reads: "snd (build_policy doc_redis name cs f s) = s"
proof -
  have p95: "snd (p95 doc_redis b s) = s" for b
    by (simp add: p95_def bindE_def doc_lrange_def Let_def split: option.splits rval.splits sum.splits prod.splits)
  have "snd (score_all doc_redis bs s) = s" for bs
  proof (induction bs)
    case (Cons b bs)
    with p95 [of "uuid_str (b_id b)"] show ?case by (auto simp: bindE_def split: prod.splits sum.splits)
  qed simp
  then show ?thesis
    unfolding build_policy_def cost_select_def latency_select_def
    by (auto simp: Let_def bindE_def split: prod.splits sum.splits) (metis snd_conv)+
qed

text \<open>
  An assertion on the node that survives every exchange with Redis about a key which does not
  belong to the exact cache: the steps of the other components keep it.
\<close>

locale foreign_steps =
  fixes S :: "(keyspace, 's) services_scheme" and I :: "(keyspace, 'z) node_scheme \<Rightarrow> bool"
  assumes tick: "I w \<Longrightarrow> I (w\<lparr>nd_ticks := Suc (nd_ticks w)\<rparr>)"
    and exchange: "\<lbrakk>\<forall>m h. j \<noteq> l1_key m h; \<forall>i. i \<noteq> j \<longrightarrow> ks_data s i = ks_data (keyspace_at (sv_server_clock S (nd_ticks w)) (nd_redis w)) i;
      ks_now s = sv_server_clock S (nd_ticks w); I w\<rbrakk> \<Longrightarrow> I (w\<lparr>nd_ticks := Suc (nd_ticks w), nd_redis := s\<rparr>)"
    and server: "sv_redis S = doc_redis"
begin

lemma reading_step: "maintains I (reading source)"
  by (rule ensuresI) (auto intro: tick)

lemma redis_step:
  assumes "frames_key j m" and "\<forall>m h. j \<noteq> l1_key m h"
  shows "maintains I (redis_call S m)"
proof (rule ensuresI)
  fix w x w' assume "I w" and run: "redis_call S m w = (x, w')"
  let ?s = "keyspace_at (sv_server_clock S (nd_ticks w)) (nd_redis w)"
  have "w' = w\<lparr>nd_ticks := Suc (nd_ticks w), nd_redis := snd (m ?s)\<rparr>"
    using run by (simp add: redis_call_doc [OF server] split: prod.splits)
  with \<open>I w\<close> assms(2) frames_keyD(1) [OF assms(1), of _ ?s] frames_keyD(2) [OF assms(1), of ?s] show "I w'"
    by (simp add: exchange keyspace_at_data(2))
qed

lemma other_components:
  "maintains I (elapsed_ms S start)"
  "maintains I (limiter_reserve S k est)"
  "maintains I (limiter_reconcile S k rid n)"
  "maintains I (check_breaker S cb b)"
  "maintains I (record_outcome S cb b ok)"
  "maintains I (record_latency S lt b ms)"
  "maintains I (select_candidate S (build_policy doc_redis name) features rest)"
proof -
  have foreign: "\<forall>m h. ratelimit_key a \<noteq> l1_key m h" "\<forall>m h. breaker_key a \<noteq> l1_key m h"
    "\<forall>m h. latency_key a \<noteq> l1_key m h" "\<forall>m h. [] \<noteq> l1_key m h" for a
    by (simp_all add: l1_key_def ratelimit_key_def breaker_key_def latency_key_def)
  note red = redis_step [OF limiter_frames(1) foreign(1)] redis_step [OF limiter_frames(2) foreign(1)]
    redis_step [OF breaker_frames(1) foreign(2)] redis_step [OF breaker_frames(2) foreign(2)]
    redis_step [OF latency_frames(1) foreign(3)] redis_step [OF frames_reads [OF build_policy_reads] foreign(4)]
  show "maintains I (elapsed_ms S start)" "maintains I (limiter_reserve S k est)"
    "maintains I (limiter_reconcile S k rid n)" "maintains I (check_breaker S cb b)"
    "maintains I (record_outcome S cb b ok)" "maintains I (record_latency S lt b ms)"
    "maintains I (select_candidate S (build_policy doc_redis name) features rest)"
    unfolding elapsed_ms_def limiter_reserve_def limiter_reconcile_def check_breaker_def record_outcome_def
      record_latency_def select_candidate_def server
    by (intro maintains_bind maintains_comb reading_step red ensures_option)+
qed

end

section \<open>The counter of readings only grows\<close>

definition advanced :: "nat \<Rightarrow> ('r, 'z) node_scheme \<Rightarrow> bool" where
  "advanced lo w \<longleftrightarrow> lo \<le> nd_ticks w"

lemma advanced_keeps: "keeps nd_ticks m \<Longrightarrow> maintains (advanced lo) m"
  unfolding advanced_def by (rule maintains_of_keeps)

lemma advanced_reading: "maintains (advanced lo) (reading source)"
  by (simp add: ensures_def advanced_def)

lemma advanced_redis_call: "maintains (advanced lo) (redis_call S m)"
  unfolding redis_call_def
  by (intro maintains_bind advanced_reading advanced_keeps keeps_on_redis) simp_all

lemma advanced_on_db: "maintains (advanced lo) (on_db m)"
  by (intro advanced_keeps keeps_on_db) simp

lemma advanced_write: "(\<And>w. nd_ticks (g w) = nd_ticks w) \<Longrightarrow> maintains (advanced lo) (state_write g)"
  by (simp add: ensures_def advanced_def)

lemmas advanced_rules = maintains_rules advanced_reading advanced_redis_call advanced_on_db advanced_write

lemma advanced_embed: "maintains (advanced lo) (semantic_embed S t)"
  unfolding semantic_embed_def get_embeddings_def by (intro advanced_rules) simp_all

lemma advanced_cache:
  "maintains (advanced lo) (cache_get S tc m h t)" "maintains (advanced lo) (cache_put S tc m h t c i j)"
  unfolding cache_get_def cache_put_def semantic_get_def semantic_put_def
  by (intro advanced_rules advanced_embed)+

lemma redis_then_ticks:
  assumes "sv_redis S = doc_redis" and "bindE (redis_call S m) k w = (x, w')"
    and "\<And>y. maintains (advanced (Suc (nd_ticks w))) (k y)"
  shows "Suc (nd_ticks w) \<le> nd_ticks w'"
proof -
  obtain y w1 where w1: "redis_call S m w = (y, w1)" by fastforce
  then have ticks: "nd_ticks w1 = Suc (nd_ticks w)" by (auto simp: redis_call_doc [OF assms(1)] split: prod.splits)
  with w1 assms(2) ensuresD [OF assms(3), of w1] show ?thesis by (cases y) (auto simp: advanced_def)
qed

lemma cache_ticks:
  assumes "sv_redis S = doc_redis"
  shows "cache_get S tc m h t w = (x, w') \<Longrightarrow> Suc (nd_ticks w) \<le> nd_ticks w'"
    and "cache_put S tc m h t c i j w = (y, w') \<Longrightarrow> Suc (nd_ticks w) \<le> nd_ticks w'"
  unfolding cache_get_def cache_put_def semantic_get_def semantic_put_def
  by (erule redis_then_ticks [OF assms], intro advanced_rules advanced_embed)+

lemma advanced_call:
  assumes "maintains (advanced lo) body"
  shows "maintains (advanced lo) (under_semaphore S limit u body)"
  unfolding under_semaphore_def semaphore_for_def acquire_def release_def
  by (intro advanced_rules assms) (simp_all add: set_slots_def)

interpretation advance: pipeline_invariant S ro k bypass "advanced lo" for S ro k bypass lo
proof unfold_locales
  show "maintains (advanced lo) (under_semaphore S (ro_per_backend_concurrency ro) (b_id b)
      (call_complete S (ro_timeout ro) ms b c))" for b ms c
    unfolding call_complete_def note_call_def Let_def
    by (intro advanced_call maintains_bind advanced_write) (auto intro!: advanced_rules split: prod.splits)
  show "maintains (advanced lo) (under_semaphore S (ro_per_backend_concurrency ro) (b_id b)
      (call_stream S (ro_timeout ro) ms b c))" for b ms c
    unfolding call_stream_def note_call_def Let_def
    by (intro advanced_call maintains_bind advanced_write advanced_reading)
      (auto intro!: advanced_keeps consume_keeps_fields split: prod.splits)
  show "advanced lo (w\<lparr>nd_ticks := Suc (nd_ticks w)\<rparr>)" "advanced lo (w\<lparr>or_output := items\<rparr>)"
    if "advanced lo w" for w :: "('a, 'c) orchestrator_state_scheme" and items using that by (simp_all add: advanced_def)
qed (auto simp: limiter_reserve_def limiter_reconcile_def check_breaker_def record_outcome_def record_latency_def
    log_request_def lookup_def select_candidate_def emit_def intro!: advanced_rules advanced_cache)

section \<open>Requests that bypass the cache\<close>

text \<open>Every entry of the exact cache is as before or has expired.\<close>

definition l1_as_before :: "(string \<Rightarrow> (rval \<times> rat option) option) \<Rightarrow> keyspace \<Rightarrow> bool" where
  "l1_as_before before s \<longleftrightarrow>
     (\<forall>m h. ks_data s (l1_key m h) = before (l1_key m h) \<or> ks_data s (l1_key m h) = None)"

definition cache_rows :: "('r, 'z) node_scheme \<Rightarrow> CacheEntryModel list" where
  "cache_rows w = db_cache_entry (nd_db w)"

definition cache_untouched ::
  "(string \<Rightarrow> (rval \<times> rat option) option) \<Rightarrow> CacheEntryModel list \<Rightarrow> (keyspace, 'z) node_scheme \<Rightarrow> bool" where
  "cache_untouched before rows w \<longleftrightarrow> l1_as_before before (nd_redis w) \<and> cache_rows w = rows"

lemma cache_untouched_upd [simp]:
  "cache_untouched before rows (w\<lparr>nd_ticks := n\<rparr>) = cache_untouched before rows w"
  by (simp add: cache_untouched_def cache_rows_def)

lemma cache_untouched_gateway_upd [simp]:
  fixes w :: "(keyspace, 'z) orchestrator_state_scheme"
  shows "cache_untouched before rows (w\<lparr>or_output := t\<rparr>) = cache_untouched before rows w"
  by (simp add: cache_untouched_def cache_rows_def)

lemma keyspace_at_or_gone: "ks_data (keyspace_at t s) key = ks_data s key \<or> ks_data (keyspace_at t s) key = None"
  by (auto simp: keyspace_at_data split: option.splits)

lemma l1_as_before_exchange:
  assumes "l1_as_before before s" and "\<forall>m h. j \<noteq> l1_key m h"
    and "\<forall>i. i \<noteq> j \<longrightarrow> ks_data s' i = ks_data (keyspace_at t s) i"
  shows "l1_as_before before s'"
  unfolding l1_as_before_def
proof (intro allI)
  fix m h
  have "l1_key m h \<noteq> j" using assms(2) by metis
  then have "ks_data s' (l1_key m h) = ks_data (keyspace_at t s) (l1_key m h)" using assms(3) by blast
  then have "ks_data s' (l1_key m h) = ks_data s (l1_key m h) \<or> ks_data s' (l1_key m h) = None"
    using keyspace_at_or_gone by metis
  then show "ks_data s' (l1_key m h) = before (l1_key m h) \<or> ks_data s' (l1_key m h) = None"
    using assms(1) by (metis l1_as_before_def)
qed

interpretation untouched: foreign_steps "doc_services S" "cache_untouched before rows" for S before rows
  by unfold_locales (auto simp: cache_untouched_def cache_rows_def dest: l1_as_before_exchange)

lemma cache_untouched_keeps:
  "keeps nd_redis m \<Longrightarrow> keeps cache_rows m \<Longrightarrow> maintains (cache_untouched before rows) m"
  unfolding cache_untouched_def
  by (rule maintains_of_keeps2 [where P = "\<lambda>s d. l1_as_before before s \<and> d = rows"])

lemma log_request_keeps_cache:
  "keeps nd_redis (log_request S k model ms status bid tier i j cost reason)"
  "keeps cache_rows (log_request S k model ms status bid tier i j cost reason)"
proof -
  show "keeps nd_redis (log_request S k model ms status bid tier i j cost reason)"
    unfolding log_request_def by (intro keeps_bind keeps_comb keeps_reading keeps_on_db; simp)
  have "db_cache_entry (snd (insert_request_log row d)) = db_cache_entry d" for row d
    by (simp add: insert_request_log_def)
  then have "keeps cache_rows (on_db (request_log_insert u ts kid model ms status bid tier i j cost reason))" for u ts kid
    by (intro keeps_on_db_part [where g = db_cache_entry])
      (auto simp: request_log_insert_def cache_rows_def Let_def snd_bindE_return)
  then show "keeps cache_rows (log_request S k model ms status bid tier i j cost reason)"
    unfolding log_request_def by (intro keeps_bind keeps_comb keeps_reading) (simp_all add: cache_rows_def)
qed

interpretation bypassed: pipeline_invariant "doc_services S" "build_orchestrator doc_redis settings" k True
  "cache_untouched before rows" for S settings k before rows
proof unfold_locales
  let ?S = "doc_services S" and ?ro = "build_orchestrator doc_redis settings" and ?I = "cache_untouched before rows"
  show "maintains ?I (lookup ?S ?ro True model h t)" for model h t
    by (simp add: lookup_def maintains_comb)
  show "maintains ?I (select_candidate ?S (ro_policy ?ro) features rest)" for features rest
    by (simp add: build_orchestrator_def untouched.other_components)
  show "maintains ?I (emit ?ro event)" for event
    by (intro cache_untouched_keeps emit_keeps) (simp add: keeps_def emit_def cache_rows_def)
  show "maintains ?I (under_semaphore ?S (ro_per_backend_concurrency ?ro) (b_id b) (call_complete ?S (ro_timeout ?ro) ms b c))"
    for b ms c
    by (intro cache_untouched_keeps under_semaphore_keeps calls_keep(1)) (simp_all add: cache_rows_def)
  show "maintains ?I (under_semaphore ?S (ro_per_backend_concurrency ?ro) (b_id b) (call_stream ?S (ro_timeout ?ro) ms b c))"
    for b ms c
    by (intro cache_untouched_keeps under_semaphore_keeps calls_keep(2) consume_keeps_fields) (simp_all add: cache_rows_def)
qed (auto intro: untouched.other_components cache_untouched_keeps log_request_keeps_cache)



section \<open>Repeated requests\<close>

text \<open>
  All readings of the server's clock from position \<open>lo\<close> on lie between the reading at \<open>lo\<close> and the
  deadline; as long as they do, an entry with a later deadline stays.
\<close>

definition in_time :: "('r, 's) services_scheme \<Rightarrow> nat \<Rightarrow> rat \<Rightarrow> nat \<Rightarrow> bool" where
  "in_time S lo deadline hi \<longleftrightarrow>
     (\<forall>n. lo \<le> n \<and> n < hi \<longrightarrow> sv_server_clock S lo \<le> sv_server_clock S n \<and> sv_server_clock S n \<le> deadline)"

definition l1_kept ::
  "('r, 's) services_scheme \<Rightarrow> nat \<Rightarrow> rat \<Rightarrow> string \<Rightarrow> rval \<Rightarrow> (keyspace, 'z) node_scheme \<Rightarrow> bool" where
  "l1_kept S lo deadline key v w \<longleftrightarrow> lo \<le> nd_ticks w \<and>
     (in_time S lo deadline (nd_ticks w) \<longrightarrow> (\<exists>d \<ge> deadline. ks_data (nd_redis w) key = Some (v, Some d)))"

lemma in_time_mono: "in_time S lo deadline hi \<Longrightarrow> hi' \<le> hi \<Longrightarrow> in_time S lo deadline hi'"
  by (simp add: in_time_def)

lemma in_time_doc [simp]: "in_time (doc_services S) = in_time S"
  by (intro ext) (simp add: in_time_def)

lemma l1_kept_later:
  assumes "l1_kept S lo deadline key v w" and "nd_redis w' = nd_redis w" and "nd_ticks w \<le> nd_ticks w'"
  shows "l1_kept S lo deadline key v w'"
  using assms in_time_mono by (fastforce simp: l1_kept_def)

lemma l1_kept_exchange:
  assumes "l1_kept S lo deadline key v w" and "key \<noteq> j"
    and "\<forall>i. i \<noteq> j \<longrightarrow> ks_data s i = ks_data (keyspace_at (sv_server_clock S (nd_ticks w)) (nd_redis w)) i"
  shows "l1_kept S lo deadline key v (w\<lparr>nd_ticks := Suc (nd_ticks w), nd_redis := s\<rparr>)"
  unfolding l1_kept_def
proof (intro conjI impI)
  let ?t = "sv_server_clock S (nd_ticks w)"
  have lo: "lo \<le> nd_ticks w" using assms(1) by (simp add: l1_kept_def)
  then show "lo \<le> nd_ticks (w\<lparr>nd_ticks := Suc (nd_ticks w), nd_redis := s\<rparr>)" by simp
  assume timely: "in_time S lo deadline (nd_ticks (w\<lparr>nd_ticks := Suc (nd_ticks w), nd_redis := s\<rparr>))"
  with lo have t: "?t \<le> deadline" by (simp add: in_time_def)
  have "in_time S lo deadline (nd_ticks w)" using timely by (rule in_time_mono) simp
  with assms(1) obtain d where d: "deadline \<le> d" "ks_data (nd_redis w) key = Some (v, Some d)" by (auto simp: l1_kept_def)
  with t assms(2,3) have "ks_data s key = Some (v, Some d)" by (simp add: keyspace_at_data)
  with d(1) show "\<exists>d\<ge>deadline. ks_data (nd_redis (w\<lparr>nd_ticks := Suc (nd_ticks w), nd_redis := s\<rparr>)) key = Some (v, Some d)"
    by auto
qed

interpretation kept: foreign_steps "doc_services S" "l1_kept S lo deadline (l1_key m h) v" for S lo deadline m h v
proof unfold_locales
  fix j and s :: keyspace and w :: "(keyspace, 'z) node_scheme"
  assume "\<forall>m h. j \<noteq> l1_key m h" and "l1_kept S lo deadline (l1_key m h) v w"
    and "\<forall>i. i \<noteq> j \<longrightarrow> ks_data s i = ks_data (keyspace_at (sv_server_clock (doc_services S) (nd_ticks w)) (nd_redis w)) i"
  then show "l1_kept S lo deadline (l1_key m h) v (w\<lparr>nd_ticks := Suc (nd_ticks w), nd_redis := s\<rparr>)"
    by (intro l1_kept_exchange [where j = j]) (auto dest: not_sym)
qed (auto intro: l1_kept_later)

lemma kept_of_keeps: "keeps nd_redis m \<Longrightarrow> (\<And>lo. maintains (advanced lo) m) \<Longrightarrow> maintains (l1_kept S lo deadline key v) m"
proof (rule ensuresI)
  fix w x w' assume redis: "keeps nd_redis m" and ticks: "\<And>lo. maintains (advanced lo) m"
    and w: "l1_kept S lo deadline key v w" and run: "m w = (x, w')"
  have "nd_redis w' = nd_redis w" by (rule keepsD [OF redis run])
  moreover have "nd_ticks w \<le> nd_ticks w'"
    using ensuresD [OF ticks [of "nd_ticks w"] _ run] by (simp add: advanced_def)
  ultimately show "l1_kept S lo deadline key v w'" by (rule l1_kept_later [OF w])
qed

lemma cache_put_kept:
  fixes S :: "('r, 's) services_scheme"
  assumes "0 < tc_ttl_seconds tc"
  shows "ensures (advanced lo) (cache_put (doc_services S) tc m h t c i j)
    (\<lambda>_. l1_kept S lo (sv_server_clock S lo + of_int (tc_ttl_seconds tc)) (l1_key m h) (RStr (json_dumps (l1_payload c i j))))"
proof (rule ensuresI)
  fix w w' :: "(keyspace, 'z) node_scheme" and x
  assume lo: "advanced lo w" and run: "cache_put (doc_services S) tc m h t c i j w = (x, w')"
  let ?t = "sv_server_clock S (nd_ticks w)"
  have entry: "ks_data (nd_redis w') (l1_key m h) =
      Some (RStr (json_dumps (l1_payload c i j)), Some (?t + of_int (tc_ttl_seconds tc)))"
    using cache_put_l1 [OF _ assms run] by simp
  have ticks: "Suc (nd_ticks w) \<le> nd_ticks w'" by (rule cache_ticks(2) [OF _ run]) simp
  have "sv_server_clock S lo \<le> ?t" if "in_time S lo D (nd_ticks w')" for D
    using that lo ticks by (simp add: in_time_def advanced_def)
  with entry ticks lo show "l1_kept S lo (sv_server_clock S lo + of_int (tc_ttl_seconds tc)) (l1_key m h)
      (RStr (json_dumps (l1_payload c i j))) w'"
    by (auto simp: l1_kept_def advanced_def)
qed

definition stored_answer :: "CompletionResult \<Rightarrow> rval" where
  "stored_answer r = RStr (json_dumps (l1_payload (cr_content r) (cr_tokens_in r) (cr_tokens_out r)))"

lemma complete_success_kept:
  fixes S :: "('r, 's) orchestrator_services_scheme"
  assumes "0 < tc_ttl_seconds (ro_cache ro)"
  shows "ensures (advanced lo) (complete_success (doc_services S) ro k model h t False start rid b completion)
    (\<lambda>x w. \<forall>r. x = Inr r \<longrightarrow>
       l1_kept S lo (sv_server_clock S lo + of_int (tc_ttl_seconds (ro_cache ro))) (l1_key model h) (stored_answer r)
         (w :: (keyspace, 'z) orchestrator_state_scheme))"
    (is "ensures _ _ ?Q")
proof -
  let ?D = "sv_server_clock S lo + of_int (tc_ttl_seconds (ro_cache ro))"
  let ?K = "l1_kept S lo ?D (l1_key model h) (stored_answer (completion_result b completion)) ::
    (keyspace, 'z) orchestrator_state_scheme \<Rightarrow> bool"
  have kept: "ensures ?K (bindE m n) ?Q" if "maintains ?K m" "\<And>y. ensures ?K (n y) ?Q"
    for m :: "((keyspace, 'z) orchestrator_state_scheme, 'x) act" and n
    by (rule ensures_then [OF that(1) _ that(2)]) simp
  have log: "maintains ?K (log_request (doc_services S) k model ms st bid tier i j cost reason)"
    for ms st bid tier i j cost reason
    by (rule kept_of_keeps [OF log_request_keeps_cache(1)])
      (unfold log_request_def, intro advanced_rules)
  have emit: "maintains ?K (emit ro event)" for event
    by (rule kept_of_keeps [OF emit_keeps(5)]) (auto simp: emit_def intro!: advanced_rules)
  have put: "ensures (advanced lo) (cache_put (doc_services S) (ro_cache ro) model h t (c_content completion)
      (c_tokens_in completion) (c_tokens_out completion)) (\<lambda>x w. case x of Inl e \<Rightarrow> ?Q (Inl e) w | Inr _ \<Rightarrow> ?K w)"
    by (rule ensures_weaken [OF cache_put_kept [OF assms]])
      (auto simp: stored_answer_def completion_result_def split: sum.splits)
  have result: "ensures ?K (returnE (completion_result b completion)) ?Q" by (rule ensures_return) simp
  show ?thesis
    unfolding complete_success_def if_False
    by (rule ensures_then [OF advance.elapsed_step], simp, rule ensures_then [OF advance.success_step], simp,
        rule ensures_then [OF advance.latency_step], simp, rule ensures_bind [OF put],
        intro kept kept.other_components log emit result)
qed

lemma first_answer_kept:
  fixes S :: "('r, 's) orchestrator_services_scheme"
  assumes "0 < tc_ttl_seconds (ro_cache ro)"
  shows "ensures (advanced lo) (handle_complete (doc_services S) ro k model ms False)
    (\<lambda>x w. \<forall>r. x = Inr r \<longrightarrow> cr_cache_tier r = None \<longrightarrow>
       l1_kept S lo (sv_server_clock S lo + of_int (tc_ttl_seconds (ro_cache ro)))
         (l1_key model (prompt_hash (sv_sha256_hex S) model ms)) (stored_answer r)
         (w :: (keyspace, 'z) orchestrator_state_scheme))"
proof (rule advance.handle_complete_step, goal_cases)
  case (1 start rid h)
  show ?case by (rule ensuresI) (auto simp: hit_result_def split: sum.splits)
next
  case (2 w ps start rid b c completion)
  show ?case by (rule ensures_weaken [OF complete_success_kept [OF assms]]) simp
next
  case (3 start le)
  show ?case by (rule ensuresI) (use exhausted_raises(1) in blast)
qed simp

definition l1_hit :: "CompletionResult \<Rightarrow> CacheHit" where
  "l1_hit r = \<lparr>ch_content = cr_content r, ch_tokens_in = cr_tokens_in r, ch_tokens_out = cr_tokens_out r, ch_tier = L1\<rparr>"

lemma replay_doc:
  fixes w :: "(keyspace, 'z) orchestrator_state_scheme" and S :: "('r, 's) orchestrator_services_scheme"
  assumes run: "handle_complete (doc_services S) ro k model ms False w = (x, w3)"
    and kept: "l1_kept S lo D (l1_key model (prompt_hash (sv_sha256_hex S) model ms)) (stored_answer r) w"
    and timely: "in_time S lo D (nd_ticks w3)"
  shows "or_calls w3 = or_calls w \<and> (\<forall>r'. x = Inr r' \<longrightarrow> r' = hit_result model (l1_hit r))"
proof -
  let ?S = "doc_services S" and ?h = "prompt_hash (sv_sha256_hex S) model ms"
  let ?K = "l1_kept S lo D (l1_key model ?h) (stored_answer r)"
  define rest :: "rat \<Rightarrow> string \<Rightarrow> CacheHit option \<Rightarrow> ((keyspace, 'z) orchestrator_state_scheme, CompletionResult) act"
    where "rest start rid hit_opt = (case hit_opt of
      Some hit \<Rightarrow> bindE (serve_hit ?S ro k model start rid hit) (\<lambda>_. returnE (hit_result model hit))
    | None \<Rightarrow> bindE (candidates model) (\<lambda>remaining. if remaining = [] then raiseE NoBackendsAvailable
        else complete_walk ?S ro k model ms False start rid remaining))" for start rid hit_opt
  have later: "nd_ticks w2 \<le> nd_ticks w3" if "rest start rid hv w2 = (x, w3)" for start rid hv w2
  proof -
    have "maintains (advanced (nd_ticks w2)) (rest start rid hv)"
      unfolding rest_def
      by (intro ensures_option maintains_bind maintains_comb ensures_candidates advance.complete_walk_step advance.ending_steps)
    from ensuresD [OF this _ that] show ?thesis by (simp add: advanced_def)
  qed
  obtain start w0 where w0: "reading (sv_perf_counter ?S) w = (Inr start, w0)" by simp
  have k0: "?K w0" by (rule ensuresD [OF kept.reading_step kept w0])
  obtain rv w1 where w1: "limiter_reserve ?S k (estimate_tokens ms) w0 = (rv, w1)" by fastforce
  have k1: "?K w1" by (rule ensuresD [OF kept.other_components(2) k0 w1])
  have calls: "or_calls w1 = or_calls w"
    using w0 keepsD [OF node_steps_keep_calls(2) w1] by auto
  show ?thesis
  proof (cases "\<exists>rid. rv = Inr (Some rid)")
    case False
    then have "x \<noteq> Inr r' \<and> w3 = w1" for r'
      using run w0 w1 by (cases rv) (auto simp: handle_complete_def bindE_def split: option.splits)
    with calls show ?thesis by auto
  next
    case True
    then obtain rid where rid: "rv = Inr (Some rid)" by blast
    obtain hv w2 where w2: "cache_get ?S (ro_cache ro) model ?h (prompt_text ms) w1 = (hv, w2)" by fastforce
    have go: "(case hv of Inl e \<Rightarrow> x = Inl e \<and> w3 = w2 | Inr hit_opt \<Rightarrow> rest start rid hit_opt w2 = (x, w3))"
      using run w0 w1 rid w2 by (cases hv) (auto simp: handle_complete_def lookup_def rest_def bindE_def)
    have ticks: "Suc (nd_ticks w1) \<le> nd_ticks w2" by (rule cache_ticks(1) [OF _ w2]) simp
    have "nd_ticks w2 \<le> nd_ticks w3" using go later by (auto split: sum.splits)
    with timely have timely2: "in_time S lo D (nd_ticks w2)" by (rule in_time_mono)
    then have "in_time S lo D (nd_ticks w1)" using ticks by (elim in_time_mono) simp
    with k1 obtain d where d: "D \<le> d" "ks_data (nd_redis w1) (l1_key model ?h) = Some (stored_answer r, Some d)"
      by (auto simp: l1_kept_def)
    have now: "sv_server_clock S (nd_ticks w1) \<le> d"
      using timely2 ticks k1 d(1) by (fastforce simp: in_time_def l1_kept_def)
    from cache_get_l1 [OF _ d(2) [unfolded stored_answer_def], of ?S "ro_cache ro" "prompt_text ms"] now w2
    have hv: "hv = Inr (Some (l1_hit r))" by (simp add: l1_hit_def)
    obtain sv w4 where sv: "serve_hit ?S ro k model start rid (l1_hit r) w2 = (sv, w4)" by fastforce
    have "or_calls w4 = or_calls w1"
      using keepsD [OF success_keeps_calls(3) sv] keepsD [OF or_calls_of_more [OF cache_get_keeps] w2] by simp
    with go hv sv calls show ?thesis by (cases sv) (auto simp: rest_def)
  qed
qed

end
