(* ===== verification/Availability.thy ===== *)
theory Availability
  imports Replay
begin

text \<open>
  The shared Redis stays well-formed, and a healthy gateway answers. \<open>keyspace_ok\<close> says that every
  key of every component holds a value its component can read; each operation of the components
  succeeds on such a keyspace and keeps it. From there a completion request with budget left and
  one healthy candidate is answered, however many candidates fail before it.
\<close>

section \<open>A well-formed keyspace\<close>

definition sane_tokens :: "int \<Rightarrow> int \<Rightarrow> bool" where
  "sane_tokens i j \<longleftrightarrow> int4_ok i \<and> int4_ok j"

definition l1_ok :: "keyspace \<Rightarrow> string \<Rightarrow> string \<Rightarrow> bool" where
  "l1_ok s m h \<longleftrightarrow>
     (case ks_data s (l1_key m h) of
        None \<Rightarrow> True
      | Some (v, _) \<Rightarrow> (\<exists>raw hit. v = RStr raw \<and> decode_hit raw = Inr hit \<and>
          sane_tokens (ch_tokens_in hit) (ch_tokens_out hit)))"

definition keyspace_ok :: "keyspace \<Rightarrow> bool" where
  "keyspace_ok s \<longleftrightarrow> (\<forall>a. limiter_ok s a) \<and> (\<forall>b. breaker_ok s b) \<and> all_latency_ok s \<and> (\<forall>m h. l1_ok s m h)"

lemma sane_tokens_small: "sane_tokens i j \<Longrightarrow> \<bar>i + j\<bar> < 10 ^ 14"
  by (auto simp: sane_tokens_def int4_ok_def)

lemma keyspace_ok_empty: "keyspace_ok empty_keyspace"
  by (simp add: keyspace_ok_def limiter_ok_def breaker_ok_def all_latency_ok_def latency_ok_def l1_ok_def
      empty_keyspace_def)

lemma keyspace_ok_at:
  assumes "keyspace_ok s"
  shows "keyspace_ok (keyspace_at t s)"
  unfolding keyspace_ok_def all_latency_ok_def
proof (intro conjI allI)
  show "limiter_ok (keyspace_at t s) a" "breaker_ok (keyspace_at t s) a" for a
    using assms clock_limiter [of s a t] clock_breaker [of s a t] by (simp_all add: keyspace_ok_def keyspace_at_def)
  show "latency_ok (keyspace_at t s) b" for b
    using assms keyspace_at_or_gone [of t s "latency_key b"]
    by (auto simp: keyspace_ok_def all_latency_ok_def latency_ok_def)
  show "l1_ok (keyspace_at t s) m h" for m h
    using assms keyspace_at_or_gone [of t s "l1_key m h"] by (auto simp: keyspace_ok_def l1_ok_def)
qed

text \<open>A change of one key, which its owner has checked.\<close>

lemma keyspace_ok_change:
  assumes "keyspace_ok s" and frame: "\<And>i. i \<noteq> j \<Longrightarrow> ks_data s' i = ks_data s i"
    and "\<And>a. j = ratelimit_key a \<Longrightarrow> limiter_ok s' a" and "\<And>b. j = breaker_key b \<Longrightarrow> breaker_ok s' b"
    and "\<And>b. j = latency_key b \<Longrightarrow> latency_ok s' b" and "\<And>m h. j = l1_key m h \<Longrightarrow> l1_ok s' m h"
  shows "keyspace_ok s'"
  unfolding keyspace_ok_def all_latency_ok_def
proof (intro conjI allI)
  show "limiter_ok s' a" for a
    using assms(1,3) frame [of "ratelimit_key a"] by (cases "j = ratelimit_key a") (auto simp: keyspace_ok_def limiter_ok_def)
  show "breaker_ok s' b" for b
    using assms(1,4) frame [of "breaker_key b"] by (cases "j = breaker_key b") (auto simp: keyspace_ok_def breaker_ok_def)
  show "latency_ok s' b" for b
    using assms(1,5) frame [of "latency_key b"]
    by (cases "j = latency_key b") (auto simp: keyspace_ok_def all_latency_ok_def latency_ok_def)
  show "l1_ok s' m h" for m h
    using assms(1,6) frame [of "l1_key m h"] by (cases "j = l1_key m h") (auto simp: keyspace_ok_def l1_ok_def)
qed

lemma key_names_apart:
  "ratelimit_key a \<noteq> breaker_key b" "ratelimit_key a \<noteq> latency_key b" "ratelimit_key a \<noteq> l1_key m h"
  "breaker_key a \<noteq> ratelimit_key b" "breaker_key a \<noteq> latency_key b" "breaker_key a \<noteq> l1_key m h"
  "latency_key a \<noteq> ratelimit_key b" "latency_key a \<noteq> breaker_key b" "latency_key a \<noteq> l1_key m h"
  "l1_key m h \<noteq> ratelimit_key a" "l1_key m h \<noteq> breaker_key a" "l1_key m h \<noteq> latency_key a"
  by (simp_all add: l1_key_def ratelimit_key_def breaker_key_def latency_key_def)

section \<open>The components on a well-formed keyspace\<close>

abbreviation closed_for :: "keyspace \<Rightarrow> string \<Rightarrow> bool" where
  "closed_for s b \<equiv> br_phase (breaker_abs s b) = Closed"

lemma closed_for_frame:
  "frames_key j m \<Longrightarrow> j \<noteq> breaker_key b \<Longrightarrow> m s = (x, s') \<Longrightarrow> breaker_abs s' b = breaker_abs s b"
  using frames_keyD(1) [of j m "breaker_key b" s] by (auto simp: breaker_abs_def breaker_hash_def)

lemma closed_for_at: "keyspace_ok s \<Longrightarrow> breaker_abs (keyspace_at t s) b = breaker_abs s b"
  using clock_breaker [of s b t] by (simp add: keyspace_ok_def keyspace_at_def)

lemma allow_succeeds:
  assumes "keyspace_ok s"
  shows "\<exists>y s'. allow doc_redis cb b now s = (Inr y, s') \<and> keyspace_ok s' \<and>
    (\<forall>c. c \<noteq> b \<longrightarrow> breaker_abs s' c = breaker_abs s c) \<and> (closed_for s b \<longrightarrow> y \<and> closed_for s' b)"
proof -
  from assms have "breaker_ok s b" by (simp add: keyspace_ok_def)
  from allow_doc [OF this, of cb now] obtain y s' where s': "allow doc_redis cb b now s = (Inr y, s')" "breaker_ok s' b"
    "y = fst (spec_allow (of_int (cb_cooldown cb)) now (breaker_abs s b))"
    "breaker_abs s' b = snd (spec_allow (of_int (cb_cooldown cb)) now (breaker_abs s b))" by blast
  have "keyspace_ok s'"
    using assms s'(1,2) frames_keyD(1) [OF breaker_frames(1), of _ b cb now s]
    by (intro keyspace_ok_change [OF assms, of "breaker_key b"]) (auto simp: key_names_apart)
  moreover have "breaker_abs s' c = breaker_abs s c" if "c \<noteq> b" for c
    using breaker_abs_frame(1) [OF breaker_frames(1) that, of cb now s] s'(1) by simp
  ultimately show ?thesis using s' by (auto simp: spec_allow_def)
qed

lemma record_succeeds:
  assumes "keyspace_ok s"
  shows "\<exists>y s'. breaker_record doc_redis cb b ok now s = (Inr y, s') \<and> keyspace_ok s' \<and>
    (\<forall>c. c \<noteq> b \<longrightarrow> breaker_abs s' c = breaker_abs s c) \<and> (ok \<longrightarrow> closed_for s' b)"
proof -
  from assms have "breaker_ok s b" by (simp add: keyspace_ok_def)
  from record_doc [OF this, of cb ok now] obtain y s' where
    s': "breaker_record doc_redis cb b ok now s = (Inr y, s')" "breaker_ok s' b"
    "breaker_abs s' b = spec_record (of_int (cb_threshold cb)) ok now (breaker_abs s b)" by blast
  have "keyspace_ok s'"
    using assms s'(1,2) frames_keyD(1) [OF breaker_frames(2), of _ b cb ok now s]
    by (intro keyspace_ok_change [OF assms, of "breaker_key b"]) (auto simp: key_names_apart)
  moreover have "breaker_abs s' c = breaker_abs s c" if "c \<noteq> b" for c
    using breaker_abs_frame(1) [OF breaker_frames(2) that, of cb ok now s] s'(1) by simp
  ultimately show ?thesis using s' by (auto simp: spec_record_def)
qed

lemma latency_record_succeeds:
  assumes "keyspace_ok s" and "0 < lt_window_size lt"
  shows "\<exists>s'. latency_record doc_redis lt b q s = (Inr (), s') \<and> keyspace_ok s'"
proof -
  from assms(1) have "latency_ok s b" by (simp add: keyspace_ok_def all_latency_ok_def)
  from latency_record_doc [OF this assms(2), of q] obtain s' where
    s': "latency_record doc_redis lt b q s = (Inr (), s')" "latency_ok s' b" by blast
  then have "keyspace_ok s'"
    using frames_keyD(1) [OF latency_frames(1), of _ b lt q s]
    by (intro keyspace_ok_change [OF assms(1), of "latency_key b"]) (auto simp: key_names_apart)
  with s' show ?thesis by blast
qed

lemma reconcile_succeeds:
  assumes "keyspace_ok s" and "\<bar>actual\<bar> < 10 ^ 14"
  shows "\<exists>s'. reconcile doc_redis a (uuid_str u) actual now s = (Inr (), s') \<and> keyspace_ok s'"
proof -
  have ok: "limiter_ok s a" using assms(1) by (simp add: keyspace_ok_def)
  show ?thesis
  proof (cases "uuid_str u \<in> reservations (limiter_log s a)")
    case False
    from reconcile_absent [OF ok this] assms(1) show ?thesis by blast
  next
    case True
    then obtain t c where "(t, uuid_str u, c) \<in># limiter_log s a" by (force simp: reservations_def)
    from reconcile_doc [OF ok assms(2) this, of now] obtain s' where
      s': "reconcile doc_redis a (uuid_str u) actual now s = (Inr (), s')" "limiter_ok s' a" by blast
    then have "keyspace_ok s'"
      using frames_keyD(1) [OF limiter_frames(2), of _ a "uuid_str u" actual now s]
      by (intro keyspace_ok_change [OF assms(1), of "ratelimit_key a"]) (auto simp: key_names_apart)
    with s' show ?thesis by blast
  qed
qed

lemma reserve_succeeds:
  assumes "keyspace_ok s" and "0 < w" and "\<bar>est\<bar> < 10 ^ 14"
    and "uuid_str u \<notin> reservations (limiter_log s a)" and "\<forall>e \<in># limiter_log s a. 0 \<le> snd (snd e)"
    and "used (limiter_log s a) + est \<le> budget"
  shows "\<exists>s'. reserve doc_redis a est budget w u now s = (Inr (Some (uuid_str u)), s') \<and> keyspace_ok s'"
proof -
  have ok: "limiter_ok s a" using assms(1) by (simp add: keyspace_ok_def)
  have fresh: "uuid_str u \<notin> reservations (live_log now w (limiter_log s a))"
    using assms(4) reservations_live by blast
  have "used (live_log now w (limiter_log s a)) \<le> used (limiter_log s a)"
    unfolding live_log_def by (rule used_filter_le) (rule assms(5))
  with assms(6) have "\<not> budget < used (live_log now w (limiter_log s a)) + est" by simp
  with reserve_doc [OF ok assms(2,3) fresh, of budget] obtain s' where
    s': "reserve doc_redis a est budget w u now s = (Inr (Some (uuid_str u)), s')" "limiter_ok s' a" by auto
  then have "keyspace_ok s'"
    using frames_keyD(1) [OF limiter_frames(1), of _ a est budget w u now s]
    by (intro keyspace_ok_change [OF assms(1), of "ratelimit_key a"]) (auto simp: key_names_apart)
  with s' show ?thesis by blast
qed

lemma exact_put_succeeds:
  assumes "keyspace_ok s" and "0 < ttl" and "sane_tokens i j"
  shows "\<exists>s'. exact_put doc_redis ttl m h c i j s = (Inr (), s') \<and> keyspace_ok s'"
proof -
  let ?s = "snd (exact_put doc_redis ttl m h c i j s)"
  have "l1_ok ?s m' h'" if "l1_key m' h' = l1_key m h" for m' h'
    using assms(3) that decode_payload [of c i j] by (simp add: l1_ok_def exact_put_doc [OF assms(2)])
  then have "keyspace_ok ?s"
    using frames_keyD(1) [OF exact_frames(2), of _ m h ttl c i j s]
    by (intro keyspace_ok_change [OF assms(1), of "l1_key m h"]) (auto simp: key_names_apart)
  then show ?thesis by (simp add: exact_put_doc [OF assms(2)])
qed

lemma exact_get_succeeds:
  assumes "keyspace_ok s"
  shows "\<exists>hit. exact_get doc_redis m h s = (Inr hit, s) \<and>
    (\<forall>x. hit = Some x \<longrightarrow> sane_tokens (ch_tokens_in x) (ch_tokens_out x))"
proof -
  have "l1_ok s m h" using assms by (simp add: keyspace_ok_def)
  then show ?thesis
    by (auto simp: l1_ok_def exact_get_def doc_get_def bindE_def split: option.splits)
qed

section \<open>Steps that succeed\<close>

abbreviation succeeds :: "('s \<Rightarrow> bool) \<Rightarrow> ('s, 'a) act \<Rightarrow> ('a \<Rightarrow> 's \<Rightarrow> bool) \<Rightarrow> bool" where
  "succeeds P m Q \<equiv> ensures P m (\<lambda>x s. case x of Inl _ \<Rightarrow> False | Inr y \<Rightarrow> Q y s)"

lemma succeeds_bind: "succeeds P m R \<Longrightarrow> (\<And>y. succeeds (R y) (k y) Q) \<Longrightarrow> succeeds P (bindE m k) Q"
  by (rule ensures_bind [where R = R]) (auto elim: ensures_weaken split: sum.splits)

lemma succeeds_then: "succeeds P m (\<lambda>_. P) \<Longrightarrow> (\<And>y. succeeds P (k y) Q) \<Longrightarrow> succeeds P (bindE m k) Q"
  by (rule succeeds_bind)

lemma succeeds_return: "(\<And>s. P s \<Longrightarrow> Q x s) \<Longrightarrow> succeeds P (returnE x) Q"
  by (simp add: ensures_def)

lemma succeeds_given: "(c \<Longrightarrow> succeeds P m Q) \<Longrightarrow> succeeds (\<lambda>s. P s \<and> c) m Q"
  by (auto simp: ensures_def)

lemma succeeds_weaken: "succeeds P m Q \<Longrightarrow> (\<And>y s. Q y s \<Longrightarrow> R y s) \<Longrightarrow> succeeds P m R"
  by (erule ensures_weaken) (auto split: sum.splits)

lemma succeedsD: "succeeds P m Q \<Longrightarrow> P s \<Longrightarrow> \<exists>y s'. m s = (Inr y, s') \<and> Q y s'"
  by (cases "m s"; cases "fst (m s)") (auto simp: ensures_def)

text \<open>
  The state in which a request can be answered: a well-formed keyspace in which the breaker of the
  backend \<open>g\<close> is closed, the tables \<open>d\<close>, and no semantic tier that could raise.
\<close>

definition servable :: "('r, 's) services_scheme \<Rightarrow> bool \<Rightarrow> db \<Rightarrow> string \<Rightarrow> (keyspace, 'z) node_scheme \<Rightarrow> bool" where
  "servable S bypass d g w \<longleftrightarrow> keyspace_ok (nd_redis w) \<and> closed_for (nd_redis w) g \<and> nd_db w = d \<and>
     (bypass \<or> (if nd_embeddings_resolved w then nd_embeddings w = None
               else (\<forall>n \<ge> nd_ticks w. build_embeddings (sv_embedder S n) = None)))"

lemma servable_tick: "servable S bypass d g w \<Longrightarrow> servable S bypass d g (w\<lparr>nd_ticks := Suc (nd_ticks w)\<rparr>)"
  by (auto simp: servable_def)

lemma servable_gateway_upd [simp]:
  fixes w :: "(keyspace, 'z) orchestrator_state_scheme"
  shows "servable S bypass d g (w\<lparr>or_calls := c\<rparr>) = servable S bypass d g w"
    "servable S bypass d g (w\<lparr>or_metrics := m\<rparr>) = servable S bypass d g w"
    "servable S bypass d g (w\<lparr>or_semaphores := s\<rparr>) = servable S bypass d g w"
  by (simp_all add: servable_def)

lemma servable_reading:
  assumes "\<And>n. succeeds (servable S bypass d g) (k (source n)) Q"
  shows "succeeds (servable S bypass d g) (bindE (reading source) k) Q"
  by (rule ensuresI) (auto dest: ensuresD [OF assms servable_tick])

lemma servable_redis:
  fixes S :: "('r, 's) services_scheme"
  assumes "\<And>s. keyspace_ok s \<Longrightarrow> closed_for s g \<Longrightarrow>
    \<exists>y s'. m s = (Inr y, s') \<and> keyspace_ok s' \<and> closed_for s' g \<and> R y"
  shows "succeeds (servable S bypass d g) (redis_call (doc_services S) m)
    (\<lambda>y w. servable S bypass d g (w :: (keyspace, 'z) node_scheme) \<and> R y)"
proof (rule ensuresI)
  fix w w' :: "(keyspace, 'z) node_scheme" and x
  assume w: "servable S bypass d g w" and run: "redis_call (doc_services S) m w = (x, w')"
  let ?s = "keyspace_at (sv_server_clock S (nd_ticks w)) (nd_redis w)"
  have "keyspace_ok ?s" "closed_for ?s g"
    using w keyspace_ok_at closed_for_at by (auto simp: servable_def)
  from assms [OF this] obtain y s' where s': "m ?s = (Inr y, s')" "keyspace_ok s'" "closed_for s' g" "R y" by blast
  with run have "x = Inr y" "w' = w\<lparr>nd_ticks := Suc (nd_ticks w), nd_redis := s'\<rparr>" by (simp_all add: redis_call_doc)
  with w s' show "case x of Inl _ \<Rightarrow> False | Inr y \<Rightarrow> servable S bypass d g w' \<and> R y" by (auto simp: servable_def)
qed

lemma servable_redis_foreign:
  assumes "\<And>s. keyspace_ok s \<Longrightarrow> \<exists>y s'. m s = (Inr y, s') \<and> keyspace_ok s' \<and> R y"
    and "frames_key j m" and "\<And>b. j \<noteq> breaker_key b"
  shows "succeeds (servable S bypass d g) (redis_call (doc_services S) m) (\<lambda>y w. servable S bypass d g w \<and> R y)"
proof (rule servable_redis)
  fix s assume "keyspace_ok s" "closed_for s g"
  with assms(1) [of s] closed_for_frame [OF assms(2,3), of s _ _ g]
  show "\<exists>y s'. m s = (Inr y, s') \<and> keyspace_ok s' \<and> closed_for s' g \<and> R y" by fastforce
qed

lemma servable_foreign:
  assumes "\<And>s. keyspace_ok s \<Longrightarrow> \<exists>y s'. m s = (Inr y, s') \<and> keyspace_ok s'"
    and "frames_key j m" and "\<And>b. j \<noteq> breaker_key b"
  shows "succeeds (servable S bypass d g) (redis_call (doc_services S) m) (\<lambda>_. servable S bypass d g)"
  by (rule succeeds_weaken, rule servable_redis_foreign [OF _ assms(2,3), where R = "\<lambda>_. True"]) (use assms(1) in auto)

lemma check_breaker_ready:
  "succeeds (servable S bypass d g) (check_breaker (doc_services S) cb b)
     (\<lambda>y w. servable S bypass d g w \<and> (uuid_str (b_id b) = g \<longrightarrow> y))"
  unfolding check_breaker_def doc_services_sel
  by (rule servable_reading, rule servable_redis) (use allow_succeeds in metis)

lemma record_outcome_ready:
  assumes "ok \<or> uuid_str (b_id b) \<noteq> g"
  shows "succeeds (servable S bypass d g) (record_outcome (doc_services S) cb b ok) (\<lambda>_. servable S bypass d g)"
proof -
  have "succeeds (servable S bypass d g) (redis_call (doc_services S) (breaker_record doc_redis cb (uuid_str (b_id b)) ok now))
      (\<lambda>_. servable S bypass d g)" for now
    by (rule succeeds_weaken, rule servable_redis [where R = "\<lambda>_. True"]) (use record_succeeds assms in metis, simp)
  then show ?thesis
    unfolding record_outcome_def doc_services_sel
    by (intro servable_reading succeeds_then succeeds_return) simp_all
qed

lemma record_latency_ready:
  assumes "0 < lt_window_size lt"
  shows "succeeds (servable S bypass d g) (record_latency (doc_services S) lt b ms) (\<lambda>_. servable S bypass d g)"
  unfolding record_latency_def doc_services_sel
  by (rule servable_foreign [OF _ latency_frames(1)])
    (use latency_record_succeeds [OF _ assms] in \<open>auto simp: key_names_apart\<close>)

lemma reconcile_ready:
  assumes "\<bar>n\<bar> < 10 ^ 14"
  shows "succeeds (servable S bypass d g) (limiter_reconcile (doc_services S) k (uuid_str u) n) (\<lambda>_. servable S bypass d g)"
  unfolding limiter_reconcile_def doc_services_sel
  by (rule servable_reading, rule servable_foreign [OF _ limiter_frames(2)])
    (use reconcile_succeeds [OF _ assms] in \<open>auto simp: key_names_apart\<close>)

lemma embed_ready:
  assumes "\<not> bypass"
  shows "succeeds (servable S bypass d g) (semantic_embed (doc_services S) t) (\<lambda>y w. y = None \<and> servable S bypass d g w)"
proof (rule ensuresI)
  fix w x and w' :: "(keyspace, 'z) node_scheme"
  assume w: "servable S bypass d g w" and run: "semantic_embed (doc_services S) t w = (x, w')"
  show "case x of Inl _ \<Rightarrow> False | Inr y \<Rightarrow> y = None \<and> servable S bypass d g w'"
  proof (cases "nd_embeddings_resolved w")
    case True
    with w run assms show ?thesis by (auto simp: semantic_embed_def get_embeddings_resolved servable_def bindE_def)
  next
    case False
    with w run assms show ?thesis by (auto simp: semantic_embed_def get_embeddings_first servable_def bindE_def)
  qed
qed

lemma cache_put_ready:
  assumes "\<not> bypass" and "0 < tc_ttl_seconds tc" and "sane_tokens i j"
  shows "succeeds (servable S bypass d g) (cache_put (doc_services S) tc m h t c i j) (\<lambda>_. servable S bypass d g)"
proof -
  have put: "succeeds (servable S bypass d g) (redis_call (doc_services S) (exact_put doc_redis (tc_ttl_seconds tc) m h c i j))
      (\<lambda>_. servable S bypass d g)"
    by (rule servable_foreign [OF _ exact_frames(2)])
      (use exact_put_succeeds [OF _ assms(2,3)] in \<open>auto simp: key_names_apart\<close>)
  show ?thesis
    unfolding cache_put_def doc_services_sel
    by (rule succeeds_then [OF put], rule succeeds_bind [OF embed_ready [OF assms(1)]]) (auto intro: ensuresI)
qed

lemma lookup_ready:
  "succeeds (servable S bypass d g) (lookup (doc_services S) ro bypass m h t)
     (\<lambda>y w. servable S bypass d g w \<and> (\<forall>hit. y = Some hit \<longrightarrow> sane_tokens (ch_tokens_in hit) (ch_tokens_out hit)))"
proof (cases bypass)
  case True
  then show ?thesis by (auto simp: lookup_def intro: succeeds_return)
next
  case False
  have get: "succeeds (servable S bypass d g) (redis_call (doc_services S) (exact_get doc_redis m h))
      (\<lambda>y w. servable S bypass d g w \<and> (\<forall>hit. y = Some hit \<longrightarrow> sane_tokens (ch_tokens_in hit) (ch_tokens_out hit)))"
    by (rule servable_redis_foreign [OF _ exact_frames(1)]) (use exact_get_succeeds in \<open>fastforce simp: key_names_apart\<close>)+
  have "succeeds (\<lambda>w. servable S bypass d g w \<and> (\<forall>hit. y = Some hit \<longrightarrow> sane_tokens (ch_tokens_in hit) (ch_tokens_out hit)))
      (case y of Some h \<Rightarrow> returnE (Some h) | None \<Rightarrow> bindE (semantic_embed (doc_services S) t) (\<lambda>e. case e of
         None \<Rightarrow> returnE None | Some e \<Rightarrow> semantic_get (doc_services S) (tc_similarity_threshold (ro_cache ro)) m e))
      (\<lambda>y w. servable S bypass d g w \<and> (\<forall>hit. y = Some hit \<longrightarrow> sane_tokens (ch_tokens_in hit) (ch_tokens_out hit)))" for y
  proof (cases y)
    case None
    have "succeeds (servable S bypass d g) (bindE (semantic_embed (doc_services S) t) (\<lambda>e. case e of
         None \<Rightarrow> returnE None | Some e \<Rightarrow> semantic_get (doc_services S) (tc_similarity_threshold (ro_cache ro)) m e))
      (\<lambda>y w. servable S bypass d g w \<and> (\<forall>hit. y = Some hit \<longrightarrow> sane_tokens (ch_tokens_in hit) (ch_tokens_out hit)))"
      by (rule succeeds_bind [OF embed_ready [OF False]]) (auto intro: ensuresI)
    with None show ?thesis by simp
  qed (auto intro: succeeds_return)
  then show ?thesis
    unfolding lookup_def if_not_P [OF False] cache_get_def doc_services_sel by (rule succeeds_bind [OF get])
qed

section \<open>A healthy environment\<close>

text \<open>
  What the environment of a request has to provide: free slots, a clock that does not run away,
  the caller's key and the candidates in their tables, fresh identifiers, and model clients that
  raise exceptions only and report token counts that fit their columns.
\<close>

definition healthy ::
  "('r, 's) orchestrator_services_scheme \<Rightarrow> 'q RequestOrchestrator \<Rightarrow> ApiKey \<Rightarrow> string \<Rightarrow> ChatMessage list \<Rightarrow>
   (Backend \<times> live_client) list \<Rightarrow> db \<Rightarrow> bool" where
  "healthy S ro k model ms ps d \<longleftrightarrow>
     0 < ro_per_backend_concurrency ro \<and> 0 < lt_window_size (ro_latency_tracker ro) \<and> 0 < tc_ttl_seconds (ro_cache ro) \<and>
     (\<forall>n. gv_slot_granted S n) \<and> (\<forall>n n'. \<bar>sv_perf_counter S n - sv_perf_counter S n'\<bar> < 2000000) \<and>
     text_ok model \<and> ak_id k \<in> set (map akm_id (db_api_key d)) \<and>
     (\<forall>n. sv_uuid4 S n \<notin> set (map rlm_id (db_request_log d))) \<and>
     (\<forall>(b, c) \<in> set ps. b_id b \<in> set (map bm_id (db_backend d)) \<and>
        (\<forall>n t e. gv_complete S n c ms (b_model b) = (t, Inl e) \<longrightarrow> is_Exception e) \<and>
        (\<forall>n t a. gv_complete S n c ms (b_model b) = (t, Inr a) \<longrightarrow> sane_tokens (c_tokens_in a) (c_tokens_out a) \<and>
           numeric_ok 12 (request_cost b (c_tokens_in a) (c_tokens_out a))))"

text \<open>A candidate that always answers in time.\<close>

definition answering :: "('r, 's) orchestrator_services_scheme \<Rightarrow> 'q RequestOrchestrator \<Rightarrow> ChatMessage list \<Rightarrow>
    Backend \<times> live_client \<Rightarrow> bool" where
  "answering S ro ms pair \<longleftrightarrow> (\<forall>n. \<exists>t a. gv_complete S n (snd pair) ms (b_model (fst pair)) = (t, Inr a) \<and> t < ro_timeout ro)"

lemma int_trunc_bound: "\<bar>q\<bar> < 2000000000 \<Longrightarrow> int4_ok (int_trunc q)"
  by (auto simp: int_trunc_def int4_ok_def abs_less_iff split: if_splits)

lemma elapsed_ready:
  assumes "\<forall>n. \<bar>sv_perf_counter S n - start\<bar> < 2000000"
  shows "succeeds (servable S bypass d g) (elapsed_ms (doc_services S) start) (\<lambda>ms w. servable S bypass d g w \<and> int4_ok ms)"
  unfolding elapsed_ms_def doc_services_sel
proof (rule servable_reading, rule succeeds_return)
  fix n and w :: "(keyspace, 'z) node_scheme"
  assume "servable S bypass d g w"
  moreover have "\<bar>(sv_perf_counter S n - start) * 1000\<bar> < 2000000000"
    using assms [rule_format, of n] by (simp add: abs_less_iff)
  ultimately show "servable S bypass d g w \<and> int4_ok (int_trunc ((sv_perf_counter S n - start) * 1000))"
    by (simp add: int_trunc_bound)
qed

lemma log_request_ready:
  assumes "text_ok model" and "sane_tokens i j" and "numeric_ok 12 cost" and "int4_ok ms" and "int4_ok status"
    and "\<forall>t \<in> set_option reason. text_ok t" and "\<forall>t \<in> set_option tier. t \<in> {''l1'', ''l2''}"
    and "\<forall>n. sv_uuid4 S n \<notin> set (map rlm_id (db_request_log d))" and "ak_id k \<in> set (map akm_id (db_api_key d))"
    and "\<forall>b \<in> set_option bid. b \<in> set (map bm_id (db_backend d))"
  shows "succeeds (servable S bypass d g) (log_request (doc_services S) k model ms status bid tier i j cost reason) (\<lambda>_ _. True)"
proof -
  have "text_ok ''l1''" "text_ok ''l2''" by (simp_all add: text_ok_def)
  with assms(7) have tier: "\<forall>t \<in> set_option tier. text_ok t" by fastforce
  have row: "\<exists>d'. insert_request_log \<lparr>rlm_id = sv_uuid4 S n, rlm_api_key_id = ak_id k, rlm_backend_id = bid,
      rlm_cache_tier = tier, rlm_model = model, rlm_tokens_in = i, rlm_tokens_out = j, rlm_cost = cost,
      rlm_latency_ms = ms, rlm_status = status, rlm_finish_reason = reason, rlm_ts = ts\<rparr> d = (Inr (), d')" for n ts
    using assms tier by (simp add: insert_request_log_def sane_tokens_def)
  have ins: "\<exists>y d'. request_log_insert (sv_uuid4 S n) ts (ak_id k) model ms status bid tier i j cost reason d = (Inr y, d')" for n ts
    using row [of n ts] by (auto simp: request_log_insert_def)
  show ?thesis
    unfolding log_request_def doc_services_sel
  proof (rule servable_reading, rule servable_reading, rule ensuresI)
    fix n m x and w w' :: "(keyspace, 'z) node_scheme"
    assume w: "servable S bypass d g w" and run: "bindE (on_db (request_log_insert (sv_uuid4 S n) (sv_db_now S m) (ak_id k) model ms status
        bid tier i j cost reason)) (\<lambda>_. returnE ()) w = (x, w')"
    obtain y d' where "request_log_insert (sv_uuid4 S n) (sv_db_now S m) (ak_id k) model ms status bid tier i j cost reason d = (Inr y, d')"
      using ins by blast
    with w run show "case x of Inl _ \<Rightarrow> False | Inr _ \<Rightarrow> True" by (auto simp: servable_def on_db_def bindE_def)
  qed
qed

lemma emit_ready: "succeeds P (k ()) Q \<Longrightarrow> (\<And>w m. P w \<Longrightarrow> P (w\<lparr>or_metrics := m\<rparr>)) \<Longrightarrow> succeeds P (bindE (emit ro x) k) Q"
  by (rule ensuresI) (auto simp: emit_def dest: ensuresD split: if_splits)

lemma slot_ready:
  assumes "0 < limit" and "\<forall>n. gv_slot_granted S n" and body: "ensures P body Q"
    and P: "\<And>w s. P w \<Longrightarrow> P (w\<lparr>or_semaphores := s\<rparr>)" "\<And>w. P w \<Longrightarrow> P (w\<lparr>nd_ticks := Suc (nd_ticks w)\<rparr>)"
    and Q: "\<And>x w s. Q x w \<Longrightarrow> Q x (w\<lparr>or_semaphores := s\<rparr>)"
  shows "ensures P (under_semaphore S limit u body) Q"
  unfolding under_semaphore_def
proof (rule ensures_bind [where R = "\<lambda>_. P"])
  show "ensures P (semaphore_for limit u) (\<lambda>x s. case x of Inl e \<Rightarrow> Q (Inl e) s | Inr y \<Rightarrow> P s)"
    using assms(1) P(1) by (intro ensuresI) (auto simp: semaphore_for_def split: option.splits if_splits)
  show "ensures P (bindE (acquire S limit u) (\<lambda>_. finallyE body (release u))) Q"
  proof (rule ensures_bind [where R = "\<lambda>_. P"])
    show "ensures P (acquire S limit u) (\<lambda>x s. case x of Inl e \<Rightarrow> Q (Inl e) s | Inr y \<Rightarrow> P s)"
      using assms(1,2) P by (intro ensuresI) (auto simp: acquire_def set_slots_def split: if_splits)
    show "ensures P (finallyE body (release u)) Q"
    proof (rule ensuresI)
      fix w x w' assume w: "P w" and run: "finallyE body (release u) w = (x, w')"
      obtain y w1 where y: "body w = (y, w1)" by fastforce
      from ensuresD [OF body w y] run y show "Q x w'"
        by (auto simp: finallyE_def release_def set_slots_def bindE_def intro: Q split: if_splits)
    qed
  qed
qed

text \<open>The outcome of a call to a candidate of a healthy environment.\<close>

definition good_outcome ::
  "('r, 's) orchestrator_services_scheme \<Rightarrow> 'q RequestOrchestrator \<Rightarrow> ChatMessage list \<Rightarrow> Backend \<times> live_client \<Rightarrow>
   exn + Completion \<Rightarrow> bool" where
  "good_outcome S ro ms pair out \<longleftrightarrow>
     (case out of
        Inl e \<Rightarrow> is_Exception e \<and> \<not> answering S ro ms pair
      | Inr a \<Rightarrow> sane_tokens (c_tokens_in a) (c_tokens_out a) \<and>
          numeric_ok 12 (request_cost (fst pair) (c_tokens_in a) (c_tokens_out a)))"

lemma call_ready:
  assumes "healthy S ro k model ms ps d" and "(b, c) \<in> set ps"
  shows "succeeds (servable S bypass d g)
    (tryE (under_semaphore (doc_services S) (ro_per_backend_concurrency ro) (b_id b)
       (call_complete (doc_services S) (ro_timeout ro) ms b c)))
    (\<lambda>out w. servable S bypass d g (w :: (keyspace, 'z) orchestrator_state_scheme) \<and> good_outcome S ro ms (b, c) out)"
proof (rule ensures_try, rule slot_ready)
  have exc: "is_Exception e" if "gv_complete S n c ms (b_model b) = (t, Inl e)" for n t e
    using assms that unfolding healthy_def by blast
  have sane: "sane_tokens (c_tokens_in a) (c_tokens_out a) \<and> numeric_ok 12 (request_cost b (c_tokens_in a) (c_tokens_out a))"
    if "gv_complete S n c ms (b_model b) = (t, Inr a)" for n t a
    using assms that unfolding healthy_def by blast
  show "ensures (servable S bypass d g) (call_complete (doc_services S) (ro_timeout ro) ms b c)
    (\<lambda>x w. case x of Inl e \<Rightarrow> if is_Exception e then case Inr (Inl e) of Inl _ \<Rightarrow> False
         | Inr out \<Rightarrow> servable S bypass d g (w :: (keyspace, 'z) orchestrator_state_scheme) \<and> good_outcome S ro ms (b, c) out
       else case Inl e of Inl _ \<Rightarrow> False | Inr out \<Rightarrow> servable S bypass d g w \<and> good_outcome S ro ms (b, c) out
     | Inr y \<Rightarrow> case Inr (Inr y) of Inl _ \<Rightarrow> False | Inr out \<Rightarrow> servable S bypass d g w \<and> good_outcome S ro ms (b, c) out)"
  proof (rule ensuresI)
    fix w x and w' :: "(keyspace, 'z) orchestrator_state_scheme"
    assume w: "servable S bypass d g w" and run: "call_complete (doc_services S) (ro_timeout ro) ms b c w = (x, w')"
    obtain t out where out: "gv_complete S (nd_ticks w) c ms (b_model b) = (t, out)" by fastforce
    have w': "servable S bypass d g w'"
      using servable_tick [of S bypass d g "w\<lparr>or_calls := or_calls w @ [b_id b]\<rparr>"] w run out
      by (auto simp: call_complete_def note_call_def split: if_splits)
    have x: "x = (if t < ro_timeout ro then out else Inl TimeoutError)"
      using run out by (auto simp: call_complete_def note_call_def split: if_splits)
    have "\<not> answering S ro ms (b, c)" if "x = Inl e" for e
      using x out that by (auto simp: answering_def split: if_splits) (metis Inl_Inr_False prod.inject)+
    then have "good_outcome S ro ms (b, c) x"
      using x out exc [of "nd_ticks w" t] sane [of "nd_ticks w" t]
      by (cases x) (auto simp: good_outcome_def is_Exception_def [of TimeoutError] split: if_splits)
    with w' show "case x of Inl e \<Rightarrow> if is_Exception e then case Inr (Inl e) of Inl _ \<Rightarrow> False
         | Inr out \<Rightarrow> servable S bypass d g w' \<and> good_outcome S ro ms (b, c) out
       else case Inl e of Inl _ \<Rightarrow> False | Inr out \<Rightarrow> servable S bypass d g w' \<and> good_outcome S ro ms (b, c) out
     | Inr y \<Rightarrow> case Inr (Inr y) of Inl _ \<Rightarrow> False | Inr out \<Rightarrow> servable S bypass d g w' \<and> good_outcome S ro ms (b, c) out"
      by (cases x) (auto simp: good_outcome_def)
  qed
qed (use assms(1) in \<open>auto simp: healthy_def intro: servable_tick split: sum.splits if_splits\<close>)

lemma complete_success_ready:
  assumes "healthy S ro k model ms ps d" and "(b, c) \<in> set ps" and "good_outcome S ro ms (b, c) (Inr completion)"
    and "\<exists>n. start = sv_perf_counter S n"
  shows "succeeds (servable S bypass d g)
    (complete_success (doc_services S) ro k model h t bypass start (uuid_str u) b completion)
    (\<lambda>r (w :: (keyspace, 'z) orchestrator_state_scheme). True)"
proof -
  let ?i = "c_tokens_in completion" and ?j = "c_tokens_out completion"
  let ?J = "servable S bypass d g :: (keyspace, 'z) orchestrator_state_scheme \<Rightarrow> bool"
  have sane: "sane_tokens ?i ?j" "numeric_ok 12 (request_cost b ?i ?j)" using assms(3) by (auto simp: good_outcome_def)
  note env = assms(1) [unfolded healthy_def]
  have clock: "\<forall>n. \<bar>sv_perf_counter S n - start\<bar> < 2000000" using env assms(4) by auto
  have put: "succeeds ?J (if bypass then returnE ()
      else cache_put (doc_services S) (ro_cache ro) model h t (c_content completion) ?i ?j) (\<lambda>_. ?J)"
    using cache_put_ready [of bypass "ro_cache ro" ?i ?j] env sane(1) by (auto intro: succeeds_return)
  have log: "succeeds ?J (log_request (doc_services S) k model ms' 200 (Some (b_id b)) None ?i ?j
      (request_cost b ?i ?j) (Some ''stop'')) (\<lambda>_ _. True)" if "int4_ok ms'" for ms'
    by (rule log_request_ready) (use env sane assms(2) that in \<open>auto simp: text_ok_def int4_ok_def\<close>)
  show ?thesis
    unfolding complete_success_def
    by (rule succeeds_bind [OF elapsed_ready [OF clock]], rule succeeds_given,
        rule succeeds_then [OF record_outcome_ready], simp, rule succeeds_then [OF record_latency_ready], use env in simp,
        rule succeeds_then [OF put], rule succeeds_then [OF reconcile_ready [OF sane_tokens_small [OF sane(1)]]],
        rule succeeds_bind [OF log], assumption, intro emit_ready succeeds_return) simp_all
qed

section \<open>The walk finds the healthy candidate\<close>

lemma build_policy_ready:
  assumes "keyspace_ok s" and "cs \<noteq> []"
  shows "\<exists>b \<in> set cs. build_policy doc_redis name cs f s = (Inr b, s)"
proof (cases "name = ''cost''")
  case True
  with cost.select_member [OF TrueI assms(2), of "1 / 2" f s] build_policy_reads [of name cs f s] show ?thesis
    by (auto simp: build_policy_def)
next
  case False
  have "all_latency_ok s" using assms(1) by (simp add: keyspace_ok_def)
  from latency_select_doc [OF this assms(2), of f] False show ?thesis by (auto simp: build_policy_def)
qed

lemma select_ready:
  assumes "rem \<noteq> []"
  shows "succeeds (servable S bypass d g) (select_candidate (doc_services S) (build_policy doc_redis name) f rem)
    (\<lambda>y w. servable S bypass d g w)"
proof -
  have sel: "succeeds (servable S bypass d g) (redis_call (doc_services S) (build_policy doc_redis name (map fst rem) f))
      (\<lambda>b w. servable S bypass d g w \<and> b \<in> set (map fst rem))"
    by (rule servable_redis) (use build_policy_ready [of _ "map fst rem" name f] assms in fastforce)
  have found: "\<exists>pair. find (\<lambda>pair. b_id (fst pair) = b_id b) rem = Some pair" if "b \<in> set (map fst rem)" for b
  proof -
    from that obtain pair where "pair \<in> set rem" "b = fst pair" by auto
    then show ?thesis using find_ex [of pair rem "\<lambda>pair. b_id (fst pair) = b_id b"] by blast
  qed
  show ?thesis
    unfolding select_candidate_def
    by (rule succeeds_bind [OF sel], rule succeeds_given, drule found) (auto intro: succeeds_return)
qed

lemma complete_body_ready:
  assumes env: "healthy S ro k model ms ps d" and pair: "(b, c) \<in> set ps" and start: "\<exists>n. start = sv_perf_counter S n"
    and same: "uuid_str (b_id b) = g \<Longrightarrow> answering S ro ms (b, c)"
  shows "succeeds (servable S bypass d g)
    (complete_body (doc_services S) ro k model ms h t bypass start (uuid_str u) (b, c) le)
    (\<lambda>y (w :: (keyspace, 'z) orchestrator_state_scheme).
       case y of Inl _ \<Rightarrow> servable S bypass d g w \<and> uuid_str (b_id b) \<noteq> g | Inr _ \<Rightarrow> True)"
proof -
  let ?J = "servable S bypass d g :: (keyspace, 'z) orchestrator_state_scheme \<Rightarrow> bool"
  let ?Q = "\<lambda>y w. case y of Inl _ \<Rightarrow> ?J w \<and> uuid_str (b_id b) \<noteq> g | Inr _ \<Rightarrow> True"
  have after: "succeeds ?J (complete_outcome (doc_services S) ro k model h t bypass start (uuid_str u) b out) ?Q"
    if good: "good_outcome S ro ms (b, c) out" for out
  proof (cases out)
    case (Inl e)
    with good same have other: "uuid_str (b_id b) \<noteq> g" by (auto simp: good_outcome_def)
    show ?thesis
      unfolding complete_outcome_def Inl sum.case
      by (rule succeeds_then [OF record_outcome_ready], use other in simp, rule emit_ready, rule succeeds_return)
        (use other in simp_all)
  next
    case (Inr a)
    have "succeeds ?J (complete_success (doc_services S) ro k model h t bypass start (uuid_str u) b a) (\<lambda>_ _. True)"
      by (rule complete_success_ready [OF env pair _ start]) (use good Inr in simp)
    then show ?thesis
      unfolding complete_outcome_def Inr sum.case by (rule succeeds_bind) (auto intro: succeeds_return)
  qed
  have call: "succeeds (\<lambda>w. ?J w \<and> allowed) (bindE (tryE (under_semaphore (doc_services S) (ro_per_backend_concurrency ro) (b_id b)
        (call_complete (doc_services S) (ro_timeout ro) ms b c)))
        (complete_outcome (doc_services S) ro k model h t bypass start (uuid_str u) b)) ?Q" for allowed
    by (rule succeeds_given, rule succeeds_bind [OF call_ready [OF env pair]], rule succeeds_given, rule after)
  show ?thesis
    unfolding complete_body_def Let_def prod.case
  proof (rule succeeds_bind [OF check_breaker_ready], rule ensures_if)
    show "succeeds (\<lambda>w. ?J w \<and> (uuid_str (b_id b) = g \<longrightarrow> y)) (returnE (Inl le)) ?Q" if "\<not> y" for y
      by (rule succeeds_return) (use that in auto)
  qed (rule call)
qed

lemma failover_ready:
  fixes S :: "('r, 's) orchestrator_services_scheme"
  assumes env: "healthy S ro k model ms ps d" and start: "\<exists>n. start = sv_perf_counter S n"
    and good: "\<forall>pair \<in> set ps. uuid_str (b_id (fst pair)) = g \<longrightarrow> answering S ro ms pair"
  shows "set rem \<subseteq> set ps \<Longrightarrow> \<exists>pair \<in> set rem. uuid_str (b_id (fst pair)) = g \<Longrightarrow>
    succeeds (servable S bypass d g) (failover (doc_services S) (build_policy doc_redis name) f
      (complete_body (doc_services S) ro k model ms h t bypass start (uuid_str u)) rem le)
      (\<lambda>y (w :: (keyspace, 'z) orchestrator_state_scheme). \<exists>r. y = Inr r)"
proof (induction "length rem" arbitrary: rem le rule: less_induct)
  case less
  let ?J = "servable S bypass d g :: (keyspace, 'z) orchestrator_state_scheme \<Rightarrow> bool"
  let ?body = "complete_body (doc_services S) ro k model ms h t bypass start (uuid_str u)"
  let ?go = "failover (doc_services S) (build_policy doc_redis name) f ?body"
  have nonempty: "rem \<noteq> []" using less.prems(2) by auto
  show ?case
  proof (rule ensuresI)
    fix w x w' assume w: "?J w" and run: "?go rem le w = (x, w')"
    obtain pair rest w1 where sel: "select_candidate (doc_services S) (build_policy doc_redis name) f rem w = (Inr (pair, rest), w1)"
      and w1: "?J w1" using succeedsD [OF select_ready [OF nonempty, of S bypass d g name f] w] by auto
    note picked = select_candidate_result [OF sel]
    obtain b c where pair: "pair = (b, c)" by (cases pair)
    have member: "(b, c) \<in> set ps" using picked(1) less.prems(1) pair by auto
    have "succeeds ?J (?body (b, c) le) (\<lambda>y w. case y of Inl _ \<Rightarrow> ?J w \<and> uuid_str (b_id b) \<noteq> g | Inr _ \<Rightarrow> True)"
      by (rule complete_body_ready [OF env member start]) (use good member in auto)
    from succeedsD [OF this w1] obtain y w2 where body: "?body pair le w1 = (Inr y, w2)"
      and y: "case y of Inl _ \<Rightarrow> ?J w2 \<and> uuid_str (b_id b) \<noteq> g | Inr _ \<Rightarrow> True" using pair by auto
    show "case x of Inl _ \<Rightarrow> False | Inr y \<Rightarrow> \<exists>r. y = Inr r"
    proof (cases y)
      case (Inl le')
      with y have w2: "?J w2" and other: "uuid_str (b_id b) \<noteq> g" by simp_all
      have go: "?go rest le' w2 = (x, w')" using run sel body Inl nonempty by (simp add: failover.simps [of _ _ _ _ rem])
      obtain q where "q \<in> set rem" "uuid_str (b_id (fst q)) = g" using less.prems(2) by blast
      then have "\<exists>q \<in> set rest. uuid_str (b_id (fst q)) = g" using picked(2) other pair by (intro bexI [of _ q]) auto
      moreover have "set rest \<subseteq> set ps" using less.prems(1) picked(2) by auto
      ultimately have "succeeds ?J (?go rest le') (\<lambda>y _. \<exists>r. y = Inr r)"
        by (intro less.hyps [OF select_candidate_shrinks [OF sel]])
      from ensuresD [OF this w2 go] show ?thesis .
    next
      case (Inr r)
      then have "x = Inr (Inr r)" using run sel body nonempty by (simp add: failover.simps [of _ _ _ _ rem])
      then show ?thesis by simp
    qed
  qed
qed

section \<open>A healthy request is answered\<close>

lemma serve_hit_ready:
  assumes "healthy S ro k model ms ps d" and "sane_tokens (ch_tokens_in hit) (ch_tokens_out hit)"
    and "\<exists>n. start = sv_perf_counter S n"
  shows "succeeds (servable S bypass d g) (serve_hit (doc_services S) ro k model start (uuid_str u) hit)
    (\<lambda>_ (w :: (keyspace, 'z) orchestrator_state_scheme). True)"
proof -
  let ?J = "servable S bypass d g :: (keyspace, 'z) orchestrator_state_scheme \<Rightarrow> bool"
  note env = assms(1) [unfolded healthy_def]
  have clock: "\<forall>n. \<bar>sv_perf_counter S n - start\<bar> < 2000000" using env assms(3) by auto
  have tier: "cache_tier_value (ch_tier hit) \<in> {''l1'', ''l2''}" and free: "numeric_ok 12 0"
    by (cases "ch_tier hit") (simp_all add: numeric_ok_def numeric6_def)
  have log: "succeeds ?J (log_request (doc_services S) k model ms' 200 None (Some (cache_tier_value (ch_tier hit)))
      (ch_tokens_in hit) (ch_tokens_out hit) 0 None) (\<lambda>_ _. True)" if "int4_ok ms'" for ms'
    by (rule log_request_ready) (use env assms(2) that tier free in \<open>auto simp: int4_ok_def\<close>)
  have "succeeds (\<lambda>_ :: (keyspace, 'z) orchestrator_state_scheme. True) (emit ro x) (\<lambda>_ _. True)" for x
    by (rule ensuresI) (auto simp: emit_def split: if_splits)
  then show ?thesis
    unfolding serve_hit_def
    by (intro succeeds_then [OF reconcile_ready [OF sane_tokens_small [OF assms(2)]]] succeeds_bind [OF elapsed_ready [OF clock]]
        succeeds_given succeeds_bind [OF log])
qed

text \<open>The budget of a key leaves room for a request whose reservation id is fresh.\<close>

definition budget_left :: "('r, 's) services_scheme \<Rightarrow> ApiKey \<Rightarrow> int \<Rightarrow> keyspace \<Rightarrow> bool" where
  "budget_left S k est s \<longleftrightarrow>
     (let L = limiter_log s (uuid_str (ak_id k)) in
      0 < ak_window_seconds k \<and> est < 10 ^ 14 \<and> (\<forall>n. uuid_str (sv_uuid4 S n) \<notin> reservations L) \<and>
      (\<forall>e \<in># L. 0 \<le> snd (snd e)) \<and> used L + est \<le> ak_token_budget k)"

lemma reserve_ready:
  assumes w: "servable S bypass d g w" and left: "budget_left S k est (nd_redis w)" and "0 \<le> est"
  shows "\<exists>u w'. limiter_reserve (doc_services S) k est w = (Inr (Some (uuid_str u)), w') \<and> servable S bypass d g w'"
proof -
  let ?w = "w\<lparr>nd_ticks := Suc (Suc (nd_ticks w))\<rparr>" and ?a = "uuid_str (ak_id k)"
  let ?u = "sv_uuid4 S (nd_ticks w)" and ?now = "sv_time S (Suc (nd_ticks w))"
  let ?s = "keyspace_at (sv_server_clock S (nd_ticks ?w)) (nd_redis w)"
  let ?m = "reserve doc_redis ?a est (ak_token_budget k) (ak_window_seconds k) ?u ?now"
  have ok: "keyspace_ok (nd_redis w)" "closed_for (nd_redis w) g" using w by (simp_all add: servable_def)
  have "limiter_ok (nd_redis w) ?a" using ok(1) by (simp add: keyspace_ok_def)
  from clock_limiter [OF this] have L: "limiter_log ?s ?a \<in> {limiter_log (nd_redis w) ?a, {#}}" by (simp add: keyspace_at_def)
  have *: "0 < ak_window_seconds k" "\<bar>est\<bar> < 10 ^ 14" "uuid_str ?u \<notin> reservations (limiter_log ?s ?a)"
    "\<forall>e \<in># limiter_log ?s ?a. 0 \<le> snd (snd e)" "used (limiter_log ?s ?a) + est \<le> ak_token_budget k"
    using L left assms(3) used_filter_le [of "limiter_log (nd_redis w) ?a" "\<lambda>_. False"]
    by (auto simp: budget_left_def Let_def)
  from reserve_succeeds [OF keyspace_ok_at [OF ok(1)] *] obtain s' where
    s': "?m ?s = (Inr (Some (uuid_str ?u)), s')" "keyspace_ok s'" by blast
  have "closed_for s' g"
    using closed_for_frame [OF limiter_frames(1) _ s'(1)] closed_for_at [OF ok(1)] ok(2) by (simp add: key_names_apart)
  moreover have "limiter_reserve (doc_services S) k est w =
      (Inr (Some (uuid_str ?u)), w\<lparr>nd_ticks := Suc (nd_ticks ?w), nd_redis := s'\<rparr>)"
    using s'(1) by (simp add: limiter_reserve_def redis_call_doc bindE_def)
  ultimately show ?thesis using w s'(2) by (auto simp: servable_def)
qed

lemma handle_complete_ready:
  fixes w :: "(keyspace, 'z) orchestrator_state_scheme" and S :: "('r, 's) orchestrator_services_scheme"
  assumes env: "healthy S ro k model ms ps d" and w: "servable S bypass d (uuid_str g) w"
    and left: "budget_left S k (estimate_tokens ms) (nd_redis w)" and cands: "candidates model w = (Inr ps, w)"
    and policy: "ro_policy ro = build_policy doc_redis name" and mem: "g \<in> set (ids ps)"
    and good: "\<forall>pair \<in> set ps. b_id (fst pair) = g \<longrightarrow> answering S ro ms pair"
  shows "\<exists>r w'. handle_complete (doc_services S) ro k model ms bypass w = (Inr r, w')"
proof -
  let ?S = "doc_services S" and ?h = "prompt_hash (sv_sha256_hex S) model ms"
  let ?J = "servable S bypass d (uuid_str g) :: (keyspace, 'z) orchestrator_state_scheme \<Rightarrow> bool"
  let ?w = "w\<lparr>nd_ticks := Suc (nd_ticks w)\<rparr>" and ?start = "sv_perf_counter S (nd_ticks w)"
  have est: "0 \<le> estimate_tokens ms" by (simp add: estimate_tokens_def)
  have "?J ?w" "budget_left S k (estimate_tokens ms) (nd_redis ?w)" using servable_tick [OF w] left by simp_all
  from reserve_ready [OF this est] obtain u w1 where
    w1: "limiter_reserve ?S k (estimate_tokens ms) ?w = (Inr (Some (uuid_str u)), w1)" "?J w1" by blast
  from succeedsD [OF lookup_ready w1(2)] obtain y w2 where
    w2: "lookup ?S ro bypass model ?h (prompt_text ms) w1 = (Inr y, w2)" "?J w2"
      "\<forall>hit. y = Some hit \<longrightarrow> sane_tokens (ch_tokens_in hit) (ch_tokens_out hit)" by blast
  have more: "node.more w2 = node.more w"
    using keepsD [OF node_steps_keep_more(2) w1(1)] keepsD [OF node_steps_keep_more(8) w2(1)] by simp
  have cands2: "candidates model w2 = (Inr ps, w2)"
    using cands more_determines(5,6) [OF more] by (simp add: candidates_def)
  show ?thesis
  proof (cases y)
    case (Some hit)
    with w2(3) succeedsD [OF serve_hit_ready [OF env] w2(2), of hit ?start u] obtain w3 where
      "serve_hit ?S ro k model ?start (uuid_str u) hit w2 = (Inr (), w3)" by auto
    with w1(1) w2(1) Some show ?thesis by (simp add: handle_complete_def)
  next
    case None
    have "succeeds ?J (failover ?S (ro_policy ro) (request_features model ms)
        (complete_body ?S ro k model ms ?h (prompt_text ms) bypass ?start (uuid_str u)) ps None) (\<lambda>y _. \<exists>r. y = Inr r)"
      unfolding policy by (rule failover_ready [OF env]) (use good mem in auto)
    from succeedsD [OF this w2(2)] obtain r w3 where
      walk: "failover ?S (ro_policy ro) (request_features model ms)
        (complete_body ?S ro k model ms ?h (prompt_text ms) bypass ?start (uuid_str u)) ps None w2 = (Inr (Inr r), w3)" by blast
    have "ps \<noteq> []" using mem by auto
    with w1(1) w2(1) None cands2 walk show ?thesis by (simp add: handle_complete_def complete_walk_def)
  qed
qed


text \<open>A gateway with one backend, one key and a steady clock, without an embedding model.\<close>

definition steady_world :: "keyspace orchestrator_services" where
  "steady_world = (example_world doc_redis)\<lparr>sv_perf_counter := \<lambda>_. 0, sv_server_clock := \<lambda>_. 0,
     sv_embedder := \<lambda>_. Inl (RuntimeError ''no model'')\<rparr>"

definition steady_state :: "keyspace orchestrator_state" where
  "steady_state = (example_state empty_keyspace)\<lparr>nd_db := empty_db\<lparr>db_backend := [example_row 1 ''a'' ''ollama'' 10],
     db_api_key := [\<lparr>akm_id = 5, akm_key_hash = ''h'', akm_name = ''k'', akm_token_budget = 1000,
       akm_window_seconds = 60, akm_enabled = True, akm_created_at = 0\<rparr>]\<rparr>\<rparr>"

abbreviation steady_orchestrator :: "keyspace RequestOrchestrator" where
  "steady_orchestrator \<equiv> build_orchestrator doc_redis (default_settings ''adm'')"

abbreviation steady_candidates :: "(Backend \<times> live_client) list" where
  "steady_candidates \<equiv> [(example_backend 1 ''a'' 10 1, (0, OllamaClient ''http://x'' ''m'' ''a''))]"

lemma steady_world_sel [simp]:
  "sv_redis steady_world = doc_redis" "sv_perf_counter steady_world n = 0" "sv_server_clock steady_world n = 0"
  "sv_embedder steady_world n = Inl (RuntimeError ''no model'')" "gv_slot_granted steady_world n"
  "gv_complete steady_world n c ms m = (1, Inr \<lparr>c_content = ''hello'', c_tokens_in = 3, c_tokens_out = 5\<rparr>)"
  by (simp_all add: steady_world_def example_calls_on_def example_services_on_def)

lemma steady_state_sel [simp]:
  "nd_redis steady_state = empty_keyspace" "nd_embeddings_resolved steady_state = False"
  "candidates ''m'' steady_state = (Inr steady_candidates, steady_state)"
  by (simp_all add: steady_state_def example_state_def example_gateway_on_def example_node_on_def candidates_def
      at_model_def example_backend_def)

lemma steady_healthy: "healthy steady_world steady_orchestrator example_key ''m'' example_messages steady_candidates (nd_db steady_state)"
  by (simp add: healthy_def steady_state_def build_orchestrator_def default_settings_def text_ok_def example_key_def empty_db_def
      example_row_def example_backend_def sane_tokens_def int4_ok_def numeric_ok_def numeric6_def request_cost_def)

lemma steady_servable: "servable steady_world False (nd_db steady_state) (uuid_str 1) steady_state"
proof -
  have "closed_for empty_keyspace (uuid_str 1)"
    by (simp add: breaker_abs_def breaker_hash_def hash_phase_def empty_keyspace_def)
  then show ?thesis by (simp add: servable_def keyspace_ok_empty build_embeddings_def)
qed

lemma steady_budget: "budget_left steady_world example_key (estimate_tokens example_messages) empty_keyspace"
  by (simp add: budget_left_def example_key_def estimate_tokens_def total_chars_def example_messages_def)

lemma steady_answers:
  "\<forall>pair \<in> set steady_candidates. b_id (fst pair) = 1 \<longrightarrow> answering steady_world steady_orchestrator example_messages pair"
  "1 \<in> set (ids steady_candidates)"
  by (simp_all add: answering_def build_orchestrator_def default_settings_def example_backend_def)


section \<open>A repeated request is served from the exact cache\<close>


text \<open>With an exact cache that holds nothing, an answer comes from a backend.\<close>

lemma cold_lookup:
  assumes "servable S False d g w" and "ks_data (nd_redis w) (l1_key m h) = None"
  shows "\<exists>w'. lookup (doc_services S) ro False m h t w = (Inr None, w')"
proof -
  let ?w = "w\<lparr>nd_ticks := Suc (nd_ticks w), nd_redis := keyspace_at (sv_server_clock S (nd_ticks w)) (nd_redis w)\<rparr>"
  have get: "redis_call (doc_services S) (exact_get doc_redis m h) w = (Inr None, ?w)"
    using assms(2) by (simp add: redis_call_doc exact_get_def doc_get_def keyspace_at_data bindE_def)
  have "servable S False d g ?w"
    using assms(1) keyspace_ok_at closed_for_at by (auto simp: servable_def)
  from succeedsD [OF embed_ready this, of t] obtain w' where "semantic_embed (doc_services S) t ?w = (Inr None, w')" by auto
  with get show ?thesis by (simp add: lookup_def cache_get_def)
qed

lemma cold_answer:
  fixes w :: "(keyspace, 'z) orchestrator_state_scheme" and S :: "('r, 's) orchestrator_services_scheme"
  assumes "servable S False d g w" and "budget_left S k (estimate_tokens ms) (nd_redis w)"
    and cold: "\<And>m h. ks_data (nd_redis w) (l1_key m h) = None"
    and run: "handle_complete (doc_services S) ro k model ms False w = (Inr r, w')"
  shows "cr_cache_tier r = None"
proof -
  let ?S = "doc_services S" and ?h = "prompt_hash (sv_sha256_hex S) model ms"
  let ?w = "w\<lparr>nd_ticks := Suc (nd_ticks w)\<rparr>"
  have "servable S False d g ?w" "budget_left S k (estimate_tokens ms) (nd_redis ?w)" "0 \<le> estimate_tokens ms"
    using servable_tick [OF assms(1)] assms(2) by (simp_all add: estimate_tokens_def)
  from reserve_ready [OF this] obtain u w1 where
    w1: "limiter_reserve ?S k (estimate_tokens ms) ?w = (Inr (Some (uuid_str u)), w1)" "servable S False d g w1" by blast
  have "cache_untouched (\<lambda>_. None) (cache_rows w) ?w" using cold by (simp add: cache_untouched_def l1_as_before_def cache_rows_def)
  from ensuresD [OF untouched.other_components(2) this w1(1)] have "ks_data (nd_redis w1) (l1_key model ?h) = None"
    by (auto simp: cache_untouched_def l1_as_before_def)
  from cold_lookup [OF w1(2) this] obtain w2 where
    "lookup ?S ro False model ?h (prompt_text ms) w1 = (Inr None, w2)" by blast
  with run w1(1) obtain ps w3 where "complete_walk ?S ro k model ms False (sv_perf_counter S (nd_ticks w)) (uuid_str u) ps w3 = (Inr r, w')"
    by (auto simp: handle_complete_def bindE_eq_Inr split: if_splits)
  from complete_walk_calls [OF this] show ?thesis by (auto simp: completion_result_def)
qed


end
