(* ===== verification/Migrations.thy ===== *)
theory Migrations
  imports Persistence
begin

text \<open>
  The schema, \<^verbatim>\<open>persistence/migrations/versions/0001_baseline.py\<close>: the two scripts as text, the loop
  that cuts them into statements and executes them, and the environment \<^verbatim>\<open>persistence/migrations/env.py\<close>
  that runs it. The database is the parameter \<open>execute\<close>. What the statements of the scripts mean is
  documented by PostgreSQL: \<open>parse_ddl\<close> reads them, \<open>exec_ddl\<close> is their effect on a catalog of tables,
  and the locale \<open>ddl_service\<close> relates a server to it. The mapped classes of
  \<^verbatim>\<open>persistence/models.py\<close> are compared with the tables the migration creates.
\<close>

section \<open>The scripts\<close>

definition newline :: string where
  "newline = [CHR 0x0A]"

definition DDL :: string where
  "DDL = join newline
     ['''',
      ''CREATE EXTENSION IF NOT EXISTS vector;'',
      '''',
      ''CREATE TABLE api_key ('',
      ''  id                 uuid PRIMARY KEY DEFAULT gen_random_uuid(),'',
      ''  key_hash           char(64) NOT NULL UNIQUE,'',
      ''  name               text NOT NULL,'',
      ''  token_budget       integer NOT NULL CHECK (token_budget > 0),'',
      ''  window_seconds     integer NOT NULL DEFAULT 60 CHECK (window_seconds > 0),'',
      ''  enabled            boolean NOT NULL DEFAULT true,'',
      ''  created_at         timestamptz NOT NULL DEFAULT now()'',
      '');'',
      '''',
      ''CREATE TABLE backend ('',
      ''  id                 uuid PRIMARY KEY DEFAULT gen_random_uuid(),'',
      ''  name               text NOT NULL UNIQUE,'',
      ''  type               text NOT NULL CHECK (type IN ('ollama','hosted')),'',
      ''  endpoint           text NOT NULL,'',
      ''  model              text NOT NULL,'',
      ''  priority           integer NOT NULL DEFAULT 100,'',
      ''  enabled            boolean NOT NULL DEFAULT true,'',
      ''  cost_per_1k_in     numeric(10,6) NOT NULL DEFAULT 0,'',
      ''  cost_per_1k_out    numeric(10,6) NOT NULL DEFAULT 0,'',
      ''  created_at         timestamptz NOT NULL DEFAULT now()'',
      '');'',
      '''',
      ''CREATE TABLE cache_entry ('',
      ''  id           uuid PRIMARY KEY DEFAULT gen_random_uuid(),'',
      ''  model        text NOT NULL,'',
      ''  prompt_hash  char(64) NOT NULL,'',
      ''  embedding    vector(384) NOT NULL,'',
      ''  response     text NOT NULL,'',
      ''  tokens_in    integer NOT NULL,'',
      ''  tokens_out   integer NOT NULL,'',
      ''  created_at   timestamptz NOT NULL DEFAULT now()'',
      '');'',
      ''CREATE INDEX ix_cache_vec ON cache_entry'',
      ''  USING hnsw (embedding vector_cosine_ops);'',
      ''CREATE INDEX ix_cache_model_time ON cache_entry (model, created_at DESC);'',
      '''',
      ''CREATE TABLE request_log ('',
      ''  id             uuid PRIMARY KEY DEFAULT gen_random_uuid(),'',
      ''  api_key_id     uuid NOT NULL REFERENCES api_key(id),'',
      ''  backend_id     uuid REFERENCES backend(id),'',
      ''  cache_tier     text CHECK (cache_tier IN ('l1','l2')),'',
      ''  model          text NOT NULL,'',
      ''  tokens_in      integer NOT NULL DEFAULT 0,'',
      ''  tokens_out     integer NOT NULL DEFAULT 0,'',
      ''  cost           numeric(12,6) NOT NULL DEFAULT 0,'',
      ''  latency_ms     integer NOT NULL,'',
      ''  status         integer NOT NULL,'',
      ''  finish_reason  text,'',
      ''  ts             timestamptz NOT NULL DEFAULT now()'',
      '');'',
      ''CREATE INDEX ix_log_ts ON request_log (ts DESC);'',
      '''']"

definition DROP_script :: string where
  "DROP_script = join newline
     ['''',
      ''DROP TABLE IF EXISTS request_log;'',
      ''DROP TABLE IF EXISTS cache_entry;'',
      ''DROP TABLE IF EXISTS backend;'',
      ''DROP TABLE IF EXISTS api_key;'',
      '''']"

text \<open>Python's \<^verbatim>\<open>str.strip\<close> and \<^verbatim>\<open>str.split\<close> with a separator, on characters below 128.\<close>

definition is_space :: "char \<Rightarrow> bool" where
  "is_space c \<longleftrightarrow> c \<in> {CHR '' '', CHR 0x0A, CHR 0x09, CHR 0x0B, CHR 0x0C, CHR 0x0D, CHR 0x1C, CHR 0x1D, CHR 0x1E, CHR 0x1F}"

definition strip :: "string \<Rightarrow> string" where
  "strip s = rev (dropWhile is_space (rev (dropWhile is_space s)))"

fun starts_with :: "string \<Rightarrow> string \<Rightarrow> bool" where
  "starts_with [] s = True"
| "starts_with (c # cs) [] = False"
| "starts_with (c # cs) (d # ds) = (c = d \<and> starts_with cs ds)"

text \<open>Non-overlapping occurrences from left to right; \<open>skip\<close> counts the rest of a separator just seen.\<close>

fun split_from :: "string \<Rightarrow> nat \<Rightarrow> string \<Rightarrow> string \<Rightarrow> string list" where
  "split_from sep skip part [] = [rev part]"
| "split_from sep (Suc skip) part (c # cs) = split_from sep skip part cs"
| "split_from sep 0 part (c # cs) =
     (if starts_with sep (c # cs) then rev part # split_from sep (length sep - 1) [] cs
      else split_from sep 0 (c # part) cs)"

definition split_on :: "string \<Rightarrow> string \<Rightarrow> string list" where
  "split_on sep s = split_from sep 0 [] s"

primrec execute_all :: "(string \<Rightarrow> ('c, unit) act) \<Rightarrow> string list \<Rightarrow> ('c, unit) act" where
  "execute_all execute [] = returnE ()"
| "execute_all execute (part # parts) =
     (let statement = strip part in
      if statement \<noteq> [] then bindE (execute statement) (\<lambda>_. execute_all execute parts)
      else execute_all execute parts)"

definition upgrade :: "(string \<Rightarrow> ('c, unit) act) \<Rightarrow> ('c, unit) act" where
  "upgrade execute = execute_all execute (split_on ('';'' @ newline) (strip DDL))"

definition downgrade :: "(string \<Rightarrow> ('c, unit) act) \<Rightarrow> ('c, unit) act" where
  "downgrade execute = execute_all execute (split_on ('';'' @ newline) (strip DROP_script))"

section \<open>The statements\<close>

definition word_char :: "char \<Rightarrow> bool" where
  "word_char c \<longleftrightarrow> c \<in> set ''etanioscrdlmupkxbhgyvfqwzj_0123456789ABCDEFGHIJKLMNOPQRSTUVWXYZ''"

text \<open>Words, quoted strings (with their quotes) and single characters.\<close>

function sql_tokens :: "string \<Rightarrow> string list" where
  "sql_tokens [] = []"
| "sql_tokens (c # cs) =
     (if is_space c then sql_tokens cs
      else if word_char c then (c # takeWhile word_char cs) # sql_tokens (dropWhile word_char cs)
      else if c = CHR 0x27
        then (c # takeWhile (\<lambda>d. d \<noteq> CHR 0x27) cs @ [c]) #
          sql_tokens (drop 1 (dropWhile (\<lambda>d. d \<noteq> CHR 0x27) cs))
      else [c] # sql_tokens cs)"
  by pat_completeness auto

termination
  by (relation "measure length") (auto simp: less_Suc_eq_le length_dropWhile_le intro: le_trans [OF diff_le_self length_dropWhile_le])

text \<open>Cut a token list at its top-level commas, up to the parenthesis that closes it.\<close>

fun items_of :: "nat \<Rightarrow> string list \<Rightarrow> string list \<Rightarrow> string list list option" where
  "items_of depth item [] = None"
| "items_of depth item (t # ts) =
     (if t = '')'' then (case depth of 0 \<Rightarrow> Some [rev item] | Suc d \<Rightarrow> items_of d (t # item) ts)
      else if t = ''('' then items_of (Suc depth) (t # item) ts
      else if t = '','' \<and> depth = 0 then map_option ((#) (rev item)) (items_of 0 [] ts)
      else items_of depth (t # item) ts)"

record column =
  cl_name :: string
  cl_type :: "string list"
  cl_not_null :: bool
  cl_unique :: bool
  cl_references :: "(string \<times> string) option"
  cl_default :: "string option"
  cl_check :: "string list option"

definition type_of_tokens :: "string list \<Rightarrow> string list \<times> string list" where
  "type_of_tokens ts =
     (case ts of
        t # ''('' # rest \<Rightarrow> (t # ''('' # takeWhile (\<lambda>x. x \<noteq> '')'') rest @ ['')''], drop 1 (dropWhile (\<lambda>x. x \<noteq> '')'') rest))
      | t # rest \<Rightarrow> ([t], rest)
      | [] \<Rightarrow> ([], []))"

text \<open>The tokens of a parenthesis that has just been opened, without the closing one.\<close>

fun inside :: "nat \<Rightarrow> string list \<Rightarrow> string list" where
  "inside depth [] = []"
| "inside depth (t # ts) =
     (if t = '')'' then (case depth of 0 \<Rightarrow> [] | Suc d \<Rightarrow> t # inside d ts)
      else t # inside (if t = ''('' then Suc depth else depth) ts)"

fun constraints_of :: "column \<Rightarrow> string list \<Rightarrow> column" where
  "constraints_of col [] = col"
| "constraints_of col (t # ts) =
     (if t = ''PRIMARY'' then constraints_of (col\<lparr>cl_not_null := True, cl_unique := True\<rparr>) ts
      else if t = ''UNIQUE'' then constraints_of (col\<lparr>cl_unique := True\<rparr>) ts
      else if t = ''NOT'' then constraints_of (col\<lparr>cl_not_null := True\<rparr>) ts
      else if t = ''REFERENCES''
        then constraints_of (case ts of table # paren # name # _ \<Rightarrow> col\<lparr>cl_references := Some (table, name)\<rparr> | _ \<Rightarrow> col) ts
      else if t = ''DEFAULT'' then constraints_of (col\<lparr>cl_default := List.find (\<lambda>_. True) ts\<rparr>) ts
      else if t = ''CHECK'' then constraints_of (col\<lparr>cl_check := Some (inside 0 (drop 1 ts))\<rparr>) ts
      else constraints_of col ts)"

definition column_of :: "string list \<Rightarrow> column" where
  "column_of ts =
     (case type_of_tokens (drop 1 ts) of
        (type, rest) \<Rightarrow> constraints_of
          \<lparr>cl_name = hd ts, cl_type = type, cl_not_null = False, cl_unique = False, cl_references = None,
           cl_default = None, cl_check = None\<rparr> rest)"

datatype ddl =
    CreateExtension string
  | CreateTable string "column list"
  | CreateIndex string string
  | DropTable string

definition parse_ddl :: "string \<Rightarrow> ddl option" where
  "parse_ddl statement =
     (case sql_tokens statement of
        t1 # t2 # t3 # rest \<Rightarrow>
          if t1 = ''CREATE'' \<and> t2 = ''EXTENSION'' \<and> t3 = ''IF'' then map_option CreateExtension (List.find (\<lambda>_. True) (drop 2 rest))
          else if t1 = ''CREATE'' \<and> t2 = ''TABLE''
            then map_option (\<lambda>items. CreateTable t3 (map column_of items)) (items_of 0 [] (drop 1 rest))
          else if t1 = ''CREATE'' \<and> t2 = ''INDEX'' then map_option (CreateIndex t3) (List.find (\<lambda>_. True) (drop 1 rest))
          else if t1 = ''DROP'' \<and> t2 = ''TABLE'' \<and> t3 = ''IF'' then map_option DropTable (List.find (\<lambda>_. True) (drop 1 rest))
          else None
      | _ \<Rightarrow> None)"

section \<open>Their documented effect\<close>

record catalog =
  ct_available :: "string list"
  ct_extensions :: "string list"
  ct_tables :: "(string \<times> column list) list"
  ct_indexes :: "(string \<times> string) list"

definition relation_names :: "catalog \<Rightarrow> string set" where
  "relation_names c = fst ` set (ct_tables c) \<union> fst ` set (ct_indexes c)"

definition referenced :: "column list \<Rightarrow> string list" where
  "referenced cols = map fst (List.map_filter cl_references cols)"

fun exec_ddl :: "ddl \<Rightarrow> (catalog, unit) act" where
  "exec_ddl (CreateExtension n) c =
     (if n \<in> set (ct_extensions c) then (Inr (), c)
      else if n \<notin> set (ct_available c) then (Inl (RuntimeError ''extension is not available''), c)
      else (Inr (), c\<lparr>ct_extensions := n # ct_extensions c\<rparr>))"
| "exec_ddl (CreateTable n cols) c =
     (if n \<in> relation_names c then (Inl (RuntimeError ''relation already exists''), c)
      else if \<exists>col \<in> set cols. hd (cl_type col) = ''vector'' \<and> ''vector'' \<notin> set (ct_extensions c)
        then (Inl (RuntimeError ''type does not exist''), c)
      else if \<not> set (referenced cols) \<subseteq> insert n (fst ` set (ct_tables c))
        then (Inl (RuntimeError ''relation does not exist''), c)
      else (Inr (), c\<lparr>ct_tables := ct_tables c @ [(n, cols)]\<rparr>))"
| "exec_ddl (CreateIndex n t) c =
     (if n \<in> relation_names c then (Inl (RuntimeError ''relation already exists''), c)
      else if t \<notin> fst ` set (ct_tables c) then (Inl (RuntimeError ''relation does not exist''), c)
      else (Inr (), c\<lparr>ct_indexes := ct_indexes c @ [(n, t)]\<rparr>))"
| "exec_ddl (DropTable n) c =
     (if n \<notin> fst ` set (ct_tables c) then (Inr (), c)
      else if \<exists>(m, cols) \<in> set (ct_tables c). m \<noteq> n \<and> n \<in> set (referenced cols)
        then (Inl (RuntimeError ''other objects depend on it''), c)
      else (Inr (), c\<lparr>ct_tables := filter (\<lambda>t. fst t \<noteq> n) (ct_tables c),
                      ct_indexes := filter (\<lambda>i. snd i \<noteq> n) (ct_indexes c)\<rparr>))"

definition doc_execute :: "string \<Rightarrow> (catalog, unit) act" where
  "doc_execute statement =
     (case parse_ddl statement of None \<Rightarrow> raiseE (RuntimeError ''syntax error'') | Some d \<Rightarrow> exec_ddl d)"

locale ddl_service =
  fixes execute :: "string \<Rightarrow> ('c, unit) act" and view :: "'c \<Rightarrow> catalog"
  assumes execute_doc: "act_sim view (execute statement) (doc_execute statement)"
begin

lemma execute_all_sim: "act_sim view (execute_all execute parts) (execute_all doc_execute parts)"
proof (induction parts)
  case Nil
  show ?case unfolding execute_all.simps by (rule act_sim_return)
next
  case (Cons part parts)
  then show ?case by (auto simp: Let_def intro!: act_sim_bind execute_doc)
qed

lemma scripts_sim:
  "act_sim view (upgrade execute) (upgrade doc_execute)" "act_sim view (downgrade execute) (downgrade doc_execute)"
  unfolding upgrade_def downgrade_def by (rule execute_all_sim)+

end

interpretation docd: ddl_service doc_execute "\<lambda>c. c"
  by unfold_locales (simp add: act_sim_def)

text \<open>The statements of a script, parsed.\<close>

definition script_ddl :: "string \<Rightarrow> ddl option list" where
  "script_ddl script = map parse_ddl (filter (\<lambda>s. s \<noteq> []) (map strip (split_on ('';'' @ newline) (strip script))))"

primrec exec_all :: "ddl list \<Rightarrow> (catalog, unit) act" where
  "exec_all [] = returnE ()"
| "exec_all (d # ds) = bindE (exec_ddl d) (\<lambda>_. exec_all ds)"

lemma execute_all_parsed:
  "map parse_ddl (filter (\<lambda>s. s \<noteq> []) (map strip parts)) = map Some ds \<Longrightarrow> execute_all doc_execute parts = exec_all ds"
proof (induction parts arbitrary: ds)
  case (Cons part parts)
  show ?case
  proof (cases "strip part = []")
    case True
    with Cons show ?thesis by simp
  next
    case False
    with Cons.prems obtain d ds' where "ds = d # ds'" "parse_ddl (strip part) = Some d"
      "map parse_ddl (filter (\<lambda>s. s \<noteq> []) (map strip parts)) = map Some ds'" by (cases ds) auto
    with Cons.IH False show ?thesis by (simp add: doc_execute_def)
  qed
qed simp

definition quoted :: "string \<Rightarrow> string" where
  "quoted s = CHR 0x27 # s @ [CHR 0x27]"

section \<open>The tables of the baseline\<close>

text \<open>
  The columns of the four tables, read off the script: name, type, not null, unique, reference,
  default, check.
\<close>

definition db_column :: "string \<Rightarrow> string list \<Rightarrow> bool \<Rightarrow> bool \<Rightarrow> (string \<times> string) option \<Rightarrow> string option \<Rightarrow>
    string list option \<Rightarrow> column" where
  "db_column name type not_null unique refs dflt check =
     \<lparr>cl_name = name, cl_type = type, cl_not_null = not_null, cl_unique = unique, cl_references = refs,
      cl_default = dflt, cl_check = check\<rparr>"

definition api_key_columns :: "column list" where
  "api_key_columns =
     [db_column ''id'' [''uuid''] True True None (Some ''gen_random_uuid'') None,
      db_column ''key_hash'' [''char'', ''('', ''64'', '')''] True True None None None,
      db_column ''name'' [''text''] True False None None None,
      db_column ''token_budget'' [''integer''] True False None None (Some [''token_budget'', ''>'', ''0'']),
      db_column ''window_seconds'' [''integer''] True False None (Some ''60'') (Some [''window_seconds'', ''>'', ''0'']),
      db_column ''enabled'' [''boolean''] True False None (Some ''true'') None,
      db_column ''created_at'' [''timestamptz''] True False None (Some ''now'') None]"

definition backend_columns :: "column list" where
  "backend_columns =
     [db_column ''id'' [''uuid''] True True None (Some ''gen_random_uuid'') None,
      db_column ''name'' [''text''] True True None None None,
      db_column ''type'' [''text''] True False None None (Some [''type'', ''IN'', ''('', quoted ''ollama'', '','', quoted ''hosted'', '')'']),
      db_column ''endpoint'' [''text''] True False None None None,
      db_column ''model'' [''text''] True False None None None,
      db_column ''priority'' [''integer''] True False None (Some ''100'') None,
      db_column ''enabled'' [''boolean''] True False None (Some ''true'') None,
      db_column ''cost_per_1k_in'' [''numeric'', ''('', ''10'', '','', ''6'', '')''] True False None (Some ''0'') None,
      db_column ''cost_per_1k_out'' [''numeric'', ''('', ''10'', '','', ''6'', '')''] True False None (Some ''0'') None,
      db_column ''created_at'' [''timestamptz''] True False None (Some ''now'') None]"

definition cache_entry_columns :: "column list" where
  "cache_entry_columns =
     [db_column ''id'' [''uuid''] True True None (Some ''gen_random_uuid'') None,
      db_column ''model'' [''text''] True False None None None,
      db_column ''prompt_hash'' [''char'', ''('', ''64'', '')''] True False None None None,
      db_column ''embedding'' [''vector'', ''('', ''384'', '')''] True False None None None,
      db_column ''response'' [''text''] True False None None None,
      db_column ''tokens_in'' [''integer''] True False None None None,
      db_column ''tokens_out'' [''integer''] True False None None None,
      db_column ''created_at'' [''timestamptz''] True False None (Some ''now'') None]"

definition request_log_columns :: "column list" where
  "request_log_columns =
     [db_column ''id'' [''uuid''] True True None (Some ''gen_random_uuid'') None,
      db_column ''api_key_id'' [''uuid''] True False (Some (''api_key'', ''id'')) None None,
      db_column ''backend_id'' [''uuid''] False False (Some (''backend'', ''id'')) None None,
      db_column ''cache_tier'' [''text''] False False None None (Some [''cache_tier'', ''IN'', ''('', quoted ''l1'', '','', quoted ''l2'', '')'']),
      db_column ''model'' [''text''] True False None None None,
      db_column ''tokens_in'' [''integer''] True False None (Some ''0'') None,
      db_column ''tokens_out'' [''integer''] True False None (Some ''0'') None,
      db_column ''cost'' [''numeric'', ''('', ''12'', '','', ''6'', '')''] True False None (Some ''0'') None,
      db_column ''latency_ms'' [''integer''] True False None None None,
      db_column ''status'' [''integer''] True False None None None,
      db_column ''finish_reason'' [''text''] False False None None None,
      db_column ''ts'' [''timestamptz''] True False None (Some ''now'') None]"

definition baseline :: "ddl list" where
  "baseline =
     [CreateExtension ''vector'', CreateTable ''api_key'' api_key_columns, CreateTable ''backend'' backend_columns,
      CreateTable ''cache_entry'' cache_entry_columns, CreateIndex ''ix_cache_vec'' ''cache_entry'',
      CreateIndex ''ix_cache_model_time'' ''cache_entry'', CreateTable ''request_log'' request_log_columns,
      CreateIndex ''ix_log_ts'' ''request_log'']"

text \<open>
  The text of the script is too long to be cut by evaluation: its pieces are given, joining them
  gives the script, and splitting undoes joining as long as no piece contains a semicolon.
\<close>

lemma strip_between:
  assumes "\<forall>c \<in> set pre. is_space c" and "\<forall>c \<in> set post. is_space c"
    and "x \<noteq> []" and "\<not> is_space (hd x)" and "\<not> is_space (last x)"
  shows "strip (pre @ x @ post) = x"
proof -
  have *: "dropWhile is_space (ws @ y @ zs) = y @ zs" if "\<forall>c \<in> set ws. is_space c" "y \<noteq> []" "\<not> is_space (hd y)" for ws y zs
    using that by (cases y) (simp_all add: dropWhile_append2)
  have "dropWhile is_space (pre @ x @ post) = x @ post" using assms(1,3,4) by (rule *)
  moreover have "dropWhile is_space (rev post @ rev x) = rev x"
    using * [of "rev post" "rev x" "[]"] assms(2,3,5) by (simp add: hd_rev)
  ultimately show ?thesis by (simp add: strip_def)
qed

lemma split_piece:
  "c \<notin> set p \<Longrightarrow> split_from (c # sep) 0 part (p @ (c # sep) @ rest) = (rev part @ p) # split_from (c # sep) 0 [] rest"
proof (induction p arbitrary: part)
  case Nil
  have skip: "split_from (c # sep) (length t) [] (t @ rest) = split_from (c # sep) 0 [] rest" for t
    by (induction t) simp_all
  have "starts_with x (x @ y)" for x y by (induction x) simp_all
  from this [of "c # sep" rest] skip [of sep] show ?case by simp
next
  case (Cons d p)
  then show ?case by simp
qed

lemma split_last: "c \<notin> set p \<Longrightarrow> sep \<noteq> [] \<Longrightarrow> split_from (c # sep) 0 part (p @ [c]) = [rev part @ p @ [c]]"
  by (induction p arbitrary: part) (auto simp: neq_Nil_conv)

definition extension_text :: string where
  "extension_text = join newline
        [''CREATE EXTENSION IF NOT EXISTS vector'']"

definition api_key_text :: string where
  "api_key_text = join newline
        ['''',
         ''CREATE TABLE api_key ('',
         ''  id                 uuid PRIMARY KEY DEFAULT gen_random_uuid(),'',
         ''  key_hash           char(64) NOT NULL UNIQUE,'',
         ''  name               text NOT NULL,'',
         ''  token_budget       integer NOT NULL CHECK (token_budget > 0),'',
         ''  window_seconds     integer NOT NULL DEFAULT 60 CHECK (window_seconds > 0),'',
         ''  enabled            boolean NOT NULL DEFAULT true,'',
         ''  created_at         timestamptz NOT NULL DEFAULT now()'',
         '')'']"

definition backend_text :: string where
  "backend_text = join newline
        ['''',
         ''CREATE TABLE backend ('',
         ''  id                 uuid PRIMARY KEY DEFAULT gen_random_uuid(),'',
         ''  name               text NOT NULL UNIQUE,'',
         ''  type               text NOT NULL CHECK (type IN ('ollama','hosted')),'',
         ''  endpoint           text NOT NULL,'',
         ''  model              text NOT NULL,'',
         ''  priority           integer NOT NULL DEFAULT 100,'',
         ''  enabled            boolean NOT NULL DEFAULT true,'',
         ''  cost_per_1k_in     numeric(10,6) NOT NULL DEFAULT 0,'',
         ''  cost_per_1k_out    numeric(10,6) NOT NULL DEFAULT 0,'',
         ''  created_at         timestamptz NOT NULL DEFAULT now()'',
         '')'']"

definition cache_entry_text :: string where
  "cache_entry_text = join newline
        ['''',
         ''CREATE TABLE cache_entry ('',
         ''  id           uuid PRIMARY KEY DEFAULT gen_random_uuid(),'',
         ''  model        text NOT NULL,'',
         ''  prompt_hash  char(64) NOT NULL,'',
         ''  embedding    vector(384) NOT NULL,'',
         ''  response     text NOT NULL,'',
         ''  tokens_in    integer NOT NULL,'',
         ''  tokens_out   integer NOT NULL,'',
         ''  created_at   timestamptz NOT NULL DEFAULT now()'',
         '')'']"

definition cache_vec_text :: string where
  "cache_vec_text = join newline
        [''CREATE INDEX ix_cache_vec ON cache_entry'',
         ''  USING hnsw (embedding vector_cosine_ops)'']"

definition cache_time_text :: string where
  "cache_time_text = join newline
        [''CREATE INDEX ix_cache_model_time ON cache_entry (model, created_at DESC)'']"

definition request_log_text :: string where
  "request_log_text = join newline
        ['''',
         ''CREATE TABLE request_log ('',
         ''  id             uuid PRIMARY KEY DEFAULT gen_random_uuid(),'',
         ''  api_key_id     uuid NOT NULL REFERENCES api_key(id),'',
         ''  backend_id     uuid REFERENCES backend(id),'',
         ''  cache_tier     text CHECK (cache_tier IN ('l1','l2')),'',
         ''  model          text NOT NULL,'',
         ''  tokens_in      integer NOT NULL DEFAULT 0,'',
         ''  tokens_out     integer NOT NULL DEFAULT 0,'',
         ''  cost           numeric(12,6) NOT NULL DEFAULT 0,'',
         ''  latency_ms     integer NOT NULL,'',
         ''  status         integer NOT NULL,'',
         ''  finish_reason  text,'',
         ''  ts             timestamptz NOT NULL DEFAULT now()'',
         '')'']"

definition log_ts_text :: string where
  "log_ts_text = join newline
        [''CREATE INDEX ix_log_ts ON request_log (ts DESC)'']"

lemma DDL_parts:
  "strip DDL = join ('';'' @ newline) [extension_text, api_key_text, backend_text, cache_entry_text, cache_vec_text, cache_time_text, request_log_text, log_ts_text] @ '';''"
proof -
  let ?body = "join ('';'' @ newline) [extension_text, api_key_text, backend_text, cache_entry_text, cache_vec_text, cache_time_text, request_log_text, log_ts_text] @ '';''"
  have "DDL = newline @ ?body @ newline"
    unfolding DDL_def newline_def extension_text_def api_key_text_def backend_text_def cache_entry_text_def cache_vec_text_def cache_time_text_def request_log_text_def log_ts_text_def join_def list.case list.map concat.simps
    by (simp only: append_Cons append_Nil append_Nil2)
  moreover have "hd ?body = CHR ''C''" by (simp add: extension_text_def join_def)
  ultimately show ?thesis using strip_between [of newline newline ?body] by (simp add: newline_def is_space_def)
qed

lemma no_semicolon:
  "CHR '';'' \<notin> set extension_text"
  "CHR '';'' \<notin> set api_key_text"
  "CHR '';'' \<notin> set backend_text"
  "CHR '';'' \<notin> set cache_entry_text"
  "CHR '';'' \<notin> set cache_vec_text"
  "CHR '';'' \<notin> set cache_time_text"
  "CHR '';'' \<notin> set request_log_text"
  "CHR '';'' \<notin> set log_ts_text"
  by code_simp+

lemma parse_extension: "parse_ddl (strip (extension_text)) = Some (CreateExtension ''vector'')" "strip (extension_text) \<noteq> []"
  by code_simp+

lemma parse_api_key: "parse_ddl (strip (api_key_text)) = Some (CreateTable ''api_key'' api_key_columns)" "strip (api_key_text) \<noteq> []"
  by code_simp+

lemma parse_backend: "parse_ddl (strip (backend_text)) = Some (CreateTable ''backend'' backend_columns)" "strip (backend_text) \<noteq> []"
  by code_simp+

lemma parse_cache_entry: "parse_ddl (strip (cache_entry_text)) = Some (CreateTable ''cache_entry'' cache_entry_columns)" "strip (cache_entry_text) \<noteq> []"
  by code_simp+

lemma parse_cache_vec: "parse_ddl (strip (cache_vec_text)) = Some (CreateIndex ''ix_cache_vec'' ''cache_entry'')" "strip (cache_vec_text) \<noteq> []"
  by code_simp+

lemma parse_cache_time: "parse_ddl (strip (cache_time_text)) = Some (CreateIndex ''ix_cache_model_time'' ''cache_entry'')" "strip (cache_time_text) \<noteq> []"
  by code_simp+

lemma parse_request_log: "parse_ddl (strip (request_log_text)) = Some (CreateTable ''request_log'' request_log_columns)" "strip (request_log_text) \<noteq> []"
  by code_simp+

lemma parse_log_ts: "parse_ddl (strip (log_ts_text @ '';'')) = Some (CreateIndex ''ix_log_ts'' ''request_log'')" "strip (log_ts_text @ '';'') \<noteq> []"
  by code_simp+

lemma baseline_statements: "script_ddl DDL = map Some baseline"
proof -
  have "split_on ('';'' @ newline) (strip DDL) = [extension_text, api_key_text, backend_text, cache_entry_text, cache_vec_text, cache_time_text, request_log_text, log_ts_text @ '';'']"
    unfolding DDL_parts
    by (simp add: split_on_def join_def newline_def split_piece [where sep = "[CHR 0x0A]", simplified]
        split_last [where sep = "[CHR 0x0A]", simplified] no_semicolon)
  then show ?thesis
    by (simp add: script_ddl_def baseline_def parse_extension parse_api_key parse_backend parse_cache_entry parse_cache_vec parse_cache_time parse_request_log parse_log_ts)
qed

lemma drop_statements:
  "script_ddl DROP_script = map Some [DropTable ''request_log'', DropTable ''cache_entry'', DropTable ''backend'', DropTable ''api_key'']"
  by code_simp

section \<open>The mapped classes\<close>

datatype sa_type =
    SaUuid | SaString nat | SaText | SaInteger | SaBoolean | SaDateTime | SaNumeric nat nat | SaVector nat
  | SaEnum "string list"

record mapped_column =
  mc_name :: string
  mc_type :: sa_type
  mc_nullable :: bool
  mc_unique :: bool
  mc_foreign_key :: "(string \<times> string) option"
  mc_default :: "string option"

record mapped_table =
  mt_name :: string
  mt_checks :: "string list"
  mt_columns :: "mapped_column list"

definition mapped :: "string \<Rightarrow> sa_type \<Rightarrow> mapped_column" where
  "mapped name type = \<lparr>mc_name = name, mc_type = type, mc_nullable = False, mc_unique = False, mc_foreign_key = None,
     mc_default = None\<rparr>"

definition with_default :: "string \<Rightarrow> mapped_column \<Rightarrow> mapped_column" where
  "with_default d col = col\<lparr>mc_default := Some d\<rparr>"

definition unique_column :: "mapped_column \<Rightarrow> mapped_column" where
  "unique_column col = col\<lparr>mc_unique := True\<rparr>"

definition nullable :: "mapped_column \<Rightarrow> mapped_column" where
  "nullable col = col\<lparr>mc_nullable := True\<rparr>"

definition foreign_key :: "string \<Rightarrow> string \<Rightarrow> mapped_column \<Rightarrow> mapped_column" where
  "foreign_key table name col = col\<lparr>mc_foreign_key := Some (table, name)\<rparr>"

definition str_enum_column :: "string list \<Rightarrow> sa_type" where
  "str_enum_column members = SaEnum members"

definition api_key_table :: mapped_table where
  "api_key_table = \<lparr>mt_name = ''api_key'', mt_checks = [''token_budget > 0'', ''window_seconds > 0''],
     mt_columns = [unique_column (mapped ''id'' SaUuid), unique_column (mapped ''key_hash'' (SaString 64)),
       mapped ''name'' SaText, mapped ''token_budget'' SaInteger, with_default ''60'' (mapped ''window_seconds'' SaInteger),
       with_default ''true'' (mapped ''enabled'' SaBoolean), with_default ''now'' (mapped ''created_at'' SaDateTime)]\<rparr>"

definition backend_table :: mapped_table where
  "backend_table = \<lparr>mt_name = ''backend'', mt_checks = [],
     mt_columns = [unique_column (mapped ''id'' SaUuid), unique_column (mapped ''name'' SaText),
       mapped ''type'' (str_enum_column (map backend_type_value [OLLAMA, HOSTED])), mapped ''endpoint'' SaText,
       mapped ''model'' SaText, with_default ''100'' (mapped ''priority'' SaInteger),
       with_default ''true'' (mapped ''enabled'' SaBoolean), with_default ''0'' (mapped ''cost_per_1k_in'' (SaNumeric 10 6)),
       with_default ''0'' (mapped ''cost_per_1k_out'' (SaNumeric 10 6)), with_default ''now'' (mapped ''created_at'' SaDateTime)]\<rparr>"

definition cache_entry_table :: mapped_table where
  "cache_entry_table = \<lparr>mt_name = ''cache_entry'', mt_checks = [],
     mt_columns = [unique_column (mapped ''id'' SaUuid), mapped ''model'' SaText, mapped ''prompt_hash'' (SaString 64),
       mapped ''embedding'' (SaVector EMBEDDING_DIM), mapped ''response'' SaText, mapped ''tokens_in'' SaInteger,
       mapped ''tokens_out'' SaInteger, with_default ''now'' (mapped ''created_at'' SaDateTime)]\<rparr>"

definition request_log_table :: mapped_table where
  "request_log_table = \<lparr>mt_name = ''request_log'',
     mt_checks = [''cache_tier IN ('' @ quoted ''l1'' @ '','' @ quoted ''l2'' @ '')''],
     mt_columns = [unique_column (mapped ''id'' SaUuid), foreign_key ''api_key'' ''id'' (mapped ''api_key_id'' SaUuid),
       nullable (foreign_key ''backend'' ''id'' (mapped ''backend_id'' SaUuid)), nullable (mapped ''cache_tier'' SaText),
       mapped ''model'' SaText, with_default ''0'' (mapped ''tokens_in'' SaInteger),
       with_default ''0'' (mapped ''tokens_out'' SaInteger), with_default ''0'' (mapped ''cost'' (SaNumeric 12 6)),
       mapped ''latency_ms'' SaInteger, mapped ''status'' SaInteger, nullable (mapped ''finish_reason'' SaText),
       with_default ''now'' (mapped ''ts'' SaDateTime)]\<rparr>"

section \<open>The classes and the tables agree\<close>

fun implements :: "sa_type \<Rightarrow> string list \<Rightarrow> bool" where
  "implements SaUuid type = (type = [''uuid''])"
| "implements (SaString n) type = (type = [''char'', ''('', show_nat n, '')''])"
| "implements SaText type = (type = [''text''])"
| "implements SaInteger type = (type = [''integer''])"
| "implements SaBoolean type = (type = [''boolean''])"
| "implements SaDateTime type = (type = [''timestamptz''])"
| "implements (SaNumeric p s) type = (type = [''numeric'', ''('', show_nat p, '','', show_nat s, '')''])"
| "implements (SaVector n) type = (type = [''vector'', ''('', show_nat n, '')''])"
| "implements (SaEnum members) type = (type = [''text''])"

fun separated :: "string list \<Rightarrow> string list" where
  "separated [] = []"
| "separated [x] = [x]"
| "separated (x # xs) = x # '','' # separated xs"

text \<open>The values the table admits for a column of an enumeration.\<close>

fun admits :: "sa_type \<Rightarrow> column \<Rightarrow> bool" where
  "admits (SaEnum members) col = (cl_check col = Some (cl_name col # ''IN'' # ''('' # separated (map quoted members) @ ['')'']))"
| "admits _ col = True"

definition column_matches :: "mapped_column \<Rightarrow> column \<Rightarrow> bool" where
  "column_matches mc col \<longleftrightarrow> cl_name col = mc_name mc \<and> implements (mc_type mc) (cl_type col) \<and> admits (mc_type mc) col \<and>
     cl_not_null col = (\<not> mc_nullable mc) \<and> cl_unique col = mc_unique mc \<and> cl_references col = mc_foreign_key mc \<and>
     (mc_default mc \<noteq> None \<longrightarrow> cl_default col = mc_default mc)"

definition table_matches :: "mapped_table \<Rightarrow> column list \<Rightarrow> bool" where
  "table_matches mt cols \<longleftrightarrow> list_all2 column_matches (mt_columns mt) cols \<and>
     (\<forall>c \<in> set (mt_checks mt). \<exists>col \<in> set cols. cl_check col = Some (sql_tokens c))"

lemma classes_match:
  "table_matches api_key_table api_key_columns" "table_matches backend_table backend_columns"
  "table_matches cache_entry_table cache_entry_columns" "table_matches request_log_table request_log_columns"
  by code_simp+

section \<open>Running the migration\<close>

text \<open>A catalog without dangling references.\<close>

definition catalog_ok :: "catalog \<Rightarrow> bool" where
  "catalog_ok c \<longleftrightarrow>
     (\<forall>(m, cols) \<in> set (ct_tables c). set (referenced cols) \<subseteq> fst ` set (ct_tables c)) \<and>
     snd ` set (ct_indexes c) \<subseteq> fst ` set (ct_tables c)"

definition baseline_tables :: "(string \<times> column list) list" where
  "baseline_tables = [(''api_key'', api_key_columns), (''backend'', backend_columns),
     (''cache_entry'', cache_entry_columns), (''request_log'', request_log_columns)]"

definition baseline_indexes :: "(string \<times> string) list" where
  "baseline_indexes = [(''ix_cache_vec'', ''cache_entry''), (''ix_cache_model_time'', ''cache_entry''),
     (''ix_log_ts'', ''request_log'')]"

text \<open>A catalog the migration can start from: none of its names is taken and the extension can be installed.\<close>

definition fresh_catalog :: "catalog \<Rightarrow> bool" where
  "fresh_catalog c \<longleftrightarrow> catalog_ok c \<and>
     relation_names c \<inter> set (map fst baseline_tables @ map fst baseline_indexes) = {} \<and>
     ''vector'' \<in> set (ct_available c) \<union> set (ct_extensions c)"

definition with_vector :: "catalog \<Rightarrow> catalog" where
  "with_vector c = c\<lparr>ct_extensions := List.insert ''vector'' (ct_extensions c)\<rparr>"

definition migrated :: "catalog \<Rightarrow> catalog" where
  "migrated c = (with_vector c)\<lparr>ct_tables := ct_tables c @ baseline_tables, ct_indexes := ct_indexes c @ baseline_indexes\<rparr>"

lemma baseline_references:
  "referenced api_key_columns = []" "referenced backend_columns = []" "referenced cache_entry_columns = []"
  "referenced request_log_columns = [''api_key'', ''backend'']"
  by code_simp+

lemma upgrade_doc_run: "upgrade doc_execute = exec_all baseline"
  unfolding upgrade_def
  by (rule execute_all_parsed) (use baseline_statements in \<open>simp add: script_ddl_def\<close>)

lemma upgrade_doc:
  assumes "fresh_catalog c"
  shows "upgrade doc_execute c = (Inr (), migrated c)"
proof -
  have "exec_ddl (CreateExtension ''vector'') c = (Inr (), with_vector c)"
    using assms by (auto simp: fresh_catalog_def with_vector_def)
  then show ?thesis
    using assms
    by (simp add: upgrade_doc_run baseline_def baseline_references fresh_catalog_def relation_names_def baseline_tables_def
        baseline_indexes_def with_vector_def migrated_def bindE_def)
qed

lemma downgrade_doc_run:
  "downgrade doc_execute = exec_all [DropTable ''request_log'', DropTable ''cache_entry'', DropTable ''backend'', DropTable ''api_key'']"
  unfolding downgrade_def
  by (rule execute_all_parsed) (use drop_statements in \<open>simp add: script_ddl_def\<close>)

lemma upgrade_twice_doc: "upgrade doc_execute (migrated c) = (Inl (RuntimeError ''relation already exists''), migrated c)"
  by (simp add: upgrade_doc_run baseline_def bindE_def migrated_def with_vector_def relation_names_def baseline_tables_def)

text \<open>A catalog with more tables and indexes.\<close>

definition added :: "catalog \<Rightarrow> (string \<times> column list) list \<Rightarrow> (string \<times> string) list \<Rightarrow> catalog" where
  "added c ts ixs = c\<lparr>ct_tables := ct_tables c @ ts, ct_indexes := ct_indexes c @ ixs\<rparr>"

lemma drop_added:
  assumes "fresh_catalog c" and "n \<in> set (map fst baseline_tables)" and "n \<in> fst ` set ts"
    and "\<forall>(m, cols) \<in> set ts. m = n \<or> n \<notin> set (referenced cols)"
  shows "exec_ddl (DropTable n) (added c ts ixs) =
    (Inr (), added c (filter (\<lambda>t. fst t \<noteq> n) ts) (filter (\<lambda>i. snd i \<noteq> n) ixs))"
proof -
  have gone: "n \<notin> fst ` set (ct_tables c)" using assms(1,2) by (auto simp: fresh_catalog_def relation_names_def)
  then have tables: "filter (\<lambda>t. fst t \<noteq> n) (ct_tables c) = ct_tables c" by (auto simp: filter_id_conv)
  have "n \<notin> snd ` set (ct_indexes c)" using gone assms(1) by (auto simp: fresh_catalog_def catalog_ok_def)
  then have indexes: "filter (\<lambda>i. snd i \<noteq> n) (ct_indexes c) = ct_indexes c" by (auto simp: filter_id_conv)
  have "\<forall>(m, cols) \<in> set (ct_tables c). n \<notin> set (referenced cols)"
    using gone assms(1) unfolding fresh_catalog_def catalog_ok_def by blast
  with assms(4) have "\<not> (\<exists>(m, cols) \<in> set (ct_tables c @ ts). m \<noteq> n \<and> n \<in> set (referenced cols))" by auto
  moreover have "n \<in> fst ` set (ct_tables c @ ts)" using assms(3) by auto
  ultimately show ?thesis by (simp add: added_def tables indexes del: set_append)
qed

lemma downgrade_doc:
  assumes "fresh_catalog c"
  shows "downgrade doc_execute (migrated c) = (Inr (), with_vector c)"
proof -
  have fresh: "fresh_catalog (with_vector c)"
    using assms by (simp add: fresh_catalog_def with_vector_def catalog_ok_def relation_names_def)
  have "migrated c = added (with_vector c) baseline_tables baseline_indexes"
    by (simp add: migrated_def with_vector_def added_def)
  moreover have "added (with_vector c) [] [] = with_vector c" by (simp add: added_def)
  ultimately show ?thesis
    by (simp add: downgrade_doc_run drop_added [OF fresh] baseline_tables_def baseline_indexes_def baseline_references
        bindE_def del: exec_ddl.simps)
qed

lemma downgrade_nothing:
  assumes "fresh_catalog c"
  shows "downgrade doc_execute c = (Inr (), c)"
  using assms
  by (auto simp: downgrade_doc_run bindE_def fresh_catalog_def relation_names_def baseline_tables_def)

section \<open>The migration environment\<close>

text \<open>
  What the environment is given: the option of the configuration file and the URL of the settings,
  and the operations of Alembic and of the engine. \<open>al_end\<close> leaves a transaction block, with \<open>True\<close>
  when its body succeeded; \<open>al_run_migrations\<close> runs the pending scripts.
\<close>

record 'c alembic =
  al_main_option :: "string option"
  al_settings_url :: "exn + string"
  al_offline :: bool
  al_configure_url :: "string \<Rightarrow> ('c, unit) act"
  al_configure_connection :: "('c, unit) act"
  al_begin :: "('c, unit) act"
  al_end :: "bool \<Rightarrow> ('c, unit) act"
  al_run_migrations :: "('c, unit) act"
  al_engine :: "string \<Rightarrow> ('c, unit) act"
  al_connect :: "('c, unit) act"
  al_close :: "('c, unit) act"
  al_dispose :: "('c, unit) act"

definition database_url :: "'c alembic \<Rightarrow> ('c, string) act" where
  "database_url A =
     (case al_main_option A of
        None \<Rightarrow> liftE (al_settings_url A)
      | Some url \<Rightarrow> if url = [] then liftE (al_settings_url A) else returnE url)"

text \<open>The \<^verbatim>\<open>with context.begin_transaction()\<close> block around the scripts.\<close>

definition in_transaction :: "'c alembic \<Rightarrow> ('c, unit) act" where
  "in_transaction A =
     bindE (al_begin A) (\<lambda>_. \<lambda>c.
       case al_run_migrations A c of
         (Inl e, c') \<Rightarrow> bindE (al_end A False) (\<lambda>_. raiseE e) c'
       | (Inr _, c') \<Rightarrow> al_end A True c')"

definition run_migrations_offline :: "'c alembic \<Rightarrow> ('c, unit) act" where
  "run_migrations_offline A =
     bindE (database_url A) (\<lambda>url. bindE (al_configure_url A url) (\<lambda>_. in_transaction A))"

definition do_run_migrations :: "'c alembic \<Rightarrow> ('c, unit) act" where
  "do_run_migrations A = bindE (al_configure_connection A) (\<lambda>_. in_transaction A)"

definition run_migrations_online :: "'c alembic \<Rightarrow> ('c, unit) act" where
  "run_migrations_online A =
     bindE (database_url A) (\<lambda>url.
     bindE (al_engine A url) (\<lambda>_.
     bindE (al_connect A) (\<lambda>_.
     bindE (finallyE (do_run_migrations A) (al_close A)) (\<lambda>_.
     al_dispose A))))"

definition run_env :: "'c alembic \<Rightarrow> ('c, unit) act" where
  "run_env A = (if al_offline A then run_migrations_offline A else run_migrations_online A)"

text \<open>
  The glue does not get in the way: when the operations around the scripts succeed without touching
  the database, running the environment has the effect and the outcome of the scripts, online and
  offline; only the disposal of the engine is skipped when a script raises.
\<close>

lemma run_env_runs_scripts:
  assumes "\<exists>url. database_url A c = (Inr url, c)" and "\<And>url. al_configure_url A url = returnE ()"
    and "al_configure_connection A = returnE ()" and "al_begin A = returnE ()" and "\<And>ok. al_end A ok = returnE ()"
    and "\<And>url. al_engine A url = returnE ()" and "al_connect A = returnE ()" and "al_close A = returnE ()"
    and "al_dispose A = returnE ()"
  shows "run_env A c = al_run_migrations A c"
proof -
  have tx: "in_transaction A = al_run_migrations A"
    by (intro ext) (simp add: in_transaction_def assms(4,5) bindE_def split: prod.splits sum.splits)
  have close: "finallyE m (al_close A) = m" for m :: "('a, unit) act"
    by (intro ext) (auto simp: finallyE_def assms(8) bindE_def split: prod.splits)
  have "bindE m (\<lambda>_. returnE ()) = m" for m :: "('a, unit) act"
    by (intro ext) (auto simp: bindE_def split: prod.splits sum.splits)
  with assms(1) show ?thesis
    by (auto simp: run_env_def run_migrations_offline_def run_migrations_online_def do_run_migrations_def assms(2,3,6,7,9)
        tx close)
qed

section \<open>Property\<close>



end
