(* ===== verification/Loadtest.thy ===== *)
theory Loadtest
  imports Availability Migrations
begin

text \<open>
  The load test, \<^verbatim>\<open>loadtest/*.py\<close>: the requests the simulated users send (\<^verbatim>\<open>locustfile.py\<close>), the
  stub server that stands in for a model (\<^verbatim>\<open>stub_backend.py\<close>), and the script that derives the
  reported numbers from the recorded tables (\<^verbatim>\<open>summarize.py\<close>), with the part of Python's \<open>csv\<close> module
  it uses. Numbers are decimal texts without underscores; the texts of infinities and NaN, which
  Python's \<open>float\<close> also reads, are rejected. \<open>Report\<close> writes the summary.
\<close>

section \<open>Simulated users\<close>

definition NO_CACHE :: "string option \<Rightarrow> bool" where
  "NO_CACHE env \<longleftrightarrow> (case env of None \<Rightarrow> '''' | Some v \<Rightarrow> v) \<notin> {'''', ''0'', ''false''}"

definition POOL :: "string list" where
  "POOL = [''Explain what a mutex is in one sentence.'', ''What is the capital of France?'',
     ''Summarize the CAP theorem briefly.'', ''Define idempotency for an HTTP API.'',
     ''What does ACID stand for in databases?'']"

definition PARAPHRASE :: "string list" where
  "PARAPHRASE = [''Please '', ''Can you '', ''I'' @ [CHR 0x27] @ ''d like to know: '', ''Quick question - '']"

definition load_headers :: "string \<Rightarrow> bool \<Rightarrow> headers" where
  "load_headers api_key no_cache =
     (let h = [''X-API-Key'' \<mapsto> api_key, ''Content-Type'' \<mapsto> ''application/json''] in
      if no_cache then h(''x-cache'' \<mapsto> ''no-store'') else h)"

definition load_body :: "string \<Rightarrow> string \<Rightarrow> ChatCompletionRequest" where
  "load_body model prompt =
     \<lparr>cq_model = model, cq_messages = [\<lparr>mi_role = ''user'', mi_content = prompt\<rparr>], cq_stream = False\<rparr>"

definition lower_char :: "char \<Rightarrow> char" where
  "lower_char c = (if 65 \<le> (of_char c :: nat) \<and> (of_char c :: nat) \<le> 90 then char_of (of_char c + 32 :: nat) else c)"

text \<open>The prompts of the three tasks, given the random choices they make.\<close>

datatype load_task = Exact nat | Semantic nat nat | Miss uuid

fun task_prompt :: "load_task \<Rightarrow> string" where
  "task_prompt (Exact i) = POOL ! (i mod 5)"
| "task_prompt (Semantic i j) = PARAPHRASE ! (i mod 4) @ map lower_char (POOL ! (j mod 5))"
| "task_prompt (Miss u) = ''Give me fact number '' @ uuid_str u @ '' about distributed systems.''"

definition load_request ::
  "('r, 's) api_services_scheme \<Rightarrow> 'r app \<Rightarrow> string \<Rightarrow> string \<Rightarrow> bool \<Rightarrow> load_task \<Rightarrow>
   (('r, 'z) orchestrator_state_scheme, chat_reply) act" where
  "load_request S app api_key model no_cache t =
     chat_completions S app (load_headers api_key no_cache) (load_body model (task_prompt t))"

lemma load_body_valid: "valid_chat_request (load_body model prompt)"
  by (simp add: valid_chat_request_def load_body_def)

text \<open>
  The two runs differ in what they are meant to differ in: a request of the baseline run is served
  with the cache bypassed, one of the other run is not.
\<close>

lemma load_request_serves:
  "load_request S app api_key model no_cache t w =
     bindE (require_api_key S (load_headers api_key no_cache)) (\<lambda>k.
       bindE (reading (sv_uuid4 S)) (\<lambda>u. bindE (reading (sv_time S)) (\<lambda>now.
         complete_reply S (ap_orchestrator app) k (load_body model (task_prompt t)) no_cache
           (''chatcmpl-'' @ uuid_hex u) (int_trunc now)))) w"
proof -
  have "load_headers api_key no_cache ''x-cache'' = (if no_cache then Some ''no-store'' else None)"
    by (simp add: load_headers_def Let_def)
  then show ?thesis
    unfolding load_request_def chat_completions_def
    by (intro arg_cong [where f = "\<lambda>k. bindE _ k w"] ext) (simp add: serve_chat_def Let_def load_body_def)
qed

lemma baseline_answer_is_fresh:
  assumes "load_request S app api_key model True t w = (Inr (Reply r), w')"
  shows "cp_cache_tier r = None"
proof -
  from assms obtain k cid created w1 where
    "complete_reply S (ap_orchestrator app) k (load_body model (task_prompt t)) True cid created w1 = (Inr (Reply r), w')"
    by (auto simp: load_request_serves bindE_eq_Inr)
  then obtain result where res: "r = completion_response cid created result"
    "handle_complete S (ap_orchestrator app) k model (to_chat_messages (load_body model (task_prompt t))) True w1 = (Inr result, w')"
    by (auto simp: complete_reply_def load_body_def split: prod.splits sum.splits)
  then obtain start rid ps w2 where "complete_walk S (ap_orchestrator app) k model
      (to_chat_messages (load_body model (task_prompt t))) True start rid ps w2 = (Inr result, w')"
    by (auto simp: handle_complete_def lookup_def bindE_eq_Inr split: option.splits if_splits)
  from complete_walk_calls [OF this] res(1) show ?thesis by (auto simp: completion_result_def completion_response_def)
qed

section \<open>The stub server\<close>

record stub_reply =
  sr_model :: string
  sr_role :: string
  sr_content :: string
  sr_done :: bool
  sr_done_reason :: string
  sr_prompt_eval_count :: int
  sr_eval_count :: int

definition stub_chat :: "string \<Rightarrow> stub_reply" where
  "stub_chat model = \<lparr>sr_model = model, sr_role = ''assistant'', sr_content = ''stub response'', sr_done = True,
     sr_done_reason = ''stop'', sr_prompt_eval_count = 10, sr_eval_count = 3\<rparr>"

definition stub_tags :: "string list" where
  "stub_tags = [''stub'']"

text \<open>The token counts of the stub fit their columns, as a healthy environment asks.\<close>

lemma stub_counts_sane: "sane_tokens (sr_prompt_eval_count (stub_chat m)) (sr_eval_count (stub_chat m))"
  by (simp add: stub_chat_def sane_tokens_def int4_ok_def)

section \<open>Reading a table of comma-separated values\<close>

text \<open>Python's \<open>csv\<close> reader in its default dialect, on text with translated line ends.\<close>

datatype csv_state = StartRecord | StartField | InField | InQuoted | QuoteInQuoted

fun csv_read :: "csv_state \<Rightarrow> string \<Rightarrow> string list \<Rightarrow> string \<Rightarrow> string list list" where
  "csv_read st field row [] = (if st = StartRecord then [] else [rev (rev field # row)])"
| "csv_read st field row (c # cs) =
     (if st = InQuoted then
        (if c = CHR 0x22 then csv_read QuoteInQuoted field row cs else csv_read InQuoted (c # field) row cs)
      else if c = CHR 0x0A then
        (if st = StartRecord then [] else rev (rev field # row)) # csv_read StartRecord [] [] cs
      else if c = CHR '','' then csv_read StartField [] (rev field # row) cs
      else if c = CHR 0x22 \<and> st \<noteq> InField then csv_read InQuoted (if st = QuoteInQuoted then c # field else field) row cs
      else csv_read InField (c # field) row cs)"

definition csv_rows :: "string \<Rightarrow> string list list" where
  "csv_rows text = csv_read StartRecord [] [] text"

text \<open>
  A row of \<open>csv.DictReader\<close>: absent keys are \<open>None\<close>, keys without a value (a short row) \<open>Some None\<close>.
\<close>

type_synonym csv_dict = "string \<Rightarrow> string option option"

definition dict_row :: "string list \<Rightarrow> string list \<Rightarrow> csv_dict" where
  "dict_row names row k =
     (if k \<in> set (drop (length row) names) then Some None
      else map_option Some (map_of (rev (zip names row)) k))"

definition dict_rows :: "string \<Rightarrow> csv_dict list" where
  "dict_rows text =
     (case csv_rows text of [] \<Rightarrow> [] | names # rows \<Rightarrow> map (dict_row names) (filter (\<lambda>r. r \<noteq> []) rows))"

section \<open>The summary\<close>

definition and_then :: "exn + 'a \<Rightarrow> ('a \<Rightarrow> exn + 'b) \<Rightarrow> exn + 'b" where
  "and_then x f = (case x of Inl e \<Rightarrow> Inl e | Inr y \<Rightarrow> f y)"

lemma and_then_simps [simp]: "and_then (Inl e) f = Inl e" "and_then (Inr y) f = f y"
  by (simp_all add: and_then_def)

lemma and_then_Inr: "and_then x f = Inr z \<longleftrightarrow> (\<exists>y. x = Inr y \<and> f y = Inr z)"
  by (cases x) simp_all

fun find_aggregated :: "csv_dict list \<Rightarrow> exn + csv_dict" where
  "find_aggregated [] = Inl (ValueError ''no Aggregated row'')"
| "find_aggregated (row # rows) =
     (case row ''Name'' of
        None \<Rightarrow> Inl KeyError
      | Some v \<Rightarrow> if v = Some ''Aggregated'' then Inr row else find_aggregated rows)"

definition aggregated_row :: "(string \<Rightarrow> exn + string) \<Rightarrow> string \<Rightarrow> exn + csv_dict" where
  "aggregated_row files path = and_then (files path) (\<lambda>text. find_aggregated (dict_rows text))"

definition cell :: "csv_dict \<Rightarrow> string \<Rightarrow> exn + string" where
  "cell row k =
     (case row k of None \<Rightarrow> Inl KeyError | Some None \<Rightarrow> Inl (RuntimeError ''TypeError'') | Some (Some t) \<Rightarrow> Inr t)"

definition signed :: "string \<Rightarrow> int \<times> string" where
  "signed t = (case t of [] \<Rightarrow> (1, []) | c # cs \<Rightarrow> if c = CHR ''-'' then (- 1, cs) else if c = CHR ''+'' then (1, cs) else (1, t))"

definition digits_int :: "string \<Rightarrow> int" where
  "digits_int ds = foldl (\<lambda>a c. 10 * a + int (digit_val c)) 0 ds"

definition digits_value :: "string \<Rightarrow> int option" where
  "digits_value ds = (if ds \<noteq> [] \<and> List.list_all is_digit ds then Some (digits_int ds) else None)"

definition py_int :: "string \<Rightarrow> exn + int" where
  "py_int t =
     (case signed (strip t) of (sign, ds) \<Rightarrow>
        (case digits_value ds of None \<Rightarrow> Inl (ValueError ''invalid literal for int()'') | Some n \<Rightarrow> Inr (sign * n)))"

text \<open>The digits before the point, those after it, and the exponent.\<close>

definition py_float :: "string \<Rightarrow> exn + rat" where
  "py_float t =
     (case signed (strip t) of (sign, rest) \<Rightarrow>
       let whole = takeWhile is_digit rest; after = dropWhile is_digit rest;
           frac = (if after \<noteq> [] \<and> hd after = CHR ''.'' then takeWhile is_digit (tl after) else []);
           ex = (if after \<noteq> [] \<and> hd after = CHR ''.'' then dropWhile is_digit (tl after) else after);
           mantissa = of_int (digits_int (whole @ frac)) / 10 ^ length frac in
       if whole @ frac = [] then Inl (ValueError ''could not convert string to float'')
       else if ex = [] then Inr (of_int sign * mantissa)
       else if hd ex \<noteq> CHR ''e'' \<and> hd ex \<noteq> CHR ''E'' then Inl (ValueError ''could not convert string to float'')
       else (case signed (tl ex) of (esign, ds) \<Rightarrow>
         (case digits_value ds of
            None \<Rightarrow> Inl (ValueError ''could not convert string to float'')
          | Some n \<Rightarrow> Inr (of_int sign * mantissa * (if esign = 1 then 10 ^ nat n else 1 / 10 ^ nat n)))))"

text \<open>Python's \<open>round\<close>: to the nearest, ties to the even neighbour.\<close>

definition round_even :: "rat \<Rightarrow> int" where
  "round_even q =
     (let n = \<lfloor>q\<rfloor>; d = q - of_int n in
      if d < 1 / 2 then n else if 1 / 2 < d then n + 1 else if even n then n else n + 1)"

definition round_to :: "nat \<Rightarrow> rat \<Rightarrow> rat" where
  "round_to n q = of_int (round_even (q * 10 ^ n)) / 10 ^ n"

record run_figures =
  rf_requests :: int
  rf_failures :: int
  rf_median_ms :: rat
  rf_p95_ms :: rat
  rf_p99_ms :: rat
  rf_requests_per_s :: rat

definition results_path :: "string \<Rightarrow> string" where
  "results_path name = ''results/'' @ name"

definition run_summary :: "(string \<Rightarrow> exn + string) \<Rightarrow> string \<Rightarrow> exn + run_figures" where
  "run_summary files csv_name =
     and_then (aggregated_row files (results_path csv_name)) (\<lambda>row.
     and_then (and_then (cell row ''Request Count'') py_int) (\<lambda>requests.
     and_then (and_then (cell row ''Failure Count'') py_int) (\<lambda>failures.
     and_then (and_then (cell row ''50%'') py_float) (\<lambda>median_ms.
     and_then (and_then (cell row ''95%'') py_float) (\<lambda>p95_ms.
     and_then (and_then (cell row ''99%'') py_float) (\<lambda>p99_ms.
     and_then (and_then (cell row ''Requests/s'') py_float) (\<lambda>rate.
     Inr \<lparr>rf_requests = requests, rf_failures = failures, rf_median_ms = median_ms, rf_p95_ms = p95_ms,
          rf_p99_ms = p99_ms, rf_requests_per_s = round_to 2 rate\<rparr>)))))))"

record load_summary =
  ls_baseline :: run_figures
  ls_cache_on :: run_figures
  ls_p95_reduction_pct :: rat
  ls_median_reduction_pct :: rat
  ls_throughput_multiple :: rat
  ls_concurrency :: run_figures

definition divide_float :: "rat \<Rightarrow> rat \<Rightarrow> exn + rat" where
  "divide_float a b = (if b = 0 then Inl (RuntimeError ''ZeroDivisionError'') else Inr (a / b))"

definition summarize_main :: "(string \<Rightarrow> exn + string) \<Rightarrow> exn + load_summary" where
  "summarize_main files =
     and_then (run_summary files ''baseline_stats.csv'') (\<lambda>baseline.
     and_then (run_summary files ''cache_stats.csv'') (\<lambda>cache.
     and_then (run_summary files ''gateway_concurrency_stats.csv'') (\<lambda>concurrency.
     and_then (divide_float (rf_p95_ms cache) (rf_p95_ms baseline)) (\<lambda>p95_ratio.
     and_then (divide_float (rf_median_ms cache) (rf_median_ms baseline)) (\<lambda>median_ratio.
     and_then (divide_float (of_int (rf_requests cache)) (of_int (rf_requests baseline))) (\<lambda>multiple.
     Inr \<lparr>ls_baseline = baseline, ls_cache_on = cache,
          ls_p95_reduction_pct = round_to 1 ((1 - p95_ratio) * 100),
          ls_median_reduction_pct = round_to 1 ((1 - median_ratio) * 100),
          ls_throughput_multiple = round_to 2 multiple, ls_concurrency = concurrency\<rparr>))))))"

section \<open>What the numbers mean\<close>

text \<open>The reader gives back the rows of a table without quotes, commas and line ends in its fields.\<close>

definition plain :: "string \<Rightarrow> bool" where
  "plain field \<longleftrightarrow> CHR '','' \<notin> set field \<and> CHR 0x22 \<notin> set field \<and> CHR 0x0A \<notin> set field"

lemma csv_read_field:
  "plain f \<Longrightarrow> csv_read InField field row (f @ cs) = csv_read InField (rev f @ field) row cs"
  by (induction f arbitrary: field) (auto simp: plain_def)

lemma csv_read_cell:
  assumes "plain f" and "st = StartField \<or> st = StartRecord"
  shows "csv_read st [] row (f @ CHR '','' # cs) = csv_read StartField [] (f # row) cs"
    and "f \<noteq> [] \<or> st = StartField \<Longrightarrow> csv_read st [] row (f @ CHR 0x0A # cs) = rev (f # row) # csv_read StartRecord [] [] cs"
  using assms csv_read_field [of "tl f"] by (cases f; auto simp: plain_def)+

lemma csv_read_row:
  assumes "\<forall>f \<in> set fs. plain f" and "fs \<noteq> []" and "st = StartField \<or> st = StartRecord"
    and "st = StartField \<or> fs \<noteq> [[]]"
  shows "csv_read st [] row (join '','' fs @ CHR 0x0A # cs) = (rev row @ fs) # csv_read StartRecord [] [] cs"
  using assms
proof (induction fs arbitrary: st row)
  case (Cons f fs)
  show ?case
  proof (cases fs)
    case Nil
    with Cons.prems show ?thesis by (auto simp: join_def csv_read_cell(2))
  next
    case (Cons g gs)
    then have "join '','' (f # fs) @ CHR 0x0A # cs = f @ CHR '','' # (join '','' fs @ CHR 0x0A # cs)" by (simp add: join_def)
    moreover have "csv_read StartField [] (f # row) (join '','' fs @ CHR 0x0A # cs) = (rev (f # row) @ fs) # csv_read StartRecord [] [] cs"
      by (rule Cons.IH) (use Cons.prems Cons in auto)
    ultimately show ?thesis using Cons.prems by (simp add: csv_read_cell(1))
  qed
qed simp

lemma csv_rows_plain:
  assumes "\<forall>row \<in> set rows. row \<noteq> [] \<and> row \<noteq> [[]] \<and> (\<forall>f \<in> set row. plain f)"
  shows "csv_rows (concat (map (\<lambda>row. join '','' row @ newline) rows)) = rows"
  using assms
proof (induction rows)
  case (Cons row rows)
  have "csv_read StartRecord [] [] (join '','' row @ CHR 0x0A # concat (map (\<lambda>row. join '','' row @ newline) rows)) =
      row # csv_read StartRecord [] [] (concat (map (\<lambda>row. join '','' row @ newline) rows))"
    using csv_read_row [of row StartRecord "[]"] Cons.prems by simp
  with Cons show ?case by (simp add: csv_rows_def newline_def)
qed (simp add: csv_rows_def)

lemma round_even_near: "\<bar>of_int (round_even q) - q\<bar> \<le> 1 / 2"
proof -
  have "of_int \<lfloor>q\<rfloor> \<le> q" "q < of_int \<lfloor>q\<rfloor> + 1" by linarith+
  then show ?thesis by (auto simp: round_even_def Let_def abs_le_iff)
qed

lemma round_to_near: "\<bar>round_to n q - q\<bar> \<le> 1 / (2 * 10 ^ n)"
proof -
  have "round_to n q - q = (of_int (round_even (q * 10 ^ n)) - q * 10 ^ n) / 10 ^ n"
    by (simp add: round_to_def diff_divide_distrib)
  then have "\<bar>round_to n q - q\<bar> = \<bar>of_int (round_even (q * 10 ^ n)) - q * 10 ^ n\<bar> / 10 ^ n"
    by (simp add: abs_divide)
  also have "\<dots> \<le> (1 / 2) / 10 ^ n" by (intro divide_right_mono round_even_near) simp
  finally show ?thesis by simp
qed

text \<open>
  The reported reductions are those of the measured percentiles up to rounding, and a report only
  exists when the baseline measured something.
\<close>

lemma summary_reports_reduction:
  assumes "summarize_main files = Inr s"
  shows "rf_p95_ms (ls_baseline s) \<noteq> 0 \<and> rf_requests (ls_baseline s) \<noteq> 0 \<and>
    \<bar>ls_p95_reduction_pct s - 100 * (1 - rf_p95_ms (ls_cache_on s) / rf_p95_ms (ls_baseline s))\<bar> \<le> 1 / 20 \<and>
    \<bar>ls_median_reduction_pct s - 100 * (1 - rf_median_ms (ls_cache_on s) / rf_median_ms (ls_baseline s))\<bar> \<le> 1 / 20 \<and>
    \<bar>ls_throughput_multiple s - of_int (rf_requests (ls_cache_on s)) / of_int (rf_requests (ls_baseline s))\<bar> \<le> 1 / 200"
  using assms round_to_near [of 1 "(1 - rf_p95_ms (ls_cache_on s) / rf_p95_ms (ls_baseline s)) * 100"]
    round_to_near [of 1 "(1 - rf_median_ms (ls_cache_on s) / rf_median_ms (ls_baseline s)) * 100"]
    round_to_near [of 2 "of_int (rf_requests (ls_cache_on s)) / of_int (rf_requests (ls_baseline s))"]
  by (auto simp: summarize_main_def and_then_Inr divide_float_def mult.commute split: if_splits)

text \<open>The header and the \<^verbatim>\<open>Aggregated\<close> rows of the committed tables, and the figures read from them.\<close>

definition results_header :: string where
  "results_header = ''Type,Name,Request Count,Failure Count,Median Response Time,Average Response Time,Min Response Time,Max Response Time,Average Content Size,Requests/s,Failures/s,'' @
     ''50%,66%,75%,80%,90%,95%,98%,99%,99.9%,99.99%,100%'' @ newline"

definition committed :: "string \<Rightarrow> exn + string" where
  "committed path =
     (if path = results_path ''baseline_stats.csv'' then Inr (results_header @
        '',Aggregated,262,0,5000,6471.724389826538,1389.9121249560267,20727.617958094925,544.675572519084,0.4393544099664487,'' @ ''0.0,5000,7000,8000,8900,12000,16000,18000,19000,21000,21000,21000'' @ newline)
      else if path = results_path ''cache_stats.csv'' then Inr (results_header @
        '',Aggregated,1695,1,70,754.7087453735668,5.656583001837134,30175.514040980488,574.1504424778761,2.826728982682412,'' @ ''0.0016676867154468509,70,100,120,130,3300,5300,8300,9300,27000,30000,30000'' @ newline)
      else if path = results_path ''gateway_concurrency_stats.csv'' then Inr (results_header @
        '',Aggregated,13215,0,48,143.9782154242636,7.635417161509395,763.0769580136985,304.0,110.85996272952444,'' @ ''0.0,48,76,150,330,510,560,610,630,680,760,760'' @ newline)
      else Inl (RuntimeError ''FileNotFoundError''))"

lemma committed_runs:
  "run_summary committed ''baseline_stats.csv'' = Inr \<lparr>rf_requests = 262, rf_failures = 0, rf_median_ms = 5000,
     rf_p95_ms = 16000, rf_p99_ms = 19000, rf_requests_per_s = 44 / 100\<rparr>"
  "run_summary committed ''cache_stats.csv'' = Inr \<lparr>rf_requests = 1695, rf_failures = 1, rf_median_ms = 70,
     rf_p95_ms = 5300, rf_p99_ms = 9300, rf_requests_per_s = 283 / 100\<rparr>"
  "run_summary committed ''gateway_concurrency_stats.csv'' = Inr \<lparr>rf_requests = 13215, rf_failures = 0, rf_median_ms = 48,
     rf_p95_ms = 560, rf_p99_ms = 630, rf_requests_per_s = 11086 / 100\<rparr>"
  by code_simp+

end
