(* ===== verification/Report.thy ===== *)
theory Report
  imports Loadtest
begin

text \<open>
  The report of the load test: the rest of \<^verbatim>\<open>main\<close> in \<^verbatim>\<open>loadtest/summarize.py\<close>, which writes the
  summary as indented JSON to \<^verbatim>\<open>results/summary.json\<close> and prints it. \<open>float_repr\<close> is Python's \<open>repr\<close>
  of a float as far as its text is the decimal that was read or rounded: numbers of at most 15
  significant digits that are written without an exponent; for any other number the report is
  left open (\<open>None\<close>). For the committed tables the text is the committed report.
\<close>

section \<open>Numbers\<close>

text \<open>The fewest decimal places that write a number exactly, up to a bound.\<close>

fun places :: "nat \<Rightarrow> rat \<Rightarrow> nat option" where
  "places 0 q = (if of_int \<lfloor>q\<rfloor> = q then Some 0 else None)"
| "places (Suc n) q = (if of_int \<lfloor>q\<rfloor> = q then Some 0 else map_option Suc (places n (10 * q)))"

definition pad_left :: "nat \<Rightarrow> string \<Rightarrow> string" where
  "pad_left n s = replicate (n - length s) (CHR ''0'') @ s"

definition float_repr :: "rat \<Rightarrow> string option" where
  "float_repr q =
     (if q \<noteq> 0 \<and> \<bar>q\<bar> < 1 / 10000 \<or> 10 ^ 15 \<le> \<bar>q\<bar> then None
      else case places 15 \<bar>q\<bar> of
        None \<Rightarrow> None
      | Some n \<Rightarrow>
          if 10 ^ 15 \<le> \<bar>q\<bar> * 10 ^ n then None
          else Some ((if q < 0 then ''-'' else []) @ show_int \<lfloor>\<bar>q\<bar>\<rfloor> @ ''.'' @
            pad_left (max 1 n) (show_int \<lfloor>(\<bar>q\<bar> - of_int \<lfloor>\<bar>q\<bar>\<rfloor>) * 10 ^ n\<rfloor>)))"

lemma places_numeral:
  "places (numeral k) q = (if of_int \<lfloor>q\<rfloor> = q then Some 0 else map_option Suc (places (pred_numeral k) (10 * q)))"
  by (simp add: numeral_eq_Suc)

lemma floor_fraction: "\<lfloor>numeral a / (numeral b :: rat)\<rfloor> = numeral a div numeral b"
  using floor_divide_of_int_eq [of "numeral a" "numeral b", where ?'a = rat] by simp

lemma digit_chars:
  "digit_char 0 = CHR ''0''" "digit_char 1 = CHR ''1''" "digit_char (Suc 0) = CHR ''1''" "digit_char 2 = CHR ''2''"
  "digit_char 3 = CHR ''3''" "digit_char 4 = CHR ''4''" "digit_char 5 = CHR ''5''" "digit_char 6 = CHR ''6''"
  "digit_char 7 = CHR ''7''" "digit_char 8 = CHR ''8''" "digit_char 9 = CHR ''9''"
  by code_simp+

lemmas evaluate_numbers = places_numeral floor_fraction show_int_def show_nat.simps [of "numeral n" for n]
  show_nat.simps [of 0] show_nat.simps [of 1] show_nat.simps [of "Suc 0"] digit_chars pad_left_def

lemma float_repr_examples:
  "float_repr 5000 = Some ''5000.0''" "float_repr (11 / 25) = Some ''0.44''" "float_repr (5543 / 50) = Some ''110.86''"
  "float_repr (669 / 10) = Some ''66.9''" "float_repr 0 = Some ''0.0''" "float_repr (- 7 / 8) = Some ''-0.875''"
  by (simp_all add: float_repr_def evaluate_numbers)

section \<open>Text\<close>

text \<open>Python's \<open>json.dumps\<close> with an indent of two, on strings, integers, floats and dictionaries.\<close>

datatype summary_json = SStr string | SInt int | SFloat rat | SObj "(string \<times> summary_json) list"

definition line_at :: "nat \<Rightarrow> string" where
  "line_at level = newline @ replicate (2 * level) (CHR '' '')"

function (sequential) dump_at :: "nat \<Rightarrow> summary_json \<Rightarrow> string option"
  and dump_items :: "nat \<Rightarrow> (string \<times> summary_json) list \<Rightarrow> string option" where
  "dump_at level (SStr s) = Some (dump_string s)"
| "dump_at level (SInt i) = Some (show_int i)"
| "dump_at level (SFloat q) = float_repr q"
| "dump_at level (SObj []) = Some ''{}''"
| "dump_at level (SObj kvs) =
     map_option (\<lambda>items. ''{'' @ line_at (Suc level) @ items @ line_at level @ ''}'') (dump_items (Suc level) kvs)"
| "dump_items level [] = Some []"
| "dump_items level [(k, v)] = map_option (\<lambda>t. dump_string k @ '': '' @ t) (dump_at level v)"
| "dump_items level ((k, v) # kv # kvs) =
     (case dump_at level v of
        None \<Rightarrow> None
      | Some t \<Rightarrow> map_option (\<lambda>items. dump_string k @ '': '' @ t @ '','' @ line_at level @ items) (dump_items level (kv # kvs)))"
  by pat_completeness auto
termination
  by (relation "measure (\<lambda>x. case x of Inl (_, j) \<Rightarrow> size j
                                    | Inr (_, kvs) \<Rightarrow> size_list (size_prod (\<lambda>_. 0) size) kvs)") auto

definition figures_json :: "run_figures \<Rightarrow> summary_json" where
  "figures_json f =
     SObj [(''requests'', SInt (rf_requests f)), (''failures'', SInt (rf_failures f)), (''median_ms'', SFloat (rf_median_ms f)),
       (''p95_ms'', SFloat (rf_p95_ms f)), (''p99_ms'', SFloat (rf_p99_ms f)), (''requests_per_s'', SFloat (rf_requests_per_s f))]"

definition ab_description :: string where
  "ab_description = ''same 3-concurrent-user, 10-minute traffic mix run twice '' @
     ''against loadtest-model (qwen2.5:0.5b, num_predict=60) - '' @ ''once with x-cache: no-store (baseline), once with the '' @
     ''cache live''"

definition concurrency_description :: string where
  "concurrency_description = ''50 concurrent users, 2 minutes, bypass_cache=true, against '' @
     ''loadtest/stub_backend.py (an instant Ollama-contract stub) '' @ ''- isolates the gateway'' @ [CHR 0x27] @
     ''s own pipeline from real model '' @ ''inference latency''"

definition report_json :: "load_summary \<Rightarrow> summary_json" where
  "report_json s = SObj
     [(''cache_ab_test'', SObj
        [(''description'', SStr ab_description), (''baseline'', figures_json (ls_baseline s)),
         (''cache_on'', figures_json (ls_cache_on s)), (''p95_reduction_pct'', SFloat (ls_p95_reduction_pct s)),
         (''median_reduction_pct'', SFloat (ls_median_reduction_pct s)),
         (''throughput_multiple'', SFloat (ls_throughput_multiple s))]),
      (''gateway_concurrency_test'', SObj
        [(''description'', SStr concurrency_description), (''result'', figures_json (ls_concurrency s))])]"

text \<open>The files after the run and what it prints; \<open>None\<close> where \<open>float_repr\<close> is left open.\<close>

definition write_report ::
  "(string \<Rightarrow> exn + string) \<Rightarrow> exn + ((string \<Rightarrow> exn + string) \<times> string) option" where
  "write_report files =
     and_then (summarize_main files) (\<lambda>summary.
       Inr (map_option (\<lambda>text. (files(results_path ''summary.json'' := Inr (text @ newline)), text @ newline))
              (dump_at 0 (report_json summary))))"

section \<open>The committed report\<close>

text \<open>Running the script again on its own output changes nothing.\<close>

lemma write_report_again:
  assumes "write_report files = Inr (Some (files', out))"
  shows "write_report files' = Inr (Some (files', out))"
proof -
  from assms obtain s t where s: "summarize_main files = Inr s" "dump_at 0 (report_json s) = Some t"
    and out: "files' = files(results_path ''summary.json'' := Inr (t @ newline))" "out = t @ newline"
    by (auto simp: write_report_def and_then_Inr)
  have "summarize_main files' = summarize_main files"
    by (simp add: out(1) summarize_main_def run_summary_def aggregated_row_def results_path_def)
  with s out show ?thesis by (simp add: write_report_def)
qed

definition dq :: "string \<Rightarrow> string" where
  "dq s = CHR 0x22 # s @ [CHR 0x22]"

definition committed_report :: string where
  "committed_report = join newline
     [''{'',
      ''  '' @ dq ''cache_ab_test'' @ '': {'',
      ''    '' @ dq ''description'' @ '': '' @ dq ''same 3-concurrent-user, 10-minute traffic mix run twice against loadtest-model (qwen2.5:0.5b, num_predict=60) - once with x-cache: no-store (baseline), once with the cache live'' @ '','',
      ''    '' @ dq ''baseline'' @ '': {'',
      ''      '' @ dq ''requests'' @ '': 262,'',
      ''      '' @ dq ''failures'' @ '': 0,'',
      ''      '' @ dq ''median_ms'' @ '': 5000.0,'',
      ''      '' @ dq ''p95_ms'' @ '': 16000.0,'',
      ''      '' @ dq ''p99_ms'' @ '': 19000.0,'',
      ''      '' @ dq ''requests_per_s'' @ '': 0.44'',
      ''    },'',
      ''    '' @ dq ''cache_on'' @ '': {'',
      ''      '' @ dq ''requests'' @ '': 1695,'',
      ''      '' @ dq ''failures'' @ '': 1,'',
      ''      '' @ dq ''median_ms'' @ '': 70.0,'',
      ''      '' @ dq ''p95_ms'' @ '': 5300.0,'',
      ''      '' @ dq ''p99_ms'' @ '': 9300.0,'',
      ''      '' @ dq ''requests_per_s'' @ '': 2.83'',
      ''    },'',
      ''    '' @ dq ''p95_reduction_pct'' @ '': 66.9,'',
      ''    '' @ dq ''median_reduction_pct'' @ '': 98.6,'',
      ''    '' @ dq ''throughput_multiple'' @ '': 6.47'',
      ''  },'',
      ''  '' @ dq ''gateway_concurrency_test'' @ '': {'',
      ''    '' @ dq ''description'' @ '': '' @ dq (''50 concurrent users, 2 minutes, bypass_cache=true, against loadtest/stub_backend.py (an instant Ollama-contract stub) - isolates the gateway'' @ [CHR 0x27] @ ''s own pipeline from real model inference latency'') @ '','',
      ''    '' @ dq ''result'' @ '': {'',
      ''      '' @ dq ''requests'' @ '': 13215,'',
      ''      '' @ dq ''failures'' @ '': 0,'',
      ''      '' @ dq ''median_ms'' @ '': 48.0,'',
      ''      '' @ dq ''p95_ms'' @ '': 560.0,'',
      ''      '' @ dq ''p99_ms'' @ '': 630.0,'',
      ''      '' @ dq ''requests_per_s'' @ '': 110.86'',
      ''    }'',
      ''  }'',
      ''}''] @ newline"

lemma dump_string_plain:
  "List.list_all (\<lambda>c. json_escape c = [c]) s \<Longrightarrow> dump_string s = dq s"
proof -
  assume "List.list_all (\<lambda>c. json_escape c = [c]) s"
  then have "concat (map json_escape s) = s" by (induction s) simp_all
  then show ?thesis by (simp add: dump_string_def dq_def)
qed

lemma report_strings:
  "dump_string ab_description = dq ab_description" "dump_string concurrency_description = dq concurrency_description"
  "dump_string ''cache_ab_test'' = dq ''cache_ab_test''" "dump_string ''description'' = dq ''description''"
  "dump_string ''baseline'' = dq ''baseline''" "dump_string ''cache_on'' = dq ''cache_on''"
  "dump_string ''p95_reduction_pct'' = dq ''p95_reduction_pct''"
  "dump_string ''median_reduction_pct'' = dq ''median_reduction_pct''"
  "dump_string ''throughput_multiple'' = dq ''throughput_multiple''"
  "dump_string ''gateway_concurrency_test'' = dq ''gateway_concurrency_test''" "dump_string ''result'' = dq ''result''"
  "dump_string ''requests'' = dq ''requests''" "dump_string ''failures'' = dq ''failures''"
  "dump_string ''median_ms'' = dq ''median_ms''" "dump_string ''p95_ms'' = dq ''p95_ms''"
  "dump_string ''p99_ms'' = dq ''p99_ms''" "dump_string ''requests_per_s'' = dq ''requests_per_s''"
  by (rule dump_string_plain, code_simp)+

lemma report_numbers:
  "float_repr 5000 = Some ''5000.0''" "float_repr 16000 = Some ''16000.0''" "float_repr 19000 = Some ''19000.0''"
  "float_repr (11 / 25) = Some ''0.44''" "float_repr 70 = Some ''70.0''" "float_repr 5300 = Some ''5300.0''"
  "float_repr 9300 = Some ''9300.0''" "float_repr (283 / 100) = Some ''2.83''" "float_repr 48 = Some ''48.0''"
  "float_repr 560 = Some ''560.0''" "float_repr 630 = Some ''630.0''" "float_repr (5543 / 50) = Some ''110.86''"
  "float_repr (669 / 10) = Some ''66.9''" "float_repr (493 / 5) = Some ''98.6''" "float_repr (647 / 100) = Some ''6.47''"
  "show_int 262 = ''262''" "show_int 0 = ''0''" "show_int 1695 = ''1695''" "show_int 1 = ''1''" "show_int 13215 = ''13215''"
  by (simp_all add: float_repr_def evaluate_numbers)

lemma committed_summary:
  "summarize_main committed = Inr
    \<lparr>ls_baseline = \<lparr>rf_requests = 262, rf_failures = 0, rf_median_ms = 5000, rf_p95_ms = 16000, rf_p99_ms = 19000,
       rf_requests_per_s = 11 / 25\<rparr>,
     ls_cache_on = \<lparr>rf_requests = 1695, rf_failures = 1, rf_median_ms = 70, rf_p95_ms = 5300, rf_p99_ms = 9300,
       rf_requests_per_s = 283 / 100\<rparr>,
     ls_p95_reduction_pct = 669 / 10, ls_median_reduction_pct = 493 / 5, ls_throughput_multiple = 647 / 100,
     ls_concurrency = \<lparr>rf_requests = 13215, rf_failures = 0, rf_median_ms = 48, rf_p95_ms = 560, rf_p99_ms = 630,
       rf_requests_per_s = 5543 / 50\<rparr>\<rparr>"
proof -
  have "round_to 1 ((1 - 5300 / 16000) * 100) = 669 / 10" "round_to 1 ((1 - 70 / 5000) * 100) = 493 / 5"
    "round_to 2 (1695 / 262) = 647 / 100"
    by code_simp+
  then show ?thesis by (simp add: summarize_main_def committed_runs divide_float_def)
qed

lemma report_lines:
  "line_at 0 = newline" "line_at (Suc 0) = newline @ ''  ''" "line_at (Suc (Suc 0)) = newline @ ''    ''"
  "line_at (Suc (Suc (Suc 0))) = newline @ ''      ''"
  by (simp_all add: line_at_def numeral_eq_Suc)

text \<open>The committed \<^verbatim>\<open>summary.json\<close> is what the script makes of the committed tables.\<close>

lemma committed_report_text:
  "dump_at 0 (report_json (projr (summarize_main committed))) = Some t \<Longrightarrow> t @ newline = committed_report"
  by (simp add: committed_summary report_json_def figures_json_def report_strings report_numbers report_lines,
      simp add: committed_report_def join_def ab_description_def concurrency_description_def)

lemma committed_report_derived:
  "write_report committed = Inr (Some (committed(results_path ''summary.json'' := Inr committed_report), committed_report))"
proof -
  obtain t where t: "dump_at 0 (report_json (projr (summarize_main committed))) = Some t"
    by (simp add: committed_summary report_json_def figures_json_def report_strings report_numbers)
  with committed_report_text [OF t] show ?thesis by (simp add: write_report_def committed_summary)
qed

end
