(* ===== verification/Spec2Isabelle.thy ===== *)
theory Spec2Isabelle
  imports Accounting Routes Semaphores Reloads Report
begin

text \<open>
  The inference gateway (\<^verbatim>\<open>src/src/gateway\<close>) is an HTTP service in front of language-model
  servers. A chat request is authenticated, charged against a token budget, answered from a
  two-tier cache when possible, and otherwise sent to the backends of its model one after another
  until one answers. Redis holds the budgets, the circuit breakers, the latency samples and the
  exact cache; Postgres holds keys, backends, the semantic cache and the request log.

  \<^bold>\<open>Theories and sources.\<close>
  \<^item> \<open>Prelude\<close>: exceptions as values, actions \<open>('s, 'a) act\<close> (state passing with errors), their
    combinators and simulation rules, decimal and hexadecimal text, facts on lists.
  \<^item> \<open>Domain\<close>, \<open>Config\<close>: \<^verbatim>\<open>domain/__init__.py\<close>, \<^verbatim>\<open>config.py\<close> as records and datatypes.
  \<^item> \<open>Redis\<close>: the commands of the server as a parameter \<open>'r redis_api\<close>, their documented behaviour
    on an explicit keyspace with deadlines, and the locale \<open>redis_service\<close> that relates the two.
  \<^item> \<open>Breaker\<close>, \<open>RateLimit\<close>, \<open>LatencyTracker\<close>: \<^verbatim>\<open>resilience/*.py\<close>, the Lua scripts command by
    command and the methods around them.
  \<^item> \<open>Routing\<close>: \<^verbatim>\<open>routing/*.py\<close>, both policies behind the protocol.
  \<^item> \<open>Json\<close>, \<open>Cache\<close>: \<^verbatim>\<open>cache/*.py\<close>, the exact tier through the JSON text it stores, the semantic
    tier through the repository, the lazily built embedding service.
  \<^item> \<open>Persistence\<close>: \<^verbatim>\<open>persistence/models.py\<close>, \<^verbatim>\<open>persistence/repositories.py\<close> and the constraints
    of \<^verbatim>\<open>migrations/versions/0001_baseline.py\<close>; tables are lists of row records.
  \<^item> \<open>Node\<close>: the state one process works on and the parameters around it.
  \<^item> \<open>Registry\<close>: \<^verbatim>\<open>backends/registry.py\<close>, the pool of backends with client objects that have an
    identity and can be closed.
  \<^item> \<open>Orchestrator\<close>: \<^verbatim>\<open>orchestrator.py\<close>, both handlers in full; \<open>Pipeline\<close> and \<open>Streaming\<close> prove
    what they do.
  \<^item> \<open>Api\<close>: \<^verbatim>\<open>api/*.py\<close> and the wiring of \<^verbatim>\<open>main.py\<close>.
  \<^item> \<open>Contracts\<close>: contracts of actions, and the locales that cut both handlers into their steps.
    \<open>Accounting\<close> (the request log), \<open>Refine\<close> (any documented Redis), \<open>Replay\<close> (the exact cache in the
    request path), \<open>Availability\<close> (a healthy gateway answers) and \<open>System\<close> (all endpoints in any
    order) are built on them.
  \<^item> \<open>Routes\<close>: the routers of \<^verbatim>\<open>api/routers.py\<close> and their registration in \<^verbatim>\<open>main.py\<close>, behind a web
    framework that is a parameter.
  \<^item> \<open>Reloads\<close>: reloads of the registry that overlap, as steps between their awaits, and the shutdown.
  \<^item> \<open>Semaphores\<close>: the per-backend semaphores shared by concurrent requests, as steps of the tasks on
    the queue of waiting futures.
  \<^item> \<open>Migrations\<close>: \<^verbatim>\<open>migrations/versions/0001_baseline.py\<close> as the script text it is, the loop that
    cuts and executes it, \<^verbatim>\<open>migrations/env.py\<close> over a parameter for Alembic, and the mapped classes
    as table descriptions.
  \<^item> \<open>Loadtest\<close>, \<open>Report\<close>: \<^verbatim>\<open>src/loadtest/*.py\<close>, the requests of the simulated users, the stub server
    and the script that derives the published report from the recorded tables, to its text.

  \<^bold>\<open>What is shown.\<close> For the limiter: grants are decided by the live cost, settlement charges the
  actual cost, and no interleaving of reservations lets the live cost of a key pass its budget
  (\<open>RateLimit\<close>). For the breaker: it trips at the threshold, recovers through the half-open state,
  and interleaved scripts of several gateways refine the three-state machine (\<open>Breaker\<close>). For the
  cache: what was put is served again, a semantic hit is a stored entry that is similar enough,
  and a missing embedding service only removes the second tier (\<open>Cache\<close>). For the registry: a
  reload publishes exactly the enabled rows with fresh clients and keeps the pool consistent
  however it ends (\<open>Registry\<close>). For the handlers: no backend is called twice, answers are the
  timely answers of the backend that was called last, giving up means that every candidate was
  tried or refused by its breaker, a stream is never spliced from two backends (\<open>Pipeline\<close>,
  \<open>Streaming\<close>). For the interface: authentication comes first and changes nothing when it fails,
  outcomes map to the documented answers, event streams are closed, admin calls are guarded and
  take effect (\<open>Api\<close>). Across components: every answer is logged exactly once (\<open>Accounting\<close>), the
  handlers depend on Redis only through its documented behaviour (\<open>Refine\<close>), a repeated request is
  served from the exact cache and a bypassing one leaves both tiers alone (\<open>Replay\<close>,
  \<open>Availability\<close>), a request with budget and one healthy candidate is answered (\<open>Availability\<close>), and
  the invariants hold for the whole life of a process (\<open>System\<close>). Calls in flight to a backend stay
  within the configured concurrency under every schedule and cancellation of tasks (\<open>Semaphores\<close>);
  the migration creates the tables the mapped classes expect and is undone by its downgrade
  (\<open>Migrations\<close>); the committed report is the text the script makes of the committed tables
  (\<open>Report\<close>). Overlapping reloads always publish one snapshot of the table and account for every
  client object, though not always the latest snapshot, and the shutdown closes the clients
  (\<open>Reloads\<close>); only requests with the administrator's key change keys, backends and the pool, and
  every request is a step of the life that \<open>System\<close> speaks of (\<open>Routes\<close>). Some theorems state what the code does where that is less than it
  intends; the manifest lists them as findings.

  \<^bold>\<open>Modelling decisions.\<close> Code outside the repository is a parameter: the Redis commands, clocks,
  random identifiers, the hash, the embedding service, the query plans of Postgres, the model
  servers. Each reading takes the next position of a counter, so nothing relates two readings
  unless a theorem says so. Floats are rationals, characters have eight bits, Python's integers
  are \<open>int\<close>, columns keep their 32-bit range and their numeric precision in the row checks. A
  call that ends before its deadline completes, any other times out. A \<open>session_scope\<close> is one
  atomic transaction; a Lua script is one atomic exchange. An await that is never resumed is the
  outcome \<open>Blocked\<close>; the cancellation of a task is an exception that \<open>except Exception\<close> does not
  catch. The failover loop is a total function: its measure is the number of remaining
  candidates, so no fuel is needed anywhere.

  \<^bold>\<open>Not modelled.\<close> Log lines and logging configuration; the construction of the engine, the Redis
  client and the FastAPI object, the matching of URLs and the parsing of bodies, which are calls
  into other packages (the last two are parameters of \<open>Routes\<close>); disconnecting consumers of an event
  stream; which task a simulated user picks, the infinities, NaN and underscores that Python's
  \<open>float\<close> reads, and the text of floats that need an exponent or more than 15 digits. The vendored
  client protocol, the session scope and the embedding library appear only as parameters. What is
  left of the sources is imports, docstrings and constructors that store their arguments.
\<close>

section \<open>The key of the exact cache\<close>

text \<open>
  C40. The text that is hashed into the key of the exact cache does not determine the conversation:
  messages are joined with a bar that their contents may contain, so two requests with different
  messages share a key, and the second is served the answer of the first, whatever the hash
  function is.
\<close>

theorem prompt_hash_confuses_conversations:
  "\<exists>ms ms'. ms \<noteq> ms' \<and> length ms \<noteq> length ms' \<and>
     (\<forall>sha256_hex model. prompt_hash sha256_hex model ms = prompt_hash sha256_hex model ms')"
proof -
  let ?ms = "[\<lparr>m_role = ''user'', m_content = ''a''\<rparr>, \<lparr>m_role = ''user'', m_content = ''b''\<rparr>]"
  let ?ms' = "[\<lparr>m_role = ''user'', m_content = ''a|user:b''\<rparr>]"
  have "prompt_raw model ?ms = prompt_raw model ?ms'" for model
    by (simp add: prompt_raw_def join_def)
  then show ?thesis by (intro exI [of _ ?ms] exI [of _ ?ms']) (simp add: prompt_hash_def)
qed

end
